(* ===== verification/Prelude.thy ===== *)
theory Prelude
  imports Main "HOL-Library.Word" "HOL-Library.Sublist"
begin

text \<open>
  Shared vocabulary of the development: machine words and byte strings, the reader type that stands
  for a Go function taking an \<open>io.Reader\<close>, the result of writing into a \<open>bytes.Buffer\<close>, and the
  generic notions every codec of the package is judged by: \<open>decodes\<close> (reading back what was
  written), \<open>consumes\<close> (a reader only ever drops a prefix of its input) and \<open>progresses\<close> (it drops
  at least one byte of a non-empty input).
\<close>

unbundle bit_operations_syntax

section \<open>Types\<close>

type_synonym u8 = "8 word"
type_synonym u16 = "16 word"
type_synonym u32 = "32 word"
type_synonym u64 = "64 word"
type_synonym bytes = "u8 list"

text \<open>Go strings and byte slices are both byte sequences.\<close>

type_synonym gostring = bytes

definition ascii :: "string \<Rightarrow> gostring" where
  "ascii s = map of_char s"

lemma ascii_simps [simp]:
  "ascii [] = []" "ascii (c # s) = of_char c # ascii s" "ascii (s @ t) = ascii s @ ascii t"
  "length (ascii s) = length s"
  by (simp_all add: ascii_def)

lemma unat_bounds [simp]:
  "unat (a :: u8) < 256" "unat (b :: u16) < 65536" "unat (c :: u32) < 4294967296"
proof -
  have "unat a < 2 ^ LENGTH(8)" "unat b < 2 ^ LENGTH(16)" "unat c < 2 ^ LENGTH(32)"
    by (rule unsigned_less)+
  then show "unat a < 256" "unat b < 65536" "unat c < 4294967296" by simp_all
qed

section \<open>Readers\<close>

text \<open>
  The input of a reader is the list of bytes still to come.  A Go function
  \<open>func(r io.Reader) (T, error)\<close> is a function from that list to an error or a value, and the list
  that is left.  The error type is a parameter here; \<open>Errors\<close> fixes it.
\<close>

type_synonym ('e, 'a) reader = "bytes \<Rightarrow> ('e + 'a) \<times> bytes"

definition rreturn :: "'a \<Rightarrow> ('e, 'a) reader" where
  "rreturn a = (\<lambda>s. (Inr a, s))"

definition rfail :: "'e \<Rightarrow> ('e, 'a) reader" where
  "rfail e = (\<lambda>s. (Inl e, s))"

text \<open>\<open>if v, err = m(r); err != nil { return }\<close> followed by the rest of the function.\<close>

definition rbind :: "('e, 'a) reader \<Rightarrow> ('a \<Rightarrow> ('e, 'b) reader) \<Rightarrow> ('e, 'b) reader" where
  "rbind m k = (\<lambda>s. case m s of (Inl e, s') \<Rightarrow> (Inl e, s') | (Inr a, s') \<Rightarrow> k a s')"

lemma rreturn_apply [simp]: "rreturn a s = (Inr a, s)"
  by (simp add: rreturn_def)

lemma rfail_apply [simp]: "rfail e s = (Inl e, s)"
  by (simp add: rfail_def)

lemma rbind_Inr [simp]: "m s = (Inr a, s') \<Longrightarrow> rbind m k s = k a s'"
  by (simp add: rbind_def)

lemma rbind_Inl [simp]: "m s = (Inl e, s') \<Longrightarrow> rbind m k s = (Inl e, s')"
  by (simp add: rbind_def)

lemma rbind_cases:
  obtains (err) e s' where "m s = (Inl e, s')" "rbind m k s = (Inl e, s')"
  | (ok) a s' where "m s = (Inr a, s')" "rbind m k s = k a s'"
  by (cases "m s"; cases "fst (m s)") (auto simp: rbind_def)

lemma rbind_Inr_iff:
  "rbind m k s = (Inr b, s'') \<longleftrightarrow> (\<exists>a s'. m s = (Inr a, s') \<and> k a s' = (Inr b, s''))"
  by (auto simp: rbind_def split: prod.splits sum.splits)

lemma rbind_Inl_iff:
  "rbind m k s = (Inl e, s'') \<longleftrightarrow>
     m s = (Inl e, s'') \<or> (\<exists>a s'. m s = (Inr a, s') \<and> k a s' = (Inl e, s''))"
  by (auto simp: rbind_def split: prod.splits sum.splits)

section \<open>Writers\<close>

text \<open>
  Writing into a \<open>bytes.Buffer\<close> never fails; what can fail is the encoding of a value.  The result
  of such a function is its error or the bytes it appended.
\<close>

definition wthen :: "'e + bytes \<Rightarrow> 'e + bytes \<Rightarrow> 'e + bytes" where
  "wthen w w' = (case w of Inl e \<Rightarrow> Inl e
                | Inr bs \<Rightarrow> (case w' of Inl e \<Rightarrow> Inl e | Inr bs' \<Rightarrow> Inr (bs @ bs')))"

lemma wthen_simps [simp]:
  "wthen (Inl e) w = Inl e"
  "wthen (Inr bs) (Inl e) = Inl e"
  "wthen (Inr bs) (Inr bs') = Inr (bs @ bs')"
  by (simp_all add: wthen_def)

lemma wthen_Inr_iff:
  "wthen w w' = Inr bs \<longleftrightarrow> (\<exists>b b'. w = Inr b \<and> w' = Inr b' \<and> bs = b @ b')"
  by (auto simp: wthen_def split: sum.splits)

lemma wthen_Inl_iff:
  "wthen w w' = Inl e \<longleftrightarrow> w = Inl e \<or> (\<exists>b. w = Inr b \<and> w' = Inl e)"
  by (auto simp: wthen_def split: sum.splits)

section \<open>Reading back what was written\<close>

named_theorems decode_intros \<open>introduction rules for \<open>decodes\<close>\<close>
named_theorems consume_intros \<open>introduction rules for \<open>consumes\<close>\<close>

definition decodes :: "('e, 'a) reader \<Rightarrow> 'f + bytes \<Rightarrow> 'a \<Rightarrow> bool" where
  "decodes r w a \<longleftrightarrow> (\<exists>bs. w = Inr bs \<and> (\<forall>rest. r (bs @ rest) = (Inr a, rest)))"

lemma decodesI: "w = Inr bs \<Longrightarrow> (\<And>rest. r (bs @ rest) = (Inr a, rest)) \<Longrightarrow> decodes r w a"
  by (auto simp: decodes_def)

lemma decodesE:
  assumes "decodes r w a"
  obtains bs where "w = Inr bs" "\<And>rest. r (bs @ rest) = (Inr a, rest)"
  using assms by (auto simp: decodes_def)

lemma decodes_apply: "decodes r (Inr bs) a \<Longrightarrow> r (bs @ rest) = (Inr a, rest)"
  by (auto simp: decodes_def)

lemma decodes_return [decode_intros]: "a = b \<Longrightarrow> decodes (rreturn a) (Inr []) b"
  by (simp add: decodes_def)

lemma decodes_bind [decode_intros]:
  "decodes r w a \<Longrightarrow> decodes (k a) w' b \<Longrightarrow> decodes (rbind r k) (wthen w w') b"
  by (auto simp: decodes_def)

section \<open>Consumption\<close>

definition consumes :: "('e, 'a) reader \<Rightarrow> bool" where
  "consumes r \<longleftrightarrow> (\<forall>s. suffix (snd (r s)) s)"

definition progresses :: "('e, 'a) reader \<Rightarrow> bool" where
  "progresses r \<longleftrightarrow> (\<forall>s. s \<noteq> [] \<longrightarrow> length (snd (r s)) < length s)"

lemma consumesD: "consumes r \<Longrightarrow> r s = (x, s') \<Longrightarrow> suffix s' s"
  by (metis consumes_def snd_conv)

lemma consumes_length: "consumes r \<Longrightarrow> r s = (x, s') \<Longrightarrow> length s' \<le> length s"
  by (metis consumesD suffix_length_le)

lemma consumes_return [consume_intros]: "consumes (rreturn a)"
  by (simp add: consumes_def)

lemma consumes_fail [consume_intros]: "consumes (rfail e)"
  by (simp add: consumes_def)

lemma consumes_bind [consume_intros]:
  assumes "consumes m" and "\<And>a. consumes (k a)"
  shows "consumes (rbind m k)"
  unfolding consumes_def
proof
  fix s
  show "suffix (snd (rbind m k s)) s"
  proof (cases rule: rbind_cases [of m s k])
    case (err e s')
    then show ?thesis using assms(1) by (simp add: consumesD)
  next
    case (ok a s')
    moreover have "suffix (snd (k a s')) s'" using assms(2) by (simp add: consumes_def)
    moreover have "suffix s' s" using assms(1) ok by (simp add: consumesD)
    ultimately show ?thesis by (metis suffix_order.trans)
  qed
qed

lemma consumes_if [consume_intros]:
  "consumes a \<Longrightarrow> consumes b \<Longrightarrow> consumes (if c then a else b)"
  by simp

lemma progresses_bind:
  assumes "progresses m" and "\<And>a. consumes (k a)"
  shows "progresses (rbind m k)"
  unfolding progresses_def
proof (intro allI impI)
  fix s :: bytes
  assume "s \<noteq> []"
  then have m: "length (snd (m s)) < length s" using assms(1) by (simp add: progresses_def)
  show "length (snd (rbind m k s)) < length s"
  proof (cases rule: rbind_cases [of m s k])
    case (err e s')
    then show ?thesis using m by simp
  next
    case (ok a s')
    moreover have "length (snd (k a s')) \<le> length s'"
      using assms(2) by (simp add: consumes_def suffix_length_le)
    ultimately show ?thesis using m by simp
  qed
qed

section \<open>Bit fields of one octet\<close>

text \<open>\<open>if b { bits |= 1 << k }\<close> and \<open>bits & (1 << k) > 0\<close>, as the methods pack their booleans.\<close>

definition setBit :: "u8 \<Rightarrow> nat \<Rightarrow> bool \<Rightarrow> u8" where
  "setBit bits k b = (if b then bits OR push_bit k 1 else bits)"

definition testBit :: "u8 \<Rightarrow> nat \<Rightarrow> bool" where
  "testBit bits k \<longleftrightarrow> bits AND push_bit k 1 > 0"

lemma testBit_bit: "k < 8 \<Longrightarrow> testBit w k \<longleftrightarrow> bit w k"
proof -
  assume k: "k < 8"
  have "w AND push_bit k 1 > 0 \<longleftrightarrow> w AND push_bit k 1 \<noteq> 0"
    by (simp add: word_gt_0)
  also have "\<dots> \<longleftrightarrow> bit w k"
  proof
    assume "w AND push_bit k 1 \<noteq> 0"
    then obtain n where "bit (w AND push_bit k 1) n" by (metis bit_eqI bit_0_eq bot_apply bot_bool_def)
    then show "bit w k" by (auto simp: bit_simps)
  next
    assume "bit w k"
    then have "bit (w AND push_bit k 1) k" using k by (simp add: bit_simps)
    then show "w AND push_bit k 1 \<noteq> 0" by auto
  qed
  finally show ?thesis by (simp add: testBit_def)
qed

lemma testBit_setBit [simp]:
  "k < 8 \<Longrightarrow> j < 8 \<Longrightarrow> testBit (setBit w k b) j = (if j = k then b \<or> testBit w j else testBit w j)"
  by (auto simp: testBit_bit setBit_def bit_simps)

lemma testBit_0 [simp]: "testBit 0 k = False"
  by (simp add: testBit_def)

end
