(* ===== verification/Errors.thy ===== *)
theory Errors
  imports Prelude
begin

text \<open>
  The constants, error values and error type of the package: \<open>types.go\<close> (the \<open>Error\<close> struct, the
  \<open>Err...\<close> variables, \<open>newError\<close>) and the head of \<open>spec091.go\<close> (frame and reply codes,
  \<open>isSoftExceptionCode\<close>).
\<close>

section \<open>Frame and reply codes\<close>

definition frameMethod :: u8 where "frameMethod = 1"
definition frameHeader :: u8 where "frameHeader = 2"
definition frameBody :: u8 where "frameBody = 3"
definition frameHeartbeat :: u8 where "frameHeartbeat = 8"
definition frameEnd :: u8 where "frameEnd = 206"

lemmas frame_codes = frameMethod_def frameHeader_def frameBody_def frameHeartbeat_def frameEnd_def

definition AccessRefused :: int where "AccessRefused = 403"
definition FrameError :: int where "FrameError = 501"
definition SyntaxError :: int where "SyntaxError = 502"
definition CommandInvalid :: int where "CommandInvalid = 503"
definition ChannelError :: int where "ChannelError = 504"
definition UnexpectedFrame :: int where "UnexpectedFrame = 505"

definition ContentTooLarge :: int where "ContentTooLarge = 311"
definition NoRoute :: int where "NoRoute = 312"
definition NoConsumers :: int where "NoConsumers = 313"
definition NotFound :: int where "NotFound = 404"
definition ResourceLocked :: int where "ResourceLocked = 405"
definition PreconditionFailed :: int where "PreconditionFailed = 406"

definition frameMinSize :: int where "frameMinSize = 4096"
definition replySuccess :: int where "replySuccess = 200"
definition ConnectionForced :: int where "ConnectionForced = 320"
definition InvalidPath :: int where "InvalidPath = 402"
definition ResourceError :: int where "ResourceError = 506"
definition NotAllowed :: int where "NotAllowed = 530"
definition NotImplemented_code :: int where "NotImplemented_code = 540"
definition InternalError :: int where "InternalError = 541"

text \<open>The structs \<open>Queue\<close> and \<open>Blocking\<close>, which the package only declares.\<close>

record queueState =
  qs_Name :: gostring
  qs_Messages :: int
  qs_Consumers :: int

record blocking =
  bl_Active :: bool
  bl_Reason :: gostring

text \<open>The names of the exchange types.\<close>

definition ExchangeDirect :: gostring where "ExchangeDirect = ascii ''direct''"
definition ExchangeFanout :: gostring where "ExchangeFanout = ascii ''fanout''"
definition ExchangeTopic :: gostring where "ExchangeTopic = ascii ''topic''"
definition ExchangeHeaders :: gostring where "ExchangeHeaders = ascii ''headers''"

definition isSoftExceptionCode :: "int \<Rightarrow> bool" where
  "isSoftExceptionCode code =
     (if code = 311 then True
      else if code = 312 then True
      else if code = 313 then True
      else if code = 403 then True
      else if code = 404 then True
      else if code = 405 then True
      else if code = 406 then True
      else False)"

lemma isSoftExceptionCode_iff:
  "isSoftExceptionCode code \<longleftrightarrow>
     code \<in> {ContentTooLarge, NoRoute, NoConsumers, AccessRefused, NotFound, ResourceLocked, PreconditionFailed}"
  by (simp add: isSoftExceptionCode_def ContentTooLarge_def NoRoute_def NoConsumers_def AccessRefused_def
      NotFound_def ResourceLocked_def PreconditionFailed_def)

text \<open>The codes that close a connection are the hard ones.\<close>

lemma hard_codes:
  "\<forall>code \<in> {replySuccess, ConnectionForced, InvalidPath, FrameError, SyntaxError, CommandInvalid, ChannelError,
     UnexpectedFrame, ResourceError, NotAllowed, NotImplemented_code, InternalError}. \<not> isSoftExceptionCode code"
  by (simp add: isSoftExceptionCode_def replySuccess_def ConnectionForced_def InvalidPath_def FrameError_def
      SyntaxError_def CommandInvalid_def ChannelError_def UnexpectedFrame_def ResourceError_def NotAllowed_def
      NotImplemented_code_def InternalError_def)

section \<open>The Error struct\<close>

record amqp_error =
  Code :: int
  Reason :: gostring
  Server :: bool
  Recover :: bool

definition newError :: "u16 \<Rightarrow> gostring \<Rightarrow> amqp_error" where
  "newError code text =
     \<lparr> Code = uint code, Reason = text, Server = True,
       Recover = isSoftExceptionCode (uint code) \<rparr>"

text \<open>A composite literal \<open>&Error{Code: c, Reason: r}\<close>: the other fields have their zero values.\<close>

definition errorLit :: "int \<Rightarrow> string \<Rightarrow> amqp_error" where
  "errorLit c r = \<lparr> Code = c, Reason = ascii r, Server = False, Recover = False \<rparr>"

text \<open>
  Everything a function of the package can fail with.  \<open>EOF\<close> and \<open>UnexpectedEOF\<close> are the two errors
  of package \<open>io\<close> that reading an in-memory packet can give; \<open>Amqp\<close> is an \<open>*Error\<close>;
  \<open>HeartbeatPayload\<close>, \<open>MissingMethod\<close>, \<open>UnknownMethod\<close>, \<open>UnknownClass\<close> and \<open>DeliveryNotInitialized\<close>
  are the errors made with \<open>errors.New\<close> and \<open>fmt.Errorf\<close>; \<open>WriteError\<close> is a failure of the
  \<open>io.Writer\<close> below a frame.  \<open>Panic\<close> is a Go panic, which no function of the package recovers
  from, so it ends the program.  \<open>Diverged\<close> is no value of the code: it stands for a function that
  does not come back, because a loop goes on for ever, nobody receives what it sends, or a recursion
  has run out of fuel.  The last never happens: no reader of the package diverges (\<open>answers\<close>).
\<close>

datatype go_error =
    EOF
  | UnexpectedEOF
  | Amqp amqp_error
  | HeartbeatPayload
  | MissingMethod
  | UnknownMethod u16 u16
  | UnknownClass u16
  | DeliveryNotInitialized
  | WriteError
  | Panic
  | Diverged

definition ErrClosed :: go_error where
  "ErrClosed = Amqp (errorLit ChannelError ''channel/connection is not open'')"

definition ErrChannelMax :: go_error where
  "ErrChannelMax = Amqp (errorLit ChannelError ''channel id space exhausted'')"

definition ErrSyntax :: go_error where
  "ErrSyntax = Amqp (errorLit SyntaxError ''invalid field or value inside of a frame'')"

definition ErrFrame :: go_error where
  "ErrFrame = Amqp (errorLit FrameError ''frame could not be parsed'')"

definition ErrFieldType :: go_error where
  "ErrFieldType = Amqp (errorLit SyntaxError ''unsupported table field type'')"

text \<open>The variables that only a client would return.\<close>

definition ErrSASL :: go_error where
  "ErrSASL = Amqp (errorLit AccessRefused ''SASL could not negotiate a shared mechanism'')"

definition ErrCredentials :: go_error where
  "ErrCredentials = Amqp (errorLit AccessRefused ''username or password not allowed'')"

definition ErrVhost :: go_error where
  "ErrVhost = Amqp (errorLit AccessRefused ''no access to this vhost'')"

definition ErrCommandInvalid :: go_error where
  "ErrCommandInvalid = Amqp (errorLit CommandInvalid ''unexpected command received'')"

definition ErrUnexpectedFrame :: go_error where
  "ErrUnexpectedFrame = Amqp (errorLit UnexpectedFrame ''unexpected frame received'')"

lemma err_neq_EOF [simp]:
  "ErrClosed \<noteq> EOF" "ErrChannelMax \<noteq> EOF" "ErrSyntax \<noteq> EOF" "ErrFrame \<noteq> EOF" "ErrFieldType \<noteq> EOF"
  "ErrSyntax \<noteq> Diverged" "ErrFrame \<noteq> Diverged" "ErrFieldType \<noteq> Diverged"
  "ErrSyntax \<noteq> Panic" "ErrFrame \<noteq> Panic" "ErrFieldType \<noteq> Panic"
  "ErrSyntax \<noteq> UnexpectedEOF" "ErrFrame \<noteq> UnexpectedEOF"
  by (simp_all add: ErrClosed_def ErrChannelMax_def ErrSyntax_def ErrFrame_def ErrFieldType_def)

type_synonym 'a rd = "(go_error, 'a) reader"
type_synonym wresult = "go_error + bytes"

section \<open>Readers that come back\<close>

named_theorems answer_intros \<open>introduction rules for \<open>answers\<close>\<close>

definition answers :: "'a rd \<Rightarrow> bool" where
  "answers r \<longleftrightarrow> (\<forall>s. fst (r s) \<noteq> Inl Diverged)"

lemma answers_return [answer_intros]: "answers (rreturn a)"
  by (simp add: answers_def)

lemma answers_fail [answer_intros]: "e \<noteq> Diverged \<Longrightarrow> answers (rfail e)"
  by (simp add: answers_def)

lemma answers_bind [answer_intros]: "answers m \<Longrightarrow> (\<And>a. answers (k a)) \<Longrightarrow> answers (rbind m k)"
  unfolding answers_def
proof
  fix s
  assume m: "\<forall>s. fst (m s) \<noteq> Inl Diverged" and k: "\<And>a. \<forall>s. fst (k a s) \<noteq> Inl Diverged"
  show "fst (rbind m k s) \<noteq> Inl Diverged"
  proof (cases rule: rbind_cases [of m s k])
    case (err e s')
    then show ?thesis using m [rule_format, of s] by simp
  next
    case (ok a s')
    then show ?thesis using k by simp
  qed
qed

lemma answers_if [answer_intros]: "answers a \<Longrightarrow> answers b \<Longrightarrow> answers (if c then a else b)"
  by simp

section \<open>Readers that do not look ahead\<close>

text \<open>
  A reader is \<open>online\<close> if more input at the end of a stream makes no difference to it, unless it has
  run out of input: then it has taken everything and reports one of the two errors for that.
\<close>

named_theorems online_intros \<open>introduction rules for \<open>online\<close>\<close>

definition starved :: "go_error + 'a \<Rightarrow> bool" where
  "starved x \<longleftrightarrow> x = Inl EOF \<or> x = Inl UnexpectedEOF"

definition online :: "'a rd \<Rightarrow> bool" where
  "online r \<longleftrightarrow> (\<forall>s q. r (s @ q) = (fst (r s), snd (r s) @ q) \<or> (starved (fst (r s)) \<and> snd (r s) = []))"

lemma starved_simps [simp]: "\<not> starved (Inr a)" "starved (Inl e) \<longleftrightarrow> e = EOF \<or> e = UnexpectedEOF"
  by (simp_all add: starved_def)

lemma onlineD:
  "online r \<Longrightarrow> r s = (x, s') \<Longrightarrow> r (s @ q) = (x, s' @ q) \<or> (starved x \<and> s' = [])"
  unfolding online_def by (metis fst_conv snd_conv)

lemma online_const [online_intros]: "online (\<lambda>rest. (x, rest))"
  by (simp add: online_def)

lemma online_return [online_intros]: "online (rreturn a)"
  by (simp add: online_def)

lemma online_fail [online_intros]: "online (rfail e)"
  by (simp add: online_def)

lemma online_if [online_intros]: "online a \<Longrightarrow> online b \<Longrightarrow> online (if c then a else b)"
  by simp

lemma online_bind [online_intros]:
  assumes "online m" and "\<And>a. online (k a)"
  shows "online (rbind m k)"
  unfolding online_def
proof (intro allI)
  fix s q
  show "rbind m k (s @ q) = (fst (rbind m k s), snd (rbind m k s) @ q) \<or>
    (starved (fst (rbind m k s)) \<and> snd (rbind m k s) = [])"
  proof (cases rule: rbind_cases [of m s k])
    case (err e s')
    then show ?thesis using onlineD [OF assms(1) err(1), of q] by auto
  next
    case (ok a s')
    then have "m (s @ q) = (Inr a, s' @ q)" using onlineD [OF assms(1) ok(1), of q] by simp
    then show ?thesis
      using ok onlineD [OF assms(2), of a s' "fst (k a s')" "snd (k a s')" q] by auto
  qed
qed

text \<open>A proper prefix of what such a reader takes starves it.\<close>

lemma online_cut:
  assumes "online r" "r bs = (Inr a, [])" "strict_prefix p bs"
  shows "starved (fst (r p)) \<and> snd (r p) = []"
proof -
  obtain q where q: "bs = p @ q" "q \<noteq> []" using assms(3) by (auto simp: strict_prefix_def prefix_def)
  then show ?thesis
    using onlineD [OF assms(1), of p "fst (r p)" "snd (r p)" q] assms(2) by auto
qed

end
