(* ===== verification/TagSet.thy ===== *)
theory TagSet
  imports Errors "HOL-Library.Multiset"
begin

text \<open>
  The type \<open>tagSet\<close> of \<open>types.go\<close>: delivery tags with the operations of \<open>heap.Interface\<close>, which nothing in the
  package uses.  An index out of range is a panic.
\<close>

type_synonym tagSet = "u64 list"

definition tagSet_Len :: "tagSet \<Rightarrow> int" where
  "tagSet_Len set0 = int (length set0)"

definition inRange :: "tagSet \<Rightarrow> int \<Rightarrow> bool" where
  "inRange set0 i \<longleftrightarrow> 0 \<le> i \<and> i < tagSet_Len set0"

definition tagSet_Less :: "tagSet \<Rightarrow> int \<Rightarrow> int \<Rightarrow> go_error + bool" where
  "tagSet_Less set0 i j =
     (if inRange set0 i \<and> inRange set0 j then Inr (set0 ! nat i < set0 ! nat j) else Inl Panic)"

definition tagSet_Swap :: "tagSet \<Rightarrow> int \<Rightarrow> int \<Rightarrow> go_error + tagSet" where
  "tagSet_Swap set0 i j =
     (if inRange set0 i \<and> inRange set0 j
      then Inr (set0[nat i := set0 ! nat j, nat j := set0 ! nat i]) else Inl Panic)"

definition tagSet_Push :: "tagSet \<Rightarrow> u64 \<Rightarrow> tagSet" where
  "tagSet_Push set0 tag = set0 @ [tag]"

definition tagSet_Pop :: "tagSet \<Rightarrow> go_error + u64 \<times> tagSet" where
  "tagSet_Pop set0 = (if set0 = [] then Inl Panic else Inr (last set0, butlast set0))"

text \<open>The laws that \<open>container/heap\<close> relies on.\<close>

lemma tagSet_Swap_mset:
  assumes "tagSet_Swap xs i j = Inr ys"
  shows "mset ys = mset xs \<and> tagSet_Len ys = tagSet_Len xs \<and> tagSet_Swap ys i j = Inr xs"
proof -
  have r: "nat i < length xs" "nat j < length xs" "inRange xs i" "inRange xs j"
    and ys: "ys = xs[nat i := xs ! nat j, nat j := xs ! nat i]"
    using assms by (auto simp: tagSet_Swap_def inRange_def tagSet_Len_def split: if_splits)
  have "ys[nat i := ys ! nat j, nat j := ys ! nat i] = xs"
    using r(1,2) by (intro nth_equalityI) (auto simp: ys nth_list_update)
  then show ?thesis
    using r by (auto simp: ys mset_swap tagSet_Len_def tagSet_Swap_def inRange_def)
qed

lemma tagSet_Push_Pop: "tagSet_Pop (tagSet_Push xs tag) = Inr (tag, xs)"
  by (simp add: tagSet_Pop_def tagSet_Push_def)

lemma tagSet_Less_linear:
  "inRange xs i \<Longrightarrow> inRange xs j \<Longrightarrow>
     tagSet_Less xs i j = Inr True \<or> tagSet_Less xs j i = Inr True \<or> xs ! nat i = xs ! nat j"
  by (auto simp: tagSet_Less_def)

end
