(* ===== verification/Consumers.thy ===== *)
theory Consumers
  imports Errors
begin

text \<open>
  \<open>consumers.go\<close>: consumer tags; the \<open>buffer\<close> goroutine of one consumer as a step relation; and the
  map from consumer tags to buffers with \<open>add\<close>, \<open>cancel\<close>, \<open>close\<close> and \<open>send\<close>.  The deliveries are a
  type parameter, since this file never looks into one.
\<close>

section \<open>Consumer tags\<close>

text \<open>\<open>strconv.FormatUint(n, 10)\<close>.\<close>

fun formatNat :: "nat \<Rightarrow> gostring" where
  "formatNat n = (if n < 10 then [of_nat (48 + n)] else formatNat (n div 10) @ [of_nat (48 + n mod 10)])"

declare formatNat.simps [simp del]

definition formatUint :: "u64 \<Rightarrow> gostring" where
  "formatUint n = formatNat (unat n)"

definition consumerTagLengthMax :: nat where
  "consumerTagLengthMax = 0xFF"

text \<open>The counter \<open>consumerSeq\<close> is the state: it is passed in and returned.\<close>

definition commandNameBasedUniqueConsumerTag :: "gostring \<Rightarrow> u64 \<Rightarrow> gostring \<times> u64" where
  "commandNameBasedUniqueConsumerTag commandName consumerSeq =
    (let consumerSeq' = consumerSeq + 1;
         tagPrefix = ascii ''ctag-'';
         tagSuffix = ascii ''-'' @ formatUint consumerSeq';
         tagInfix = (if length tagPrefix + length commandName + length tagSuffix > consumerTagLengthMax
                     then ascii ''streadway/amqp'' else commandName)
     in (tagPrefix @ tagInfix @ tagSuffix, consumerSeq'))"

text \<open>\<open>args0\<close> is \<open>os.Args[0]\<close>.\<close>

definition uniqueConsumerTag :: "gostring \<Rightarrow> u64 \<Rightarrow> gostring \<times> u64" where
  "uniqueConsumerTag args0 = commandNameBasedUniqueConsumerTag args0"

lemma length_formatNat: "n < 10 ^ Suc k \<Longrightarrow> length (formatNat n) \<le> Suc k"
proof (induction k arbitrary: n)
  case 0
  then show ?case by (simp add: formatNat.simps)
next
  case (Suc k)
  have "n div 10 < 10 ^ Suc k" using Suc.prems by (simp add: less_mult_imp_div_less)
  then show ?case using Suc.IH [of "n div 10"] by (subst formatNat.simps) simp
qed

lemma length_formatUint: "length (formatUint n) \<le> 20"
proof -
  have "unat n < 2 ^ LENGTH(64)" by (rule unsigned_less)
  then have "unat n < 10 ^ Suc 19" by simp
  then show ?thesis unfolding formatUint_def by (drule_tac length_formatNat) simp
qed

text \<open>A parser for the decimal digits, to show that the formatted number determines the counter.\<close>

definition digitsValue :: "gostring \<Rightarrow> nat" where
  "digitsValue s = foldl (\<lambda>v d. 10 * v + (unat d - 48)) 0 s"

lemma digit_value: "k < 10 \<Longrightarrow> unat (of_nat (48 + k) :: u8) = 48 + k"
  unfolding unat_of_nat by simp

lemma digitsValue_formatNat [simp]: "digitsValue (formatNat n) = n"
proof (induction n rule: formatNat.induct)
  case (1 n)
  show ?case
  proof (cases "n < 10")
    case True
    then show ?thesis
      using digit_value [of n] by (subst formatNat.simps) (simp add: digitsValue_def)
  next
    case False
    then have "digitsValue (formatNat (n div 10)) = n div 10" using 1 by simp
    then show ?thesis
      using False digit_value [of "n mod 10"]
      by (subst formatNat.simps) (simp add: digitsValue_def)
  qed
qed

lemma digits_formatNat: "d \<in> set (formatNat n) \<Longrightarrow> 48 \<le> unat d \<and> unat d \<le> 57"
proof (induction n rule: formatNat.induct)
  case (1 n)
  then show ?case
    using digit_value [of n] digit_value [of "n mod 10"]
    by (subst (asm) formatNat.simps) (auto split: if_splits)
qed

lemma digitsValue_zeros: "digitsValue (replicate k 48 @ s) = digitsValue s"
proof -
  have "foldl (\<lambda>v d. 10 * v + (unat d - 48)) 0 (replicate k (48 :: u8)) = 0"
    by (induction k) simp_all
  then show ?thesis by (simp add: digitsValue_def)
qed

lemma formatUint_inj: "formatUint a = formatUint b \<longleftrightarrow> a = b"
  by (metis formatUint_def digitsValue_formatNat word_unat_eq_iff)

text \<open>The suffix after the last dash is the number, so equal tags come from equal counters.\<close>

lemma suffix_unique:
  assumes "p @ x # a = q @ x # b" "x \<notin> set a" "x \<notin> set b"
  shows "a = b"
proof -
  have "takeWhile (\<lambda>y. y \<noteq> x) (rev (p @ x # a)) = rev a" if "x \<notin> set a" for p a
    using that by (subst rev_append, simp, subst takeWhile_append2) auto
  from this [OF assms(2), of p] this [OF assms(3), of q] assms(1) show ?thesis by simp
qed

lemma dash_notin_formatUint: "(45 :: u8) \<notin> set (formatUint n)"
  using digits_formatNat [of 45] by (auto simp: formatUint_def)

section \<open>The buffer goroutine\<close>

text \<open>
  The goroutine waits in three places: at \<open>range in\<close> with an empty queue, at the \<open>select\<close> with a
  non-empty one, or it has returned.
\<close>

datatype (plugins only: code size) buffer_pc = RangeIn | SelectLoop | Returned

text \<open>
  \<open>in_closed\<close> and \<open>out_closed\<close> say whether the channels \<open>in\<close> and \<open>out\<close> have been closed, \<open>inflight\<close>
  whether the variable of this name still is \<open>in\<close>, not \<open>nil\<close>.
\<close>

record 'd buffer =
  pc :: buffer_pc
  queue :: "'d list"
  inflight :: bool
  in_closed :: bool
  out_closed :: bool

definition newBuffer :: "'d buffer" where
  "newBuffer = \<lparr> pc = RangeIn, queue = [], inflight = True, in_closed = False, out_closed = False \<rparr>"

text \<open>What a step does on the two channels.\<close>

datatype (plugins only: code size) 'd event = Received 'd | Sent 'd | Internal

definition enqueue :: "'d \<Rightarrow> 'd buffer \<Rightarrow> 'd buffer" where
  "enqueue d b = b\<lparr> queue := queue b @ [d], pc := SelectLoop \<rparr>"

definition returnBuffer :: "'d buffer \<Rightarrow> 'd buffer" where
  "returnBuffer b = b\<lparr> pc := Returned, out_closed := True \<rparr>"

text \<open>
  \<open>buffer_step closed b ev b'\<close>: one step of \<open>subs.buffer(in, out)\<close>, where \<open>closed\<close> says whether
  \<open>subs.closed\<close> has been closed.  A \<open>select\<close> with several cases ready takes any of them.
\<close>

inductive buffer_step :: "bool \<Rightarrow> 'd buffer \<Rightarrow> 'd event \<Rightarrow> 'd buffer \<Rightarrow> bool" where
  range_receive: "pc b = RangeIn \<Longrightarrow> \<not> in_closed b \<Longrightarrow>
    buffer_step closed b (Received d) (enqueue d b)"
| range_end: "pc b = RangeIn \<Longrightarrow> in_closed b \<Longrightarrow>
    buffer_step closed b Internal (returnBuffer b)"
| select_closed: "pc b = SelectLoop \<Longrightarrow> closed \<Longrightarrow>
    buffer_step closed b Internal (returnBuffer b)"
| select_receive: "pc b = SelectLoop \<Longrightarrow> inflight b \<Longrightarrow> \<not> in_closed b \<Longrightarrow>
    buffer_step closed b (Received d) (enqueue d b)"
| select_ended: "pc b = SelectLoop \<Longrightarrow> inflight b \<Longrightarrow> in_closed b \<Longrightarrow>
    buffer_step closed b Internal (b\<lparr> inflight := False \<rparr>)"
| select_send: "pc b = SelectLoop \<Longrightarrow> queue b = d # ds \<Longrightarrow>
    buffer_step closed b (Sent d) (b\<lparr> queue := ds, pc := (if ds = [] then RangeIn else SelectLoop) \<rparr>)"

inductive_cases buffer_step_cases: "buffer_step closed b ev b'"

inductive_simps buffer_step_Received [simp]: "buffer_step closed b (Received d) b'"

inductive_simps buffer_step_Sent [simp]: "buffer_step closed b (Sent d) b'"

inductive_simps buffer_step_Internal: "buffer_step closed b Internal b'"

definition buffer_inv :: "bool \<Rightarrow> 'd buffer \<Rightarrow> bool" where
  "buffer_inv closed b \<longleftrightarrow>
     (pc b = RangeIn \<longrightarrow> queue b = []) \<and> (pc b = SelectLoop \<longrightarrow> queue b \<noteq> []) \<and>
     (\<not> inflight b \<longrightarrow> in_closed b) \<and> (pc b = Returned \<longrightarrow> in_closed b \<or> closed) \<and>
     (pc b = Returned \<and> \<not> closed \<longrightarrow> queue b = []) \<and>
     (out_closed b \<longleftrightarrow> pc b = Returned)"

lemma buffer_inv_new [simp]: "buffer_inv closed newBuffer"
  by (simp add: buffer_inv_def newBuffer_def)

lemma buffer_inv_step: "buffer_step closed b ev b' \<Longrightarrow> buffer_inv closed b \<Longrightarrow> buffer_inv closed b'"
  by (erule buffer_step_cases) (auto simp: buffer_inv_def enqueue_def returnBuffer_def)

lemma buffer_step_in_closed: "buffer_step closed b ev b' \<Longrightarrow> in_closed b' = in_closed b"
  by (erule buffer_step_cases) (auto simp: enqueue_def returnBuffer_def)

text \<open>A run of the goroutine, with what it received and sent.\<close>

inductive buffer_run :: "bool \<Rightarrow> 'd buffer \<Rightarrow> 'd event list \<Rightarrow> 'd buffer \<Rightarrow> bool" where
  run_nil: "buffer_run closed b [] b"
| run_step: "buffer_step closed b ev b' \<Longrightarrow> buffer_run closed b' evs b'' \<Longrightarrow>
    buffer_run closed b (ev # evs) b''"

fun receivedOf :: "'d event list \<Rightarrow> 'd list" where
  "receivedOf [] = []"
| "receivedOf (Received d # evs) = d # receivedOf evs"
| "receivedOf (_ # evs) = receivedOf evs"

fun sentOf :: "'d event list \<Rightarrow> 'd list" where
  "sentOf [] = []"
| "sentOf (Sent d # evs) = d # sentOf evs"
| "sentOf (_ # evs) = sentOf evs"

lemma buffer_step_fifo:
  "buffer_step closed b ev b' \<Longrightarrow> sentOf [ev] @ queue b' = queue b @ receivedOf [ev]"
  by (erule buffer_step_cases) (auto simp: enqueue_def returnBuffer_def)

lemma sentOf_Cons: "sentOf (ev # evs) = sentOf [ev] @ sentOf evs"
  and receivedOf_Cons: "receivedOf (ev # evs) = receivedOf [ev] @ receivedOf evs"
  by (cases ev; simp)+

lemma buffer_run_fifo:
  "buffer_run closed b evs b' \<Longrightarrow> sentOf evs @ queue b' = queue b @ receivedOf evs"
proof (induction rule: buffer_run.induct)
  case (run_step closed b ev b' evs b'')
  then show ?case
    using buffer_step_fifo [OF run_step.hyps(1)]
    by (metis append.assoc sentOf_Cons receivedOf_Cons)
qed simp

lemma buffer_run_inv: "buffer_run closed b evs b' \<Longrightarrow> buffer_inv closed b \<Longrightarrow> buffer_inv closed b'"
  by (induction rule: buffer_run.induct) (auto intro: buffer_inv_step)

lemma buffer_run_in_closed: "buffer_run closed b evs b' \<Longrightarrow> in_closed b' = in_closed b"
  by (induction rule: buffer_run.induct) (auto dest: buffer_step_in_closed)

text \<open>
  A buffer that returns although \<open>subs.closed\<close> is open has handed on all it held: only a
  \<open>close\<close> drops deliveries.
\<close>

lemma queue_Returned:
  "buffer_step False b ev b' \<Longrightarrow> buffer_inv False b \<Longrightarrow> pc b' = Returned \<Longrightarrow> queue b' = []"
  by (erule buffer_step_cases) (auto simp: buffer_inv_def enqueue_def returnBuffer_def split: if_splits)

lemma buffer_run_drained:
  assumes "buffer_run False b evs b'" "buffer_inv False b" "pc b = Returned \<longrightarrow> queue b = []"
    and "pc b' = Returned"
  shows "queue b' = []"
proof -
  have "closed = False \<Longrightarrow> buffer_inv closed b \<Longrightarrow> (pc b = Returned \<longrightarrow> queue b = []) \<Longrightarrow>
      pc b' = Returned \<Longrightarrow> queue b' = []" if "buffer_run closed b evs b'" for closed b b'
    using that
    by (induction rule: buffer_run.induct) (auto dest: queue_Returned buffer_inv_step)
  from this [OF assms(1) refl assms(2,3,4)] show ?thesis .
qed

text \<open>Once \<open>in\<close> is closed, every step brings the goroutine nearer to its return.\<close>

definition buffer_measure :: "'d buffer \<Rightarrow> nat" where
  "buffer_measure b = length (queue b) + (if inflight b then 1 else 0) + (if pc b = Returned then 0 else 1)"

lemma buffer_step_closed_decreases:
  "buffer_step closed b ev b' \<Longrightarrow> in_closed b \<Longrightarrow> buffer_measure b' < buffer_measure b"
  by (erule buffer_step_cases) (auto simp: buffer_measure_def enqueue_def returnBuffer_def)

lemma buffer_run_closed_bounded:
  "buffer_run closed b evs b' \<Longrightarrow> in_closed b \<Longrightarrow>
     length evs + buffer_measure b' \<le> buffer_measure b"
proof (induction rule: buffer_run.induct)
  case (run_step closed b ev b' evs b'')
  then show ?case
    using buffer_step_closed_decreases [OF run_step.hyps(1)] buffer_step_in_closed [OF run_step.hyps(1)]
    by fastforce
qed simp

lemma buffer_run_drains:
  assumes "buffer_inv closed b" "in_closed b" "pc b \<noteq> Returned"
  shows "\<exists>evs b'. buffer_run closed b evs b' \<and> pc b' = Returned \<and> sentOf evs = queue b"
  using assms
proof (induction "length (queue b)" arbitrary: b)
  case 0
  then have "pc b = RangeIn" by (cases "pc b") (auto simp: buffer_inv_def)
  then have "buffer_run closed b [Internal] (returnBuffer b)"
    using 0 by (intro run_step [OF range_end] run_nil)
  then show ?case using 0 by (fastforce simp: returnBuffer_def)
next
  case (Suc n)
  then obtain d ds where q: "queue b = d # ds" by (cases "queue b") auto
  then have "pc b = SelectLoop" using Suc by (cases "pc b") (auto simp: buffer_inv_def)
  then have st: "buffer_step closed b (Sent d)
      (b\<lparr> queue := ds, pc := (if ds = [] then RangeIn else SelectLoop) \<rparr>)" (is "buffer_step _ _ _ ?b")
    using q by (rule select_send)
  obtain evs b' where "buffer_run closed ?b evs b'" "pc b' = Returned" "sentOf evs = ds"
    using Suc.hyps(1) [of ?b] Suc.hyps(2) Suc.prems buffer_inv_step [OF st] q
    by (cases "ds = []") auto
  with st show ?case using q by (intro exI [of _ "Sent d # evs"] exI [of _ b']) (auto intro: run_step)
qed

section \<open>The consumers\<close>

text \<open>
  \<open>chans\<close> maps a tag to its buffer, an index into \<open>buffers\<close>: the goroutines started so far, in order.
  The \<open>WaitGroup\<close> counts those that have not returned.  The operations hold the mutex throughout.
\<close>

record 'd consumers =
  closed :: bool
  chans :: "gostring \<rightharpoonup> nat"
  buffers :: "'d buffer list"

definition makeConsumers :: "'d consumers" where
  "makeConsumers = \<lparr> closed = False, chans = Map.empty, buffers = [] \<rparr>"

definition closeIn :: "nat \<Rightarrow> 'd consumers \<Rightarrow> go_error + 'd consumers" where
  "closeIn i c =
     (if in_closed (buffers c ! i) then Inl Panic
      else Inr (c\<lparr> buffers := (buffers c)[i := (buffers c ! i)\<lparr> in_closed := True \<rparr>] \<rparr>))"

definition startBuffer :: "gostring \<Rightarrow> 'd consumers \<Rightarrow> 'd consumers" where
  "startBuffer tag c =
     c\<lparr> chans := (chans c)(tag \<mapsto> length (buffers c)), buffers := buffers c @ [newBuffer] \<rparr>"

definition add :: "gostring \<Rightarrow> 'd consumers \<Rightarrow> go_error + 'd consumers" where
  "add tag c =
     (case chans c tag of
        None \<Rightarrow> Inr (startBuffer tag c)
      | Some prev \<Rightarrow> map_sum id (startBuffer tag) (closeIn prev c))"

definition cancel :: "gostring \<Rightarrow> 'd consumers \<Rightarrow> go_error + bool \<times> 'd consumers" where
  "cancel tag c =
     (case chans c tag of
        None \<Rightarrow> Inr (False, c)
      | Some ch \<Rightarrow> map_sum id (Pair True) (closeIn ch (c\<lparr> chans := (chans c)(tag := None) \<rparr>)))"

text \<open>
  \<open>close\<close> up to \<open>subs.Wait()\<close>; \<open>waitDone\<close> is what that statement waits for.  \<open>tags\<close> is the order in
  which the loop over the map meets its keys.
\<close>

fun closeTags :: "gostring list \<Rightarrow> 'd consumers \<Rightarrow> go_error + 'd consumers" where
  "closeTags [] c = Inr c"
| "closeTags (tag # tags) c =
     (case cancel tag c of Inl e \<Rightarrow> Inl e | Inr (_, c') \<Rightarrow> closeTags tags c')"

definition closeConsumers :: "gostring list \<Rightarrow> 'd consumers \<Rightarrow> go_error + 'd consumers" where
  "closeConsumers tags c =
     (if closed c then Inl Panic else closeTags tags (c\<lparr> closed := True \<rparr>))"

definition waitDone :: "'d consumers \<Rightarrow> bool" where
  "waitDone c \<longleftrightarrow> list_all (\<lambda>b. pc b = Returned) (buffers c)"

text \<open>
  \<open>buffer <- msg\<close> on the unbuffered channel \<open>in\<close>: it panics on a closed channel, blocks while the
  goroutine does not receive, and otherwise is one step of that goroutine.
\<close>

datatype (plugins only: code size) 'c sending = SendPanics | SendBlocks | Found bool 'c

definition accepts :: "'d buffer \<Rightarrow> bool" where
  "accepts b \<longleftrightarrow> pc b = RangeIn \<or> pc b = SelectLoop \<and> inflight b"

definition sendTo :: "gostring \<Rightarrow> 'd \<Rightarrow> 'd consumers \<Rightarrow> 'd consumers sending" where
  "sendTo tag msg c =
     (case chans c tag of
        None \<Rightarrow> Found False c
      | Some i \<Rightarrow>
          (let b = buffers c ! i in
           if in_closed b then SendPanics
           else if accepts b then Found True (c\<lparr> buffers := (buffers c)[i := enqueue msg b] \<rparr>)
           else SendBlocks))"

text \<open>A step of one of the goroutines by itself: anything but a receive, which is a \<open>sendTo\<close>.\<close>

inductive consumers_step :: "'d consumers \<Rightarrow> 'd event \<Rightarrow> 'd consumers \<Rightarrow> bool" where
  "i < length (buffers c) \<Longrightarrow> buffer_step (closed c) (buffers c ! i) ev b \<Longrightarrow>
   receivedOf [ev] = [] \<Longrightarrow> consumers_step c ev (c\<lparr> buffers := (buffers c)[i := b] \<rparr>)"

inductive_cases consumers_step_cases: "consumers_step c ev c'"

text \<open>
  Every tag has an open buffer of its own, the buffers without a tag have been told to end, and all
  keep their invariant.
\<close>

definition consumers_inv :: "'d consumers \<Rightarrow> bool" where
  "consumers_inv c \<longleftrightarrow>
     list_all (buffer_inv (closed c)) (buffers c) \<and>
     inj_on (chans c) (dom (chans c)) \<and>
     (\<forall>tag i. chans c tag = Some i \<longrightarrow> i < length (buffers c) \<and> \<not> in_closed (buffers c ! i)) \<and>
     (\<forall>i < length (buffers c). i \<in> ran (chans c) \<or> in_closed (buffers c ! i))"

lemma consumers_inv_make [simp]: "consumers_inv makeConsumers"
  by (simp add: consumers_inv_def makeConsumers_def)

lemma consumers_invD:
  assumes "consumers_inv c" "chans c tag = Some i"
  shows "i < length (buffers c)" "\<not> in_closed (buffers c ! i)" "buffer_inv (closed c) (buffers c ! i)"
    "chans c tag' = Some i \<Longrightarrow> tag' = tag"
  using assms by (auto simp: consumers_inv_def list_all_length inj_on_def dom_def)

lemma consumers_inv_update:
  assumes "consumers_inv c" "i < length (buffers c)" "buffer_inv (closed c) b"
    and "in_closed b = in_closed (buffers c ! i)"
  shows "consumers_inv (c\<lparr> buffers := (buffers c)[i := b] \<rparr>)"
  using assms by (auto simp: consumers_inv_def list_all_length nth_list_update)

lemma consumers_inv_start:
  assumes "consumers_inv c" "chans c tag = None"
  shows "consumers_inv (startBuffer tag c)"
proof -
  let ?m = "(chans c)(tag \<mapsto> length (buffers c))"
  have old: "i < length (buffers c)" "\<not> in_closed (buffers c ! i)" if "chans c t = Some i" for t i
    using that assms by (auto simp: consumers_inv_def)
  have "inj_on (chans c) (dom (chans c))" using assms by (simp add: consumers_inv_def)
  then have "inj_on ?m (dom ?m)"
    by (intro inj_onI) (auto split: if_splits dest: old(1) inj_onD)
  moreover have "i < Suc (length (buffers c)) \<and> \<not> in_closed ((buffers c @ [newBuffer]) ! i)"
    if "?m t = Some i" for t i
    using that by (auto simp: nth_append newBuffer_def split: if_splits dest: old intro: less_SucI)
  moreover have "i \<in> ran ?m \<or> in_closed ((buffers c @ [newBuffer]) ! i)"
    if "i < Suc (length (buffers c))" for i
    using that assms by (auto simp: consumers_inv_def nth_append less_Suc_eq)
  ultimately show ?thesis
    using assms by (simp add: consumers_inv_def startBuffer_def)
qed

lemma cancel_inv:
  assumes "consumers_inv c"
  shows "\<exists>c'. cancel tag c = Inr (chans c tag \<noteq> None, c') \<and> consumers_inv c' \<and>
           chans c' = (chans c)(tag := None) \<and> closed c' = closed c"
proof (cases "chans c tag")
  case None
  then show ?thesis using assms by (auto simp: cancel_def fun_upd_idem)
next
  case (Some i)
  note i = consumers_invD [OF assms Some]
  let ?m = "(chans c)(tag := None)" and ?b = "(buffers c ! i)\<lparr> in_closed := True \<rparr>"
  let ?c = "c\<lparr> chans := ?m, buffers := (buffers c)[i := ?b] \<rparr>"
  have "inj_on ?m (dom ?m)"
    using assms by (auto simp: consumers_inv_def inj_on_def dom_def)
  moreover have "j < length (buffers c) \<and> \<not> in_closed ((buffers c)[i := ?b] ! j)"
    if "?m t = Some j" for t j
  proof -
    have t: "chans c t = Some j" "t \<noteq> tag" using that by (auto split: if_splits)
    then have "j \<noteq> i" using consumers_invD(4) [OF assms Some] by auto
    then show ?thesis using consumers_invD(1,2) [OF assms t(1)] by simp
  qed
  moreover have "j \<in> ran ?m \<or> in_closed ((buffers c)[i := ?b] ! j)" if "j < length (buffers c)" for j
  proof (cases "j = i")
    case True
    then show ?thesis using that by simp
  next
    case False
    then have "j \<in> ran (chans c) \<Longrightarrow> j \<in> ran ?m"
      using Some by (auto simp: ran_def) (metis option.inject)
    then show ?thesis using that assms False by (auto simp: consumers_inv_def)
  qed
  moreover have "list_all (buffer_inv (closed c)) ((buffers c)[i := ?b])"
    using assms i by (auto simp: consumers_inv_def list_all_length nth_list_update buffer_inv_def)
  ultimately have "consumers_inv ?c" by (simp add: consumers_inv_def)
  moreover have "cancel tag c = Inr (True, ?c)" using Some i(2) by (simp add: cancel_def closeIn_def)
  ultimately show ?thesis using Some by simp
qed

text \<open>Adding a tag that is taken is cancelling it first.\<close>

lemma add_cancel: "add tag c = map_sum id (\<lambda>(_, c'). startBuffer tag c') (cancel tag c)"
  by (auto simp: add_def cancel_def closeIn_def startBuffer_def split: option.split)

lemma add_inv:
  assumes "consumers_inv c"
  shows "\<exists>c'. add tag c = Inr c' \<and> consumers_inv c' \<and> (\<exists>i. chans c' = (chans c)(tag \<mapsto> i))"
  using cancel_inv [OF assms, of tag]
  by (auto simp: add_cancel intro!: consumers_inv_start) (auto simp: startBuffer_def)

lemma add_closed: "add tag c = Inr c' \<Longrightarrow> closed c' = closed c"
  by (auto simp: add_def closeIn_def startBuffer_def split: option.splits if_splits)

lemma closeTags_inv:
  "consumers_inv c \<Longrightarrow>
     \<exists>c'. closeTags tags c = Inr c' \<and> consumers_inv c' \<and> chans c' = (chans c) |` (- set tags)"
proof (induction tags arbitrary: c)
  case (Cons tag tags)
  from cancel_inv [OF Cons.prems, of tag] obtain c1 where
    c1: "cancel tag c = Inr (chans c tag \<noteq> None, c1)" "consumers_inv c1" "chans c1 = (chans c)(tag := None)"
    by blast
  from Cons.IH [OF c1(2)] obtain c' where
    c': "closeTags tags c1 = Inr c'" "consumers_inv c'" "chans c' = chans c1 |` (- set tags)"
    by blast
  have "chans c' = chans c |` (- set (tag # tags))"
    unfolding c'(3) c1(3) by (rule ext) (simp add: restrict_map_def)
  with c1(1) c' show ?case by simp
qed (simp add: restrict_map_def)

lemma consumers_inv_closed: "consumers_inv c \<Longrightarrow> consumers_inv (c\<lparr> closed := True \<rparr>)"
  by (auto simp: consumers_inv_def list_all_length buffer_inv_def)

lemma closeConsumers_inv:
  assumes "consumers_inv c" "\<not> closed c"
  shows "\<exists>c'. closeConsumers tags c = Inr c' \<and> consumers_inv c' \<and> chans c' = (chans c) |` (- set tags)"
  using closeTags_inv [OF consumers_inv_closed [OF assms(1)], of tags] assms(2)
  by (simp add: closeConsumers_def)

text \<open>While \<open>close\<close> has not been called, \<open>sendTo\<close> neither panics nor blocks.\<close>

lemma accepts_open:
  "buffer_inv False b \<Longrightarrow> \<not> in_closed b \<Longrightarrow> accepts b"
  by (cases "pc b") (auto simp: buffer_inv_def accepts_def)

lemma sendTo_accepted:
  assumes "consumers_inv c" "\<not> closed c" "chans c tag = Some i"
  shows "sendTo tag msg c = Found True (c\<lparr> buffers := (buffers c)[i := enqueue msg (buffers c ! i)] \<rparr>)"
proof -
  note i = consumers_invD [OF assms(1,3)]
  have "accepts (buffers c ! i)" using i(2,3) assms(2) by (intro accepts_open) simp_all
  then show ?thesis using i(2) assms(3) by (simp add: sendTo_def)
qed

lemma buffer_inv_enqueue:
  "buffer_inv cl b \<Longrightarrow> accepts b \<Longrightarrow> buffer_inv cl (enqueue d b)"
  by (auto simp: buffer_inv_def enqueue_def accepts_def)

lemma sendTo_inv:
  assumes "consumers_inv c" "sendTo tag msg c = Found b c'"
  shows "consumers_inv c' \<and> chans c' = chans c \<and> closed c' = closed c"
proof (cases "chans c tag")
  case None
  then show ?thesis using assms by (simp add: sendTo_def)
next
  case (Some i)
  note i = consumers_invD [OF assms(1) Some]
  have acc: "accepts (buffers c ! i)"
    and c': "c' = c\<lparr> buffers := (buffers c)[i := enqueue msg (buffers c ! i)] \<rparr>"
    using assms(2) Some i(2) by (auto simp: sendTo_def Let_def split: if_splits)
  have "buffer_inv (closed c) (enqueue msg (buffers c ! i))"
    using i(3) acc by (rule buffer_inv_enqueue)
  moreover have "in_closed (enqueue msg (buffers c ! i)) = in_closed (buffers c ! i)"
    by (simp add: enqueue_def)
  ultimately show ?thesis
    unfolding c' using i(1) assms(1) by (auto intro!: consumers_inv_update)
qed

lemma consumers_inv_step:
  assumes "consumers_step c ev c'" "consumers_inv c"
  shows "consumers_inv c' \<and> chans c' = chans c"
  using assms(1)
proof (cases rule: consumers_step.cases)
  case (1 i b)
  have "buffer_inv (closed c) (buffers c ! i)"
    using 1 assms(2) by (simp add: consumers_inv_def list_all_length)
  then have "buffer_inv (closed c) b" by (rule buffer_inv_step [OF 1(3)])
  moreover note buffer_step_in_closed [OF 1(3)]
  ultimately show ?thesis
    unfolding 1 using consumers_inv_update [OF assms(2) 1(2)] by simp
qed

text \<open>After \<open>close\<close> every goroutine returns, whatever the order of the steps: \<open>subs.Wait()\<close> ends.\<close>

definition consumers_measure :: "'d consumers \<Rightarrow> nat" where
  "consumers_measure c = sum_list (map buffer_measure (buffers c))"

definition all_closing :: "'d consumers \<Rightarrow> bool" where
  "all_closing c \<longleftrightarrow> list_all in_closed (buffers c)"

lemma sum_list_update_less:
  "i < length bs \<Longrightarrow> (f b :: nat) < f (bs ! i) \<Longrightarrow> sum_list (map f (bs[i := b])) < sum_list (map f bs)"
proof (induction bs arbitrary: i)
  case (Cons x bs)
  then show ?case by (cases i) auto
qed simp

lemma cancel_closed: "cancel tag c = Inr (b, c') \<Longrightarrow> closed c' = closed c"
  by (auto simp: cancel_def closeIn_def split: option.splits if_splits)

lemma closeTags_closed: "closeTags tags c = Inr c' \<Longrightarrow> closed c' = closed c"
  by (induction tags arbitrary: c) (auto dest: cancel_closed split: sum.splits)

lemma all_closing_close:
  assumes "consumers_inv c" "\<not> closed c" "set tags = dom (chans c)"
  obtains c' where "closeConsumers tags c = Inr c'" "consumers_inv c'" "all_closing c'" "closed c'" "chans c' = Map.empty"
proof -
  from closeConsumers_inv [OF assms(1,2), of tags] obtain c' where
    c': "closeConsumers tags c = Inr c'" "consumers_inv c'" "chans c' = (chans c) |` (- set tags)" by blast
  then have none: "chans c' = Map.empty" using assms(3) by (auto simp: restrict_map_def fun_eq_iff domIff)
  then have "all_closing c'" using c'(2) by (auto simp: consumers_inv_def all_closing_def list_all_length)
  moreover have "closed c'" using c'(1) assms(2) closeTags_closed by (fastforce simp: closeConsumers_def)
  ultimately show thesis using c' none by (intro that)
qed

lemma consumers_step_decreases:
  assumes "consumers_step c ev c'" "all_closing c"
  shows "consumers_measure c' < consumers_measure c \<and> all_closing c'"
  using assms(1)
proof (cases rule: consumers_step.cases)
  case (1 i b)
  have "in_closed (buffers c ! i)" using 1 assms(2) by (simp add: all_closing_def list_all_length)
  then show ?thesis
    using 1 assms(2) buffer_step_closed_decreases [OF 1(3)] buffer_step_in_closed [OF 1(3)]
    by (auto simp: consumers_measure_def all_closing_def list_all_length nth_list_update
        intro: sum_list_update_less)
qed

text \<open>
  Once \<open>closed\<close> is closed, every goroutine that has not returned can return by itself, whether or not anyone
  receives its deliveries.
\<close>

lemma closing_internal:
  assumes "consumers_inv c" "all_closing c" "closed c" "\<not> waitDone c"
  shows "\<exists>c'. consumers_step c Internal c'"
proof -
  from assms(4) obtain i where i: "i < length (buffers c)" "pc (buffers c ! i) \<noteq> Returned"
    by (auto simp: waitDone_def list_all_length)
  have "in_closed (buffers c ! i)" using assms(2) i(1) by (simp add: all_closing_def list_all_length)
  then have "buffer_step (closed c) (buffers c ! i) Internal (returnBuffer (buffers c ! i))"
    using i(2) assms(3) by (cases "pc (buffers c ! i)") (auto intro: range_end select_closed)
  from consumers_step.intros [OF i(1) this] show ?thesis by auto
qed

lemma closing_steps:
  "(\<lambda>a b. \<exists>ev. consumers_step a ev b)\<^sup>*\<^sup>* c c' \<Longrightarrow> consumers_inv c \<Longrightarrow> all_closing c \<Longrightarrow> closed c \<Longrightarrow>
     consumers_inv c' \<and> all_closing c' \<and> closed c'"
proof (induction rule: rtranclp_induct)
  case (step c1 c2)
  then obtain ev where ev: "consumers_step c1 ev c2" by blast
  then have "closed c2 = closed c1" by (cases rule: consumers_step.cases) simp
  then show ?case using step consumers_inv_step [OF ev] consumers_step_decreases [OF ev] by blast
qed simp

text \<open>So \<open>subs.Wait()\<close> returns, by steps that need no receiver.\<close>

lemma closing_drains:
  "consumers_inv c \<Longrightarrow> all_closing c \<Longrightarrow> closed c \<Longrightarrow>
     \<exists>c'. (\<lambda>a b. consumers_step a Internal b)\<^sup>*\<^sup>* c c' \<and> waitDone c'"
proof (induction "consumers_measure c" arbitrary: c rule: less_induct)
  case less
  show ?case
  proof (cases "waitDone c")
    case False
    then obtain c1 where c1: "consumers_step c Internal c1" using closing_internal less.prems by blast
    then have "closed c1 = closed c" by (cases rule: consumers_step.cases) simp
    then show ?thesis
      using less.hyps [of c1] consumers_step_decreases [OF c1 less.prems(2)] consumers_inv_step [OF c1 less.prems(1)]
        less.prems(3) c1 by (blast intro: converse_rtranclp_into_rtranclp)
  qed blast
qed

section \<open>The states of the consumers\<close>

text \<open>
  The states reached while \<open>close\<close> has not been called, as in this program, which never calls it.
\<close>

inductive consumers_reach :: "'d consumers \<Rightarrow> bool" where
  reach_make: "consumers_reach makeConsumers"
| reach_add: "consumers_reach c \<Longrightarrow> add tag c = Inr c' \<Longrightarrow> consumers_reach c'"
| reach_cancel: "consumers_reach c \<Longrightarrow> cancel tag c = Inr (b, c') \<Longrightarrow> consumers_reach c'"
| reach_send: "consumers_reach c \<Longrightarrow> sendTo tag msg c = Found b c' \<Longrightarrow> consumers_reach c'"
| reach_step: "consumers_reach c \<Longrightarrow> consumers_step c ev c' \<Longrightarrow> consumers_reach c'"

lemma consumers_reach_inv: "consumers_reach c \<Longrightarrow> consumers_inv c \<and> \<not> closed c"
proof (induction rule: consumers_reach.induct)
  case reach_make
  then show ?case by (simp add: makeConsumers_def consumers_inv_def)
next
  case (reach_add c tag c')
  then show ?case using add_inv [of c tag] add_closed [of tag c c'] by auto
next
  case (reach_cancel c tag b c')
  then show ?case using cancel_inv [of c tag] by auto
next
  case (reach_send c tag msg b c')
  then show ?case using sendTo_inv [of c tag msg b c'] by simp
next
  case (reach_step c ev c')
  have "closed c' = closed c" using reach_step.hyps(2) by (cases rule: consumers_step.cases) simp
  then show ?case using reach_step.IH consumers_inv_step [OF reach_step.hyps(2)] by simp
qed

text \<open>
  Generated consumer tags fit a short string, whatever the name of the command, and tags made from
  different counter values differ.
\<close>

lemma consumer_tags_unique:
  "length (fst (uniqueConsumerTag args0 n)) \<le> consumerTagLengthMax \<and>
   snd (uniqueConsumerTag args0 n) = n + 1 \<and>
   (fst (uniqueConsumerTag args0 n) = fst (uniqueConsumerTag args1 m) \<longrightarrow> n = m)"
proof (intro conjI impI)
  show "length (fst (uniqueConsumerTag args0 n)) \<le> consumerTagLengthMax"
    using length_formatUint [of "n + 1"]
    by (auto simp: uniqueConsumerTag_def commandNameBasedUniqueConsumerTag_def Let_def consumerTagLengthMax_def)
  show "snd (uniqueConsumerTag args0 n) = n + 1"
    by (simp add: uniqueConsumerTag_def commandNameBasedUniqueConsumerTag_def Let_def)
  have tag: "\<exists>p. fst (uniqueConsumerTag a k) = p @ 45 # formatUint (k + 1)" for a k
    by (simp add: uniqueConsumerTag_def commandNameBasedUniqueConsumerTag_def Let_def)
  assume "fst (uniqueConsumerTag args0 n) = fst (uniqueConsumerTag args1 m)"
  then obtain p q where "p @ 45 # formatUint (n + 1) = q @ 45 # formatUint (m + 1)"
    using tag [of args0 n] tag [of args1 m] by metis
  then have "formatUint (n + 1) = formatUint (m + 1)"
    by (rule suffix_unique) (rule dash_notin_formatUint)+
  then show "n = m" by (simp add: formatUint_inj)
qed

end
