(* ===== verification/Employee.thy ===== *)
theory Employee
  imports Consumers
begin

text \<open>
  \<open>database/gorm/main.go\<close> and the \<open>Employee\<close> struct of \<open>model.go\<close>: the program that opens a database and
  inserts the next employee.  The operations of the object-relational mapper and of \<open>database/sql\<close> are
  parameters, the state of the database being a type variable.
\<close>

text \<open>The struct without the embedded \<open>gorm.Model\<close>, which \<open>genEmployee\<close> leaves at its zero value.\<close>

record employee =
  em_Name :: gostring
  em_Email :: gostring
  em_Number :: u64

text \<open>\<open>fmt.Sprintf("%03d", n)\<close>: at least three digits.\<close>

definition format03d :: "u64 \<Rightarrow> gostring" where
  "format03d n = (let s = formatUint n in replicate (3 - length s) 48 @ s)"

text \<open>
  The format of the e-mail address has no verb, so \<open>Sprintf\<close> appends its argument as an extra one.
\<close>

definition genEmployee :: "u64 \<Rightarrow> employee" where
  "genEmployee lastNumber =
     \<lparr> em_Name = ascii ''emp'' @ format03d (lastNumber + 1),
       em_Email = ascii ''emp03d@example.org'' @ ascii ''%!(EXTRA uint='' @ formatUint lastNumber @ ascii '')'',
       em_Number = lastNumber + 1 \<rparr>"

lemma format03d_inj: "format03d a = format03d b \<longleftrightarrow> a = b"
proof
  assume "format03d a = format03d b"
  then have "digitsValue (format03d a) = digitsValue (format03d b)" by simp
  then show "a = b"
    by (simp add: format03d_def Let_def digitsValue_zeros formatUint_def word_unat_eq_iff)
qed simp

text \<open>
  Consecutive employees get different names, and different e-mail addresses although the format of the
  address has lost its verb: the number survives as the extra argument that \<open>Sprintf\<close> reports.
\<close>

lemma employees_distinct:
  "(em_Name (genEmployee n) = em_Name (genEmployee k) \<longleftrightarrow> n = k) \<and>
   (em_Email (genEmployee n) = em_Email (genEmployee k) \<longleftrightarrow> n = k) \<and>
   prefix (ascii ''emp03d@example.org%!(EXTRA uint='') (em_Email (genEmployee n))"
  by (simp add: genEmployee_def format03d_inj formatUint_inj)

section \<open>The program around it\<close>

text \<open>
  \<open>gormOpen\<close> is \<open>gorm.Open\<close> on the sqlite dialector.  \<open>Errorf\<close> is the error that \<open>fmt.Errorf\<close> makes of it, with the
  text in front; \<open>Fatal\<close> an end by \<open>log.Fatal\<close>.
\<close>

datatype 'e db_error = Errorf gostring 'e | SqlError 'e

definition openDB :: "(gostring \<Rightarrow> 'e + 'd) \<Rightarrow> gostring \<Rightarrow> 'e db_error + 'd" where
  "openDB gormOpen dsn =
     (case gormOpen dsn of
        Inl err \<Rightarrow> Inl (Errorf (ascii ''failed to open database: '') err)
      | Inr database \<Rightarrow> Inr database)"

text \<open>The three settings, in nanoseconds the last.\<close>

datatype (plugins only: code size) pool_setting =
    SetMaxIdleConns int | SetMaxOpenConns int | SetConnMaxLifetime int

definition configConn :: "('q \<Rightarrow> pool_setting \<Rightarrow> 'q) \<Rightarrow> 'q \<Rightarrow> 'q" where
  "configConn apply_setting db =
     apply_setting (apply_setting (apply_setting db (SetMaxIdleConns 2)) (SetMaxOpenConns 10))
       (SetConnMaxLifetime (600 * 10 ^ 9))"

fun merge :: "'d \<Rightarrow> ('d \<Rightarrow> 'd) list \<Rightarrow> 'd" where
  "merge db [] = db"
| "merge db (f # inits) = merge (f db) inits"

text \<open>
  \<open>insertEmployee\<close>, without its prints: \<open>lastEmployee\<close> is \<open>db.Last\<close>, whose error is dropped and which leaves the
  zero employee if there is none; \<open>create\<close> is \<open>db.Create\<close>.
\<close>

definition insertEmployee :: "('d \<Rightarrow> employee option) \<Rightarrow> ('d \<Rightarrow> employee \<Rightarrow> 'd \<times> 'e option) \<Rightarrow> 'd \<Rightarrow> 'd \<times> 'e option" where
  "insertEmployee lastEmployee create db =
     (let empLast = (case lastEmployee db of Some emp \<Rightarrow> emp | None \<Rightarrow> \<lparr> em_Name = [], em_Email = [], em_Number = 0 \<rparr>)
      in create db (genEmployee (em_Number empLast)))"

text \<open>
  \<open>InitEmployee\<close>, on the \<open>AutoMigrate\<close> of the mapper, and the hooks of \<open>Employee\<close>, which print and return no error.
\<close>

definition InitEmployee :: "('d \<Rightarrow> 'd) \<Rightarrow> 'd \<Rightarrow> 'd" where
  "InitEmployee autoMigrate db = autoMigrate db"

definition BeforeSave :: "gostring list \<Rightarrow> gostring list \<times> 'e option" where
  "BeforeSave out = (out @ [ascii ''before save''], None)"

definition BeforeCreate :: "gostring list \<Rightarrow> gostring list \<times> 'e option" where
  "BeforeCreate out = (out @ [ascii ''before create''], None)"

definition AfterCreate :: "gostring list \<Rightarrow> gostring list \<times> 'e option" where
  "AfterCreate out = (out @ [ascii ''after create''], None)"

definition AfterSave :: "gostring list \<Rightarrow> gostring list \<times> 'e option" where
  "AfterSave out = (out @ [ascii ''after save''], None)"

definition gorm_main ::
  "(gostring \<Rightarrow> 'e + 'd) \<Rightarrow> ('d \<Rightarrow> 'e + 'q) \<Rightarrow> ('q \<Rightarrow> pool_setting \<Rightarrow> 'q) \<Rightarrow> ('d \<Rightarrow> 'd) \<Rightarrow>
   ('d \<Rightarrow> employee option) \<Rightarrow> ('d \<Rightarrow> employee \<Rightarrow> 'd \<times> 'e option) \<Rightarrow> 'e db_error + 'd \<times> 'q" where
  "gorm_main gormOpen sqlOf apply_setting autoMigrate lastEmployee create =
     (case openDB gormOpen (ascii ''test.sqlite3'') of
        Inl err \<Rightarrow> Inl err
      | Inr db \<Rightarrow>
          (case sqlOf db of
             Inl err \<Rightarrow> Inl (SqlError err)
           | Inr sqlDB \<Rightarrow>
               Inr (fst (insertEmployee lastEmployee create (merge db [InitEmployee autoMigrate])),
                    configConn apply_setting sqlDB)))"

text \<open>The program run \<open>k\<close> times.\<close>

fun insertTimes :: "('d \<Rightarrow> employee option) \<Rightarrow> ('d \<Rightarrow> employee \<Rightarrow> 'd \<times> 'e option) \<Rightarrow> nat \<Rightarrow> 'd \<Rightarrow> 'd" where
  "insertTimes lastEmployee create 0 db = db"
| "insertTimes lastEmployee create (Suc k) db =
     fst (insertEmployee lastEmployee create (insertTimes lastEmployee create k db))"

text \<open>
  If \<open>Last\<close> finds what \<open>Create\<close> has put into the database last, and \<open>Create\<close> does not fail, then the employees of an
  empty database are numbered from one.  Numbers are unique in the schema, so after 2 to the 64 of them \<open>Create\<close>
  does fail.
\<close>

lemma employees_numbered:
  assumes "\<And>db emp. lastEmployee (fst (create db emp)) = Some emp" "lastEmployee db = None" "0 < k"
  shows "\<exists>emp. lastEmployee (insertTimes lastEmployee create k db) = Some emp \<and> em_Number emp = of_nat k \<and>
    em_Name emp = ascii ''emp'' @ format03d (of_nat k)"
  using assms(3)
proof (induction k)
  case (Suc k)
  show ?case
  proof (cases k)
    case 0
    then show ?thesis using assms(1,2) by (simp add: insertEmployee_def genEmployee_def)
  next
    case (Suc j)
    then obtain emp where "lastEmployee (insertTimes lastEmployee create k db) = Some emp" "em_Number emp = of_nat k"
      using Suc.IH by auto
    then show ?thesis
      using assms(1) by (simp add: insertEmployee_def genEmployee_def add.commute)
  qed
qed simp

end
