(* ===== verification/LinkedList.thy ===== *)
theory LinkedList
  imports Main
begin

text \<open>
  \<open>dt-al/list/linkedlist.go\<close>: the singly linked list, of which the source has the types and the constructor.
\<close>

text \<open>A pointer is an option: \<open>nil\<close> is \<open>None\<close>.\<close>

datatype node = Node (node_value: int) (node_next: "node option")

record linkedList =
  ll_head :: "node option"

definition NewLinkedList :: linkedList where
  "NewLinkedList = \<lparr> ll_head = None \<rparr>"

text \<open>The nodes of a list, from its head on.\<close>

fun nodesFrom :: "node option \<Rightarrow> int list" where
  "nodesFrom None = []"
| "nodesFrom (Some (Node v n)) = v # nodesFrom n"

text \<open>The new list has no node at all, not the head node that the comment of the source speaks of.\<close>

lemma new_list_empty: "nodesFrom (ll_head NewLinkedList) = []" "ll_head NewLinkedList = None"
  by (simp_all add: NewLinkedList_def)

end
