(* ===== verification/Confirms.thy ===== *)
theory Confirms
  imports Errors
begin

text \<open>
  Publisher confirms: \<open>confirms.go\<close> and the \<open>Confirmation\<close> struct of \<open>types.go\<close>.  A listener channel is
  the list of the confirmations sent into it, oldest first.  Every operation holds the mutex \<open>m\<close> from
  its first to its last statement, so each is one step.
\<close>

section \<open>State\<close>

record confirmation =
  cf_DeliveryTag :: u64
  cf_Ack :: bool

record confirms =
  listeners :: "confirmation list list"
  closedListeners :: "confirmation list list"
  sequencer :: "u64 \<rightharpoonup> confirmation"
  published :: u64
  expecting :: u64

definition newConfirms :: confirms where
  "newConfirms = \<lparr> listeners = [], closedListeners = [], sequencer = Map.empty,
     published = 0, expecting = 1 \<rparr>"

section \<open>Operations\<close>

definition Listen :: "confirms \<Rightarrow> confirms" where
  "Listen c = c\<lparr> listeners := listeners c @ [[]] \<rparr>"

definition Publish :: "confirms \<Rightarrow> u64 \<times> confirms" where
  "Publish c = (published c + 1, c\<lparr> published := published c + 1 \<rparr>)"

definition confirm :: "confirmation \<Rightarrow> confirms \<Rightarrow> confirms" where
  "confirm cf c =
     c\<lparr> sequencer := (sequencer c)(expecting c := None),
        expecting := expecting c + 1,
        listeners := map (\<lambda>l. l @ [cf]) (listeners c) \<rparr>"

text \<open>
  The loop of \<open>resequence\<close> removes an entry of the sequencer in every round, so it ends even where the
  counters wrap around.
\<close>

function resequence :: "confirms \<Rightarrow> confirms" where
  "resequence c =
     (if expecting c \<le> published c then
        (case sequencer c (expecting c) of
           None \<Rightarrow> c
         | Some sequenced \<Rightarrow> resequence (confirm sequenced c))
      else c)"
  by pat_completeness auto
termination
proof (relation "measure (\<lambda>c. card (dom (sequencer c)))")
  fix c :: confirms and cf
  assume "sequencer c (expecting c) = Some cf"
  then show "(confirm cf c, c) \<in> measure (\<lambda>c. card (dom (sequencer c)))"
    by (auto simp: confirm_def intro!: psubset_card_mono)
qed simp

declare resequence.simps [simp del]

definition One :: "confirmation \<Rightarrow> confirms \<Rightarrow> confirms" where
  "One confirmed c =
     resequence (if expecting c = cf_DeliveryTag confirmed then confirm confirmed c
                 else c\<lparr> sequencer := (sequencer c)(cf_DeliveryTag confirmed \<mapsto> confirmed) \<rparr>)"

text \<open>
  The loop of \<open>Multiple\<close> has no such bound: \<open>None\<close> is a loop that never ends.
\<close>

partial_function (option) multipleLoop :: "confirmation \<Rightarrow> confirms \<Rightarrow> confirms option" where
  "multipleLoop confirmed c =
     (if expecting c \<le> cf_DeliveryTag confirmed
      then multipleLoop confirmed
             (confirm \<lparr> cf_DeliveryTag = expecting c, cf_Ack = cf_Ack confirmed \<rparr> c)
      else Some c)"

definition Multiple :: "confirmation \<Rightarrow> confirms \<Rightarrow> confirms option" where
  "Multiple confirmed c = map_option resequence (multipleLoop confirmed c)"

definition Close :: "confirms \<Rightarrow> confirms" where
  "Close c = c\<lparr> listeners := [], closedListeners := closedListeners c @ listeners c \<rparr>"

section \<open>Every listener hears consecutive delivery tags\<close>

text \<open>
  The tags a listener has received are consecutive and end just before the tag expected next; and the
  sequencer files every confirmation under its own tag.
\<close>

definition consecutive :: "u64 \<Rightarrow> confirmation list \<Rightarrow> bool" where
  "consecutive e l \<longleftrightarrow>
     map cf_DeliveryTag l = map (\<lambda>i. e - of_nat (length l - i)) [0..<length l]"

definition confirms_inv :: "confirms \<Rightarrow> bool" where
  "confirms_inv c \<longleftrightarrow>
     (\<forall>l \<in> set (listeners c). consecutive (expecting c) l) \<and>
     (\<forall>k cf. sequencer c k = Some cf \<longrightarrow> cf_DeliveryTag cf = k)"

lemma consecutive_Nil [simp]: "consecutive e []"
  by (simp add: consecutive_def)

lemma consecutive_snoc:
  assumes "consecutive e l" "cf_DeliveryTag cf = e"
  shows "consecutive (e + 1) (l @ [cf])"
proof -
  have "map cf_DeliveryTag l = map (\<lambda>i. (e + 1) - of_nat (Suc (length l) - i)) [0..<length l]"
    using assms(1) unfolding consecutive_def
    by (auto intro!: map_cong simp: Suc_diff_le)
  then show ?thesis using assms(2) by (simp add: consecutive_def)
qed

lemma confirms_inv_new [simp]: "confirms_inv newConfirms"
  by (simp add: confirms_inv_def newConfirms_def)

lemma confirms_inv_Listen: "confirms_inv c \<Longrightarrow> confirms_inv (Listen c)"
  by (auto simp: confirms_inv_def Listen_def)

lemma confirms_inv_Publish: "confirms_inv c \<Longrightarrow> confirms_inv (snd (Publish c))"
  by (auto simp: confirms_inv_def Publish_def)

lemma confirms_inv_Close: "confirms_inv c \<Longrightarrow> confirms_inv (Close c)"
  by (auto simp: confirms_inv_def Close_def)

lemma confirms_inv_confirm:
  "confirms_inv c \<Longrightarrow> cf_DeliveryTag cf = expecting c \<Longrightarrow> confirms_inv (confirm cf c)"
  by (auto simp: confirms_inv_def confirm_def consecutive_snoc)

lemma confirms_inv_resequence: "confirms_inv c \<Longrightarrow> confirms_inv (resequence c)"
proof (induction c rule: resequence.induct)
  case (1 c)
  have "confirms_inv (confirm cf c)" if "sequencer c (expecting c) = Some cf" for cf
    using "1.prems" that by (intro confirms_inv_confirm) (auto simp: confirms_inv_def)
  then show ?case
    using 1 by (subst resequence.simps) (simp split: option.split)
qed

lemma confirms_inv_One: "confirms_inv c \<Longrightarrow> confirms_inv (One cf c)"
  unfolding One_def
  by (rule confirms_inv_resequence) (auto simp: confirms_inv_confirm, auto simp: confirms_inv_def)

lemma confirms_inv_multipleLoop:
  assumes "multipleLoop cf c = Some c'" "confirms_inv c"
  shows "confirms_inv c'"
proof -
  have "confirms_inv c \<longrightarrow> confirms_inv c'"
    by (rule multipleLoop.raw_induct [where P = "\<lambda>cf c c'. confirms_inv c \<longrightarrow> confirms_inv c'",
          OF _ assms(1)]) (auto simp: confirms_inv_confirm split: if_splits)
  then show ?thesis using assms(2) by blast
qed

lemma confirms_inv_Multiple:
  "Multiple cf c = Some c' \<Longrightarrow> confirms_inv c \<Longrightarrow> confirms_inv c'"
  by (auto simp: Multiple_def confirms_inv_multipleLoop confirms_inv_resequence)

section \<open>Multiple\<close>

text \<open>\<open>Multiple\<close> confirms every tag up to its own, in order, with the same flag.\<close>

definition confirmUpTo :: "bool \<Rightarrow> u64 \<Rightarrow> nat \<Rightarrow> confirmation list" where
  "confirmUpTo ack e n = map (\<lambda>i. \<lparr> cf_DeliveryTag = e + of_nat i, cf_Ack = ack \<rparr>) [0..<n]"

lemma multipleLoop_returns:
  assumes "cf_DeliveryTag cf \<noteq> - 1" "n = Suc (unat (cf_DeliveryTag cf)) - unat (expecting c)"
  shows "\<exists>c'. multipleLoop cf c = Some c' \<and> expecting c' = expecting c + of_nat n \<and>
           listeners c' = map (\<lambda>l. l @ confirmUpTo (cf_Ack cf) (expecting c) n) (listeners c) \<and>
           published c' = published c"
  using assms(2)
proof (induction n arbitrary: c)
  case 0
  then have "\<not> expecting c \<le> cf_DeliveryTag cf" by (simp add: word_le_nat_alt)
  then show ?case by (simp add: multipleLoop.simps confirmUpTo_def)
next
  case (Suc n)
  let ?c = "confirm \<lparr> cf_DeliveryTag = expecting c, cf_Ack = cf_Ack cf \<rparr> c"
  from Suc.prems have le: "expecting c \<le> cf_DeliveryTag cf" by (simp add: word_le_nat_alt)
  with assms(1) have "expecting c \<noteq> - 1" by (metis word_order.extremum_uniqueI)
  then have "1 + expecting c \<noteq> 0" by (simp add: add_eq_0_iff)
  then have "unat (expecting c + 1) = Suc (unat (expecting c))"
    using unatSuc [of "expecting c"] by (simp add: add.commute)
  then have "n = Suc (unat (cf_DeliveryTag cf)) - unat (expecting ?c)"
    using Suc.prems by (simp add: confirm_def)
  from Suc.IH [OF this] obtain c' where c': "multipleLoop cf ?c = Some c'"
    "expecting c' = expecting ?c + of_nat n"
    "listeners c' = map (\<lambda>l. l @ confirmUpTo (cf_Ack cf) (expecting ?c) n) (listeners ?c)"
    "published c' = published ?c" by blast
  have "confirmUpTo (cf_Ack cf) (expecting c) (Suc n) =
      \<lparr> cf_DeliveryTag = expecting c, cf_Ack = cf_Ack cf \<rparr> # confirmUpTo (cf_Ack cf) (expecting c + 1) n"
    unfolding confirmUpTo_def upt_conv_Cons [OF zero_less_Suc] map_Suc_upt [symmetric]
    by (simp add: algebra_simps comp_def)
  then show ?case
    using c' le by (subst multipleLoop.simps) (simp add: confirm_def algebra_simps)
qed

lemma multipleLoop_diverges:
  assumes "cf_DeliveryTag cf = - 1"
  shows "multipleLoop cf c = None"
proof (rule ccontr)
  assume "multipleLoop cf c \<noteq> None"
  then obtain c' where c': "multipleLoop cf c = Some c'" by auto
  have "\<not> expecting c' \<le> cf_DeliveryTag cf"
    by (rule multipleLoop.raw_induct [where P = "\<lambda>cf c c'. \<not> expecting c' \<le> cf_DeliveryTag cf",
          OF _ c']) (auto split: if_splits)
  then show False using assms by simp
qed

section \<open>Resequencing\<close>

text \<open>
  Confirmations that arrive in any order reach the listener in tag order.  \<open>tracks f n S e c\<close>: of the
  publishings \<open>1..n\<close>, whose confirmations are \<open>f 1 .. f n\<close>, those in \<open>S\<close> have been confirmed, the
  listener has heard of those before \<open>e\<close>, and the sequencer holds the others.
\<close>

definition tracks :: "(nat \<Rightarrow> confirmation) \<Rightarrow> nat \<Rightarrow> nat set \<Rightarrow> nat \<Rightarrow> confirms \<Rightarrow> bool" where
  "tracks f n S e c \<longleftrightarrow>
     1 \<le> e \<and> e \<le> Suc n \<and> S \<subseteq> {1..n} \<and> {1..<e} \<subseteq> S \<and> n \<le> unat (published c) \<and> n < 2 ^ 64 - 1 \<and>
     expecting c = of_nat e \<and> listeners c = [map f [1..<e]] \<and>
     sequencer c = (\<lambda>k. if unat k \<in> S \<and> e \<le> unat k then Some (f (unat k)) else None)"

lemma unat_of_nat_u64: "e < 2 ^ 64 \<Longrightarrow> unat (of_nat e :: u64) = e"
  by (simp add: unat_of_nat take_bit_nat_eq_self)

lemma u64_eq_of_nat: "unat (of_nat e :: u64) = e \<Longrightarrow> (k :: u64) = of_nat e \<longleftrightarrow> unat k = e"
  by auto

lemma tracks_unat: "tracks f n S e c \<Longrightarrow> unat (of_nat e :: u64) = e"
  by (rule unat_of_nat_u64) (auto simp: tracks_def)

lemma upt_snoc: "1 \<le> e \<Longrightarrow> [1..<Suc e] = [1..<e] @ [e]"
  by simp

lemma tracks_confirm:
  assumes "tracks f n S e c" "e \<in> T" "T = insert e S" "e \<le> n"
  shows "tracks f n T (Suc e) (confirm (f e) c)"
proof -
  note u = tracks_unat [OF assms(1)]
  have "(sequencer c)(of_nat e := None) =
      (\<lambda>k. if unat k \<in> T \<and> Suc e \<le> unat k then Some (f (unat k)) else None)"
  proof
    fix k :: u64
    have "k = of_nat e \<longleftrightarrow> unat k = e" by (rule u64_eq_of_nat [OF u])
    then show "((sequencer c)(of_nat e := None)) k =
        (if unat k \<in> T \<and> Suc e \<le> unat k then Some (f (unat k)) else None)"
      using assms by (auto simp: tracks_def)
  qed
  moreover have "{1..<Suc e} \<subseteq> T" "T \<subseteq> {1..n}"
    using assms by (auto simp: tracks_def atLeastLessThanSuc)
  ultimately show ?thesis
    using assms(1,4) by (auto simp: tracks_def confirm_def upt_snoc algebra_simps)
qed

lemma tracks_resequence:
  "tracks f n S e c \<Longrightarrow> \<exists>e'. tracks f n S e' (resequence c) \<and> e' \<notin> S"
proof (induction "Suc n - e" arbitrary: e c)
  case 0
  then have "e \<notin> S" "sequencer c (expecting c) = None" by (auto simp: tracks_def)
  then show ?case using 0 by (subst resequence.simps) auto
next
  case (Suc d)
  note u = tracks_unat [OF Suc.prems]
  show ?case
  proof (cases "e \<in> S")
    case True
    then have e: "e \<le> n" using Suc.prems by (auto simp: tracks_def)
    have "sequencer c (expecting c) = Some (f e)" "expecting c \<le> published c"
      using Suc.prems True u e by (auto simp: tracks_def word_le_nat_alt)
    then have "resequence c = resequence (confirm (f e) c)"
      by (subst resequence.simps) simp
    moreover have "tracks f n S (Suc e) (confirm (f e) c)"
      using Suc.prems True e by (intro tracks_confirm) auto
    ultimately show ?thesis using Suc.hyps(1) [of "Suc e"] Suc.hyps(2) by simp
  next
    case False
    then have "sequencer c (expecting c) = None"
      using Suc.prems u by (auto simp: tracks_def)
    then have "resequence c = c" by (subst resequence.simps) simp
    then show ?thesis using False Suc.prems by auto
  qed
qed

lemma tracks_One:
  assumes "tracks f n S e c" "e \<notin> S" "t \<in> {1..n} - S" "cf_DeliveryTag (f t) = of_nat t"
  shows "\<exists>e'. tracks f n (insert t S) e' (One (f t) c) \<and> e' \<notin> insert t S"
proof (cases "t = e")
  case True
  have "tracks f n (insert t S) (Suc e) (confirm (f e) c)"
    by (rule tracks_confirm [OF assms(1)]) (use assms True in auto)
  moreover have "One (f t) c = resequence (confirm (f e) c)"
    using assms True by (simp add: One_def tracks_def)
  ultimately show ?thesis using tracks_resequence True by metis
next
  case False
  have u: "unat (of_nat t :: u64) = t"
    using assms by (intro unat_of_nat_u64) (auto simp: tracks_def)
  have gt: "e < t" using assms False by (fastforce simp: tracks_def subset_iff)
  let ?c = "c\<lparr> sequencer := (sequencer c)(of_nat t \<mapsto> f t) \<rparr>"
  have "(sequencer c)(of_nat t \<mapsto> f t) =
      (\<lambda>k. if unat k \<in> insert t S \<and> e \<le> unat k then Some (f (unat k)) else None)"
  proof
    fix k :: u64
    have "k = of_nat t \<longleftrightarrow> unat k = t" by (rule u64_eq_of_nat [OF u])
    then show "((sequencer c)(of_nat t \<mapsto> f t)) k =
        (if unat k \<in> insert t S \<and> e \<le> unat k then Some (f (unat k)) else None)"
      using assms gt by (auto simp: tracks_def)
  qed
  then have "tracks f n (insert t S) e ?c"
    using assms by (auto simp: tracks_def)
  moreover have "One (f t) c = resequence ?c"
    using assms gt u tracks_unat [OF assms(1)] by (auto simp: One_def tracks_def)
  ultimately show ?thesis using tracks_resequence by metis
qed

lemma tracks_fold:
  assumes "tracks f n S e c" "e \<notin> S" "distinct ts" "set ts \<subseteq> {1..n} - S"
    and "\<And>i. i \<in> {1..n} \<Longrightarrow> cf_DeliveryTag (f i) = of_nat i"
  shows "\<exists>e'. tracks f n (S \<union> set ts) e' (fold (\<lambda>t. One (f t)) ts c) \<and> e' \<notin> S \<union> set ts"
  using assms(1-4)
proof (induction ts arbitrary: S e c)
  case Nil
  then show ?case by auto
next
  case (Cons t ts)
  then obtain e1 where e1: "tracks f n (insert t S) e1 (One (f t) c)" "e1 \<notin> insert t S"
    using tracks_One [of f n S e c t] assms(5) by auto
  then show ?case
    using Cons.IH [OF e1] Cons.prems by auto
qed

lemma resequenced:
  assumes "listeners c = [[]]" "expecting c = 1" "sequencer c = Map.empty"
    and "n \<le> unat (published c)" "n < 2 ^ 64 - 1"
    and "\<And>i. i \<in> {1..n} \<Longrightarrow> cf_DeliveryTag (f i) = of_nat i"
    and "distinct ts" "set ts = {1..n}"
  shows "listeners (fold (\<lambda>t. One (f t)) ts c) = [map f [1..<Suc n]]"
proof -
  have "tracks f n {} 1 c" using assms by (simp add: tracks_def)
  from tracks_fold [OF this _ assms(7) _ assms(6)] assms(8)
  obtain e where e: "tracks f n {1..n} e (fold (\<lambda>t. One (f t)) ts c)" "e \<notin> {1..n}"
    by auto
  then have "e = Suc n" by (auto simp: tracks_def)
  then show ?thesis using e by (simp add: tracks_def)
qed

section \<open>The states of the confirms\<close>

text \<open>A sequence of calls; \<open>None\<close> if one of them does not return.\<close>

datatype (plugins only: code size) confirm_op =
    DoListen
  | DoPublish
  | DoOne confirmation
  | DoMultiple confirmation
  | DoClose

fun confirm_step :: "confirm_op \<Rightarrow> confirms \<Rightarrow> confirms option" where
  "confirm_step DoListen c = Some (Listen c)"
| "confirm_step DoPublish c = Some (snd (Publish c))"
| "confirm_step (DoOne cf) c = Some (One cf c)"
| "confirm_step (DoMultiple cf) c = Multiple cf c"
| "confirm_step DoClose c = Some (Close c)"

fun confirm_run :: "confirm_op list \<Rightarrow> confirms \<Rightarrow> confirms option" where
  "confirm_run [] c = Some c"
| "confirm_run (x # xs) c = Option.bind (confirm_step x c) (confirm_run xs)"

lemma confirm_run_inv: "confirm_run xs c = Some c' \<Longrightarrow> confirms_inv c \<Longrightarrow> confirms_inv c'"
proof (induction xs arbitrary: c)
  case (Cons x xs)
  then obtain c1 where c1: "confirm_step x c = Some c1" "confirm_run xs c1 = Some c'"
    by (auto simp: Option.bind_eq_Some_conv)
  have "confirms_inv c1"
    using c1(1) Cons.prems(2)
    by (cases x) (auto simp: confirms_inv_Listen confirms_inv_Publish confirms_inv_One
        confirms_inv_Multiple confirms_inv_Close)
  then show ?case using Cons.IH c1(2) by simp
qed simp

end
