(* ===== verification/Simulation.thy ===== *)
theory Simulation
  imports Main
begin

text \<open>
  Refinement as a contract.  An implementation simulates a specification, or the other way round, if the one can
  follow each step of the other that is visible, and stays put on those that are not; and then it can follow
  whole runs.  The publisher confirms and the consumers are interpretations of these locales.
\<close>

section \<open>Runs of a labelled step relation\<close>

inductive steps :: "('s \<Rightarrow> 'l \<Rightarrow> 's \<Rightarrow> bool) \<Rightarrow> 's \<Rightarrow> 'l list \<Rightarrow> 's \<Rightarrow> bool" for step where
  steps_nil [intro, simp]: "steps step s [] s"
| steps_cons [intro]: "step s l s1 \<Longrightarrow> steps step s1 ls s2 \<Longrightarrow> steps step s (l # ls) s2"

inductive_simps steps_simps [simp]: "steps step s [] s'" "steps step s (l # ls) s'"

lemma steps_append: "steps step s (ls @ ks) s' \<longleftrightarrow> (\<exists>m. steps step s ls m \<and> steps step m ks s')"
  by (induction ls arbitrary: s) auto

text \<open>The runs of an operation that may not be possible, or not return, as a step relation.\<close>

lemma steps_option:
  assumes "\<And>s. run [] s = Some s" "\<And>x xs s. run (x # xs) s = Option.bind (op x s) (run xs)"
  shows "steps (\<lambda>s x s'. op x s = Some s') s xs s' \<longleftrightarrow> run xs s = Some s'"
  by (induction xs arbitrary: s) (auto simp: assms Option.bind_eq_Some_conv)

section \<open>Simulation\<close>

locale simulation =
  fixes step :: "'s \<Rightarrow> 'l \<Rightarrow> 's \<Rightarrow> bool"
    and follow :: "'t \<Rightarrow> 'l \<Rightarrow> 't \<Rightarrow> bool"
    and related :: "'s \<Rightarrow> 't \<Rightarrow> bool"
    and visible :: "'l \<Rightarrow> bool"
  assumes follows: "related s t \<Longrightarrow> step s l s' \<Longrightarrow> visible l \<Longrightarrow> \<exists>t'. follow t l t' \<and> related s' t'"
    and stays: "related s t \<Longrightarrow> step s l s' \<Longrightarrow> \<not> visible l \<Longrightarrow> related s' t"
begin

lemma follows_run:
  "steps step s ls s' \<Longrightarrow> related s t \<Longrightarrow> \<exists>t'. steps follow t (filter visible ls) t' \<and> related s' t'"
proof (induction arbitrary: t rule: steps.induct)
  case (steps_cons s l s1 ls s2)
  show ?case
  proof (cases "visible l")
    case True
    then obtain t1 where t1: "follow t l t1" "related s1 t1" using follows steps_cons.hyps(1) steps_cons.prems by blast
    then show ?thesis using steps_cons.IH [OF t1(2)] True by auto
  next
    case False
    then show ?thesis using steps_cons.IH stays [OF steps_cons.prems steps_cons.hyps(1)] by simp
  qed
qed auto

lemma keeps: "steps step s ls s' \<Longrightarrow> related s t \<Longrightarrow> list_all (\<lambda>l. \<not> visible l) ls \<Longrightarrow> related s' t"
  using follows_run [of s ls s' t] by (auto simp: list_all_iff filter_empty_conv [THEN iffD2])

end

text \<open>Simulation in both directions, the specification having only visible steps.\<close>

locale bisimulation = simulation +
  assumes led: "related s t \<Longrightarrow> follow t l t' \<Longrightarrow> visible l \<and> (\<exists>s'. step s l s' \<and> related s' t')"

sublocale bisimulation \<subseteq> reverse: simulation follow step "\<lambda>t s. related s t" "\<lambda>l. True"
  by unfold_locales (use led in blast)+

context bisimulation
begin

lemma follow_visible: "steps follow t ls t' \<Longrightarrow> related s t \<Longrightarrow> list_all visible ls"
proof (induction arbitrary: s rule: steps.induct)
  case (steps_cons t l t1 ls t2)
  then show ?case using led by fastforce
qed simp

text \<open>What can be seen of the one is what can be seen of the other.\<close>

lemma same_traces:
  assumes "related s t"
  shows "(\<exists>ls s'. steps step s ls s' \<and> filter visible ls = vs) \<longleftrightarrow> (\<exists>t'. steps follow t vs t')"
proof
  assume "\<exists>ls s'. steps step s ls s' \<and> filter visible ls = vs"
  then show "\<exists>t'. steps follow t vs t'" using follows_run assms by blast
next
  assume "\<exists>t'. steps follow t vs t'"
  then obtain t' where t': "steps follow t vs t'" by blast
  then obtain s' where "steps step s vs s'" using reverse.follows_run [OF t' assms] by auto
  moreover have "filter visible vs = vs" using follow_visible [OF t' assms] by (simp add: list_all_iff)
  ultimately show "\<exists>ls s'. steps step s ls s' \<and> filter visible ls = vs" by blast
qed

end

end
