(* ===== verification/Confirming.thy ===== *)
theory Confirming
  imports Confirms Simulation
begin

text \<open>
  What publisher confirms are for: each publishing is confirmed once, by a confirmation of its own or by one for
  all up to a tag, and a listener hears the confirmations in the order of the publishings, as far as all before
  have been confirmed.  The operations of \<open>confirms.go\<close> refine this specification, except that \<open>Multiple\<close>
  overwrites what \<open>One\<close> has filed.
\<close>

section \<open>The specification\<close>

text \<open>The number of publishings, and the flags with which they have been confirmed.\<close>

type_synonym confirms_spec = "nat \<times> (nat \<rightharpoonup> bool)"

definition confirmationOf :: "(nat \<rightharpoonup> bool) \<Rightarrow> nat \<Rightarrow> confirmation" where
  "confirmationOf g i = \<lparr> cf_DeliveryTag = of_nat i, cf_Ack = the (g i) \<rparr>"

fun heard :: "confirms_spec \<Rightarrow> confirmation list" where
  "heard (n, g) = map (confirmationOf g) (takeWhile (\<lambda>i. g i \<noteq> None) [1..<Suc n])"

text \<open>
  No publishing up to \<open>t\<close> that has been confirmed but not heard of has another flag than \<open>ack\<close>.
\<close>

definition agrees :: "(nat \<rightharpoonup> bool) \<Rightarrow> nat \<Rightarrow> bool \<Rightarrow> bool" where
  "agrees g t ack \<longleftrightarrow> list_all (\<lambda>i. g i \<noteq> Some (\<not> ack)) (dropWhile (\<lambda>i. g i \<noteq> None) [1..<Suc t])"

definition confirmAll :: "(nat \<rightharpoonup> bool) \<Rightarrow> nat \<Rightarrow> bool \<Rightarrow> nat \<rightharpoonup> bool" where
  "confirmAll g t ack = (\<lambda>i. if 1 \<le> i \<and> i \<le> t \<and> g i = None then Some ack else g i)"

text \<open>\<open>None\<close>: the operation is not for this state.\<close>

fun spec_step :: "confirm_op \<Rightarrow> confirms_spec \<Rightarrow> confirms_spec option" where
  "spec_step DoPublish (n, g) = (if Suc n < 2 ^ 64 - 1 then Some (Suc n, g) else None)"
| "spec_step (DoOne cf) (n, g) =
     (let t = unat (cf_DeliveryTag cf) in
      if 1 \<le> t \<and> t \<le> n \<and> g t = None then Some (n, g(t \<mapsto> cf_Ack cf)) else None)"
| "spec_step (DoMultiple cf) (n, g) =
     (let t = unat (cf_DeliveryTag cf) in
      if t \<le> n \<and> agrees g t (cf_Ack cf) then Some (n, confirmAll g t (cf_Ack cf)) else None)"
| "spec_step DoListen s = None"
| "spec_step DoClose s = None"

fun spec_run :: "confirm_op list \<Rightarrow> confirms_spec \<Rightarrow> confirms_spec option" where
  "spec_run [] s = Some s"
| "spec_run (x # xs) s = Option.bind (spec_step x s) (spec_run xs)"

section \<open>The refinement\<close>

fun confirms_refine_rel :: "confirms_spec \<Rightarrow> confirms \<Rightarrow> bool" where
  "confirms_refine_rel (n, g) c \<longleftrightarrow>
     published c = of_nat n \<and> (\<exists>e. tracks (confirmationOf g) n (dom g) e c \<and> e \<notin> dom g)"

lemma tracks_cong:
  assumes "tracks f n S e c" "\<And>i. i \<in> S \<Longrightarrow> f i = f' i"
  shows "tracks f' n S e c"
proof -
  have "map f [1..<e] = map f' [1..<e]" using assms by (intro map_cong) (auto simp: tracks_def)
  moreover have "(\<lambda>k :: u64. if unat k \<in> S \<and> e \<le> unat k then Some (f (unat k)) else None) =
      (\<lambda>k. if unat k \<in> S \<and> e \<le> unat k then Some (f' (unat k)) else None)" using assms(2) by auto
  ultimately show ?thesis using assms(1) by (simp add: tracks_def)
qed

lemma first_gap:
  assumes "1 \<le> e" "e \<le> Suc n" "{1..<e} \<subseteq> dom g" "e \<notin> dom g"
  shows "takeWhile (\<lambda>i. g i \<noteq> None) [1..<Suc n] = [1..<e]"
    and "dropWhile (\<lambda>i. g i \<noteq> None) [1..<Suc n] = [e..<Suc n]"
proof -
  let ?P = "\<lambda>i. g i \<noteq> None"
  have split: "[1..<Suc n] = [1..<e] @ [e..<Suc n]" using assms(1,2) by (metis le_iff_add upt_add_eq_append)
  have heard: "?P i" if "i \<in> set [1..<e]" for i using assms(3) that by auto
  have "takeWhile ?P [e..<Suc n] = [] \<and> dropWhile ?P [e..<Suc n] = [e..<Suc n]"
    using assms(2,4) by (cases "e < Suc n") (simp_all add: upt_rec [of e] domIff del: upt_Suc)
  then show "takeWhile ?P [1..<Suc n] = [1..<e]" "dropWhile ?P [1..<Suc n] = [e..<Suc n]"
    unfolding split using takeWhile_append2 [of "[1..<e]" ?P] dropWhile_append2 [of "[1..<e]" ?P] heard by simp_all
qed

lemma refine_heard:
  assumes "confirms_refine_rel (n, g) c"
  shows "listeners c = [heard (n, g)]"
proof -
  obtain e where e: "tracks (confirmationOf g) n (dom g) e c" "e \<notin> dom g" using assms by auto
  then have "takeWhile (\<lambda>i. g i \<noteq> None) [1..<Suc n] = [1..<e]" by (intro first_gap(1)) (auto simp: tracks_def)
  with e(1) show ?thesis unfolding heard.simps by (simp add: tracks_def)
qed

lemma refine_Publish:
  assumes "confirms_refine_rel (n, g) c" "Suc n < 2 ^ 64 - 1"
  shows "confirms_refine_rel (Suc n, g) (snd (Publish c))"
proof -
  have "unat (of_nat (Suc n) :: u64) = Suc n" by (rule unat_of_nat_u64) (use assms(2) in simp)
  moreover obtain e where e: "tracks (confirmationOf g) n (dom g) e c" "e \<notin> dom g" "published c = of_nat n"
    using assms(1) by auto
  ultimately have "tracks (confirmationOf g) (Suc n) (dom g) e (snd (Publish c))"
    unfolding tracks_def Publish_def using assms(2) by (auto simp: algebra_simps)
  with e(2,3) show ?thesis by (auto simp: Publish_def algebra_simps)
qed

lemma resequence_published: "published (resequence c) = published c"
proof (induction c rule: resequence.induct)
  case (1 c)
  then show ?case by (subst resequence.simps) (auto simp: confirm_def split: option.split)
qed

lemma refine_One:
  assumes "confirms_refine_rel (n, g) c" "t = unat (cf_DeliveryTag cf)" "1 \<le> t" "t \<le> n" "g t = None"
  shows "confirms_refine_rel (n, g(t \<mapsto> cf_Ack cf)) (One cf c)"
proof -
  let ?g = "g(t \<mapsto> cf_Ack cf)"
  obtain e where e: "tracks (confirmationOf g) n (dom g) e c" "e \<notin> dom g" using assms(1) by auto
  have "tracks (confirmationOf ?g) n (dom g) e c"
    by (rule tracks_cong [OF e(1)]) (use assms(5) in \<open>auto simp: confirmationOf_def\<close>)
  moreover have cf: "confirmationOf ?g t = cf" by (simp add: confirmationOf_def assms(2))
  moreover have "t \<in> {1..n} - dom g" using assms(3-5) by auto
  moreover have "cf_DeliveryTag (confirmationOf ?g t) = of_nat t" by (simp add: confirmationOf_def)
  ultimately obtain e' where "tracks (confirmationOf ?g) n (insert t (dom g)) e' (One cf c)" "e' \<notin> insert t (dom g)"
    using tracks_One [of "confirmationOf ?g" n "dom g" e c t] e(2) by auto
  moreover have "published (One cf c) = published c" by (simp add: One_def resequence_published confirm_def)
  ultimately show ?thesis using assms(1) by auto
qed

text \<open>The loop of \<open>Multiple\<close>.\<close>

lemma tracks_multipleLoop:
  assumes "tracks f n S e c" "t \<le> n" "e \<le> Suc t"
    and "\<And>i. i \<in> {e..t} \<Longrightarrow> f i = \<lparr> cf_DeliveryTag = of_nat i, cf_Ack = cf_Ack cf \<rparr>" "cf_DeliveryTag cf = of_nat t"
  shows "\<exists>c'. multipleLoop cf c = Some c' \<and> tracks f n (S \<union> {e..t}) (Suc t) c' \<and> published c' = published c"
  using assms(1,3,4)
proof (induction "Suc t - e" arbitrary: S e c)
  case 0
  then have e: "e = Suc t" by simp
  then have "unat (of_nat (Suc t) :: u64) = Suc t" using tracks_unat [OF 0(2)] by simp
  moreover have "unat (of_nat t :: u64) = t" using 0(2) assms(2) by (intro unat_of_nat_u64) (auto simp: tracks_def)
  ultimately have "\<not> expecting c \<le> cf_DeliveryTag cf"
    using 0(2) e assms(5) by (auto simp: tracks_def word_le_nat_alt)
  then show ?case using 0(2) e by (simp add: multipleLoop.simps)
next
  case (Suc d)
  have e: "e \<le> t" "f e = \<lparr> cf_DeliveryTag = expecting c, cf_Ack = cf_Ack cf \<rparr>"
    using Suc.hyps(2) Suc.prems by (auto simp: tracks_def)
  have "unat (of_nat t :: u64) = t"
    using Suc.prems(1) assms(2) by (intro unat_of_nat_u64) (auto simp: tracks_def)
  then have le: "expecting c \<le> cf_DeliveryTag cf"
    using tracks_unat [OF Suc.prems(1)] Suc.prems(1) e(1) assms(5) by (auto simp: tracks_def word_le_nat_alt)
  have step: "tracks f n (insert e S) (Suc e) (confirm (f e) c)"
    using e(1) assms(2) by (intro tracks_confirm [OF Suc.prems(1)]) auto
  have "\<exists>c'. multipleLoop cf (confirm (f e) c) = Some c' \<and> tracks f n (insert e S \<union> {Suc e..t}) (Suc t) c' \<and>
      published c' = published (confirm (f e) c)"
    using Suc.hyps(2) Suc.prems(3) e(1) by (intro Suc.hyps(1) [OF _ step]) auto
  moreover have "insert e S \<union> {Suc e..t} = S \<union> {e..t}" using e(1) by auto
  ultimately show ?case using le e(2) by (subst multipleLoop.simps) (simp add: confirm_def)
qed

lemma refine_Multiple:
  assumes "confirms_refine_rel (n, g) c" "t = unat (cf_DeliveryTag cf)" "t \<le> n" "agrees g t (cf_Ack cf)"
  shows "\<exists>c'. Multiple cf c = Some c' \<and> confirms_refine_rel (n, confirmAll g t (cf_Ack cf)) c'"
proof -
  let ?g = "confirmAll g t (cf_Ack cf)"
  obtain e where e: "tracks (confirmationOf g) n (dom g) e c" "e \<notin> dom g" using assms(1) by auto
  have sub: "1 \<le> e" "e \<le> Suc n" "{1..<e} \<subseteq> dom g" using e(1) by (auto simp: tracks_def)
  have heard: "g x \<noteq> None" if "1 \<le> x" "x < e" for x using sub(3) that by auto
  have same: "tracks (confirmationOf ?g) n (dom g) e c"
    by (rule tracks_cong [OF e(1)]) (auto simp: confirmationOf_def confirmAll_def)
  show ?thesis
  proof (cases "e \<le> t")
    case True
    have "list_all (\<lambda>i. g i \<noteq> Some (\<not> cf_Ack cf)) [e..<Suc t]"
      using assms(4) first_gap(2) [of e t g] sub True e(2) unfolding agrees_def by simp
    then have "g i \<noteq> Some (\<not> cf_Ack cf)" if "i \<in> {e..t}" for i
      using that by (simp add: list_all_iff del: upt_Suc)
    then have "?g i = Some (cf_Ack cf)" if "i \<in> {e..t}" for i
      using that sub(1) by (cases "g i") (fastforce simp: confirmAll_def)+
    then have "confirmationOf ?g i = \<lparr> cf_DeliveryTag = of_nat i, cf_Ack = cf_Ack cf \<rparr>" if "i \<in> {e..t}" for i
      using that by (simp add: confirmationOf_def)
    moreover have "e \<le> Suc t" "cf_DeliveryTag cf = of_nat t" using True assms(2) by simp_all
    ultimately obtain c1 where c1: "multipleLoop cf c = Some c1"
      "tracks (confirmationOf ?g) n (dom g \<union> {e..t}) (Suc t) c1" "published c1 = published c"
      using tracks_multipleLoop [OF same assms(3)] by metis
    have "dom g \<union> {e..t} = dom ?g"
      using sub(1) heard by (auto simp: confirmAll_def domIff) (metis leI)
    then show ?thesis
      using tracks_resequence [OF c1(2)] c1(1,3) assms(1) by (auto simp: Multiple_def resequence_published)
  next
    case False
    then have "?g = g" using heard by (auto simp: confirmAll_def fun_eq_iff)
    moreover have "\<not> expecting c \<le> cf_DeliveryTag cf"
      using False e(1) tracks_unat [OF e(1)] assms(2) by (auto simp: tracks_def word_le_nat_alt)
    moreover have "resequence c = c"
    proof -
      have "sequencer c (expecting c) = None" using e tracks_unat [OF e(1)] by (auto simp: tracks_def)
      then show ?thesis by (subst resequence.simps) simp
    qed
    ultimately show ?thesis using assms(1) by (simp add: Multiple_def multipleLoop.simps)
  qed
qed

lemma refine_step:
  assumes "confirms_refine_rel s c" "spec_step x s = Some s'"
  shows "\<exists>c'. confirm_step x c = Some c' \<and> confirms_refine_rel s' c'"
proof -
  obtain n g where s: "s = (n, g)" by (cases s)
  show ?thesis
  proof (cases x)
    case DoPublish
    then show ?thesis using assms refine_Publish by (auto simp: s simp del: confirms_refine_rel.simps split: if_splits)
  next
    case (DoOne cf)
    then show ?thesis
      using assms refine_One [of n g c _ cf] by (auto simp: s Let_def simp del: confirms_refine_rel.simps split: if_splits)
  next
    case (DoMultiple cf)
    then show ?thesis
      using assms refine_Multiple [of n g c _ cf]
      by (auto simp: s Let_def simp del: confirms_refine_rel.simps split: if_splits)
  qed (use assms in \<open>auto simp: s\<close>)
qed

text \<open>The operations follow the specification.\<close>

interpretation filed: simulation "\<lambda>s x s'. spec_step x s = Some s'" "\<lambda>c x c'. confirm_step x c = Some c'"
    confirms_refine_rel "\<lambda>x. True"
  by unfold_locales (use refine_step in blast)+

lemma refine_run:
  assumes "confirms_refine_rel s c" "spec_run xs s = Some s'"
  shows "\<exists>c'. confirm_run xs c = Some c' \<and> confirms_refine_rel s' c'"
proof -
  have "steps (\<lambda>s x s'. spec_step x s = Some s') s xs s'" using assms(2) steps_option [of spec_run spec_step] by simp
  from filed.follows_run [OF this assms(1)] show ?thesis using steps_option [of confirm_run confirm_step] by simp
qed

lemma refine_start: "confirms_refine_rel (0, Map.empty) (Listen newConfirms)"
  by (auto simp: tracks_def Listen_def newConfirms_def intro!: exI [of _ "1 :: nat"])

section \<open>A nack that is lost\<close>

text \<open>
  What \<open>agrees\<close> excludes: a negative confirmation that is filed because an earlier publishing has not been
  confirmed yet, and then a positive one for all up to a later tag.
\<close>

lemma multipleLoop_sequencer:
  assumes "multipleLoop cf c = Some c'" "cf_DeliveryTag cf \<noteq> - 1"
  shows "sequencer c' k = (if expecting c \<le> k \<and> k \<le> cf_DeliveryTag cf then None else sequencer c k)"
proof -
  have "cf_DeliveryTag cf \<noteq> - 1 \<longrightarrow>
      sequencer c' k = (if expecting c \<le> k \<and> k \<le> cf_DeliveryTag cf then None else sequencer c k)"
  proof (rule multipleLoop.raw_induct [OF _ assms(1), where P = "\<lambda>cf c c'. cf_DeliveryTag cf \<noteq> - 1 \<longrightarrow>
      sequencer c' k = (if expecting c \<le> k \<and> k \<le> cf_DeliveryTag cf then None else sequencer c k)"])
    fix loop cf c c'
    assume IH: "\<And>cf c c'. loop cf c = Some c' \<Longrightarrow> cf_DeliveryTag cf \<noteq> - 1 \<longrightarrow>
        sequencer c' k = (if expecting c \<le> k \<and> k \<le> cf_DeliveryTag cf then None else sequencer c k)"
      and r: "(if expecting c \<le> cf_DeliveryTag cf
        then loop cf (confirm \<lparr> cf_DeliveryTag = expecting c, cf_Ack = cf_Ack cf \<rparr> c) else Some c) = Some c'"
    show "cf_DeliveryTag cf \<noteq> - 1 \<longrightarrow>
        sequencer c' k = (if expecting c \<le> k \<and> k \<le> cf_DeliveryTag cf then None else sequencer c k)"
    proof (cases "expecting c \<le> cf_DeliveryTag cf")
      case True
      have "expecting c + 1 \<le> k \<longleftrightarrow> expecting c \<le> k \<and> k \<noteq> expecting c" if "cf_DeliveryTag cf \<noteq> - 1"
      proof -
        have "expecting c \<noteq> - 1" using True that by (metis word_order.extremum_uniqueI)
        then have "unat (expecting c + 1) = Suc (unat (expecting c))"
          using unatSuc [of "expecting c"] by (simp add: add.commute add_eq_0_iff)
        then show ?thesis by (auto simp: word_le_nat_alt word_unat_eq_iff)
      qed
      then show ?thesis using IH [of cf _ c'] r True by (auto simp: confirm_def)
    next
      case False
      then show ?thesis using r by auto
    qed
  qed
  then show ?thesis using assms(2) by blast
qed

lemma published_many:
  "confirm_run (replicate n DoPublish @ xs) c = confirm_run xs (c\<lparr> published := published c + of_nat n \<rparr>)"
  by (induction n arbitrary: c) (simp_all add: Publish_def algebra_simps)

lemma nack_lost:
  assumes "1 < i" "i \<le> t" "t \<noteq> - 1"
  shows "\<exists>c l. confirm_run (replicate n DoPublish @ [DoOne \<lparr> cf_DeliveryTag = i, cf_Ack = False \<rparr>,
        DoMultiple \<lparr> cf_DeliveryTag = t, cf_Ack = True \<rparr>]) (Listen newConfirms) = Some c \<and> listeners c = [l] \<and>
    \<lparr> cf_DeliveryTag = i, cf_Ack = True \<rparr> \<in> set l \<and> \<lparr> cf_DeliveryTag = i, cf_Ack = False \<rparr> \<notin> set l"
proof -
  let ?c = "Listen newConfirms \<lparr> published := of_nat n \<rparr>"
  let ?c1 = "?c\<lparr> sequencer := [i \<mapsto> \<lparr> cf_DeliveryTag = i, cf_Ack = False \<rparr>] \<rparr>"
  have "resequence ?c1 = ?c1"
    using assms(1) by (subst resequence.simps) (simp add: Listen_def newConfirms_def)
  then have one: "One \<lparr> cf_DeliveryTag = i, cf_Ack = False \<rparr> ?c = ?c1"
    using assms(1) by (simp add: One_def Listen_def newConfirms_def)
  obtain c2 where c2: "multipleLoop \<lparr> cf_DeliveryTag = t, cf_Ack = True \<rparr> ?c1 = Some c2"
    "listeners c2 = [confirmUpTo True 1 (unat t)]"
    using multipleLoop_returns [of "\<lparr> cf_DeliveryTag = t, cf_Ack = True \<rparr>" "unat t" ?c1] assms(3)
    by (auto simp: Listen_def newConfirms_def)
  have "sequencer c2 k = None" for k
    using multipleLoop_sequencer [OF c2(1), of k] assms by (auto simp: Listen_def newConfirms_def)
  then have "resequence c2 = c2" by (subst resequence.simps) simp
  moreover have "\<lparr> cf_DeliveryTag = i, cf_Ack = True \<rparr> \<in> set (confirmUpTo True 1 (unat t))"
  proof -
    have "unat i - 1 < unat t" "(1 :: u64) + of_nat (unat i - 1) = i"
      using assms(1,2) by (auto simp: word_less_nat_alt word_le_nat_alt)
    then show ?thesis unfolding confirmUpTo_def by (force intro!: image_eqI [of _ _ "unat i - 1"])
  qed
  moreover have "\<lparr> cf_DeliveryTag = i, cf_Ack = False \<rparr> \<notin> set (confirmUpTo True 1 (unat t))"
    by (auto simp: confirmUpTo_def)
  ultimately show ?thesis
    using one c2 by (simp add: published_many Multiple_def Listen_def newConfirms_def)
qed

end
