(* ===== verification/Wire.thy ===== *)
theory Wire
  imports Errors
begin

text \<open>
  The wire primitives of \<open>read.go\<close> and \<open>write.go\<close>: \<open>io.ReadFull\<close> on an in-memory reader, the
  big-endian integers of \<open>encoding/binary\<close>, short and long strings, decimals and timestamps; with
  the round trip of each, the truncation of over-long short strings and what each does at the end of
  its input.
\<close>

section \<open>io.ReadFull\<close>

text \<open>
  \<open>io.ReadFull(r, buf)\<close> with \<open>len(buf) = n\<close>, on the in-memory readers of the package
  (\<open>bytes.Reader\<close>, \<open>bytes.Buffer\<close>, \<open>io.LimitedReader\<close>): it fills the buffer, or takes what is left and
  reports \<open>io.EOF\<close> if that was nothing and \<open>io.ErrUnexpectedEOF\<close> otherwise.
\<close>

definition readFull :: "nat \<Rightarrow> bytes rd" where
  "readFull n = (\<lambda>s. if n \<le> length s then (Inr (take n s), drop n s)
                     else (Inl (if s = [] then EOF else UnexpectedEOF), []))"

lemma readFull_append [simp]: "length bs = n \<Longrightarrow> readFull n (bs @ rest) = (Inr bs, rest)"
  by (simp add: readFull_def)

lemma readFull_ok_iff:
  "readFull n s = (Inr bs, s') \<longleftrightarrow> s = bs @ s' \<and> length bs = n"
  by (auto simp: readFull_def split: if_splits)

lemma readFull_err_iff:
  "readFull n s = (Inl e, s') \<longleftrightarrow>
     length s < n \<and> s' = [] \<and> e = (if s = [] then EOF else UnexpectedEOF)"
  by (auto simp: readFull_def split: if_splits)

lemma consumes_readFull [consume_intros]: "consumes (readFull n)"
  by (simp add: consumes_def readFull_def suffix_drop)

lemma online_readFull [online_intros]: "online (readFull n)"
  by (auto simp: online_def readFull_def)

lemma progresses_readFull: "0 < n \<Longrightarrow> progresses (readFull n)"
  by (auto simp: progresses_def readFull_def)

section \<open>Big-endian integers\<close>

definition beU16 :: "bytes \<Rightarrow> u16" where
  "beU16 b = ucast (b ! 1) OR push_bit 8 (ucast (b ! 0))"

definition beU32 :: "bytes \<Rightarrow> u32" where
  "beU32 b = ucast (b ! 3) OR push_bit 8 (ucast (b ! 2)) OR push_bit 16 (ucast (b ! 1))
               OR push_bit 24 (ucast (b ! 0))"

definition beU64 :: "bytes \<Rightarrow> u64" where
  "beU64 b = ucast (b ! 7) OR push_bit 8 (ucast (b ! 6)) OR push_bit 16 (ucast (b ! 5))
               OR push_bit 24 (ucast (b ! 4)) OR push_bit 32 (ucast (b ! 3))
               OR push_bit 40 (ucast (b ! 2)) OR push_bit 48 (ucast (b ! 1))
               OR push_bit 56 (ucast (b ! 0))"

definition putU16 :: "u16 \<Rightarrow> bytes" where
  "putU16 v = [ucast (drop_bit 8 v), ucast v]"

definition putU32 :: "u32 \<Rightarrow> bytes" where
  "putU32 v = [ucast (drop_bit 24 v), ucast (drop_bit 16 v), ucast (drop_bit 8 v), ucast v]"

definition putU64 :: "u64 \<Rightarrow> bytes" where
  "putU64 v = [ucast (drop_bit 56 v), ucast (drop_bit 48 v), ucast (drop_bit 40 v),
               ucast (drop_bit 32 v), ucast (drop_bit 24 v), ucast (drop_bit 16 v),
               ucast (drop_bit 8 v), ucast v]"

lemma length_put [simp]: "length (putU16 v) = 2" "length (putU32 w) = 4" "length (putU64 x) = 8"
  by (simp_all add: putU16_def putU32_def putU64_def)

lemma put_neq_Nil [simp]: "putU16 v \<noteq> []" "putU32 w \<noteq> []" "putU64 x \<noteq> []"
  by (simp_all add: putU16_def putU32_def putU64_def)

text \<open>Eight more bits of a word: the step by which the shifted octets add up to it.\<close>

lemma take_bit_octet:
  "take_bit k v OR push_bit k (take_bit 8 (drop_bit k v)) = take_bit (k + 8) (v :: 'a::len word)"
  by (rule bit_word_eqI) (auto simp: bit_simps)

lemma ucast_octet:
  "LENGTH('a::len) \<ge> 8 \<Longrightarrow> (ucast (ucast (v :: 'a word) :: u8) :: 'a word) = take_bit 8 v"
  by (rule bit_word_eqI) (auto simp: bit_simps)

lemma take_bit_full: "LENGTH('a::len) \<le> k \<Longrightarrow> take_bit k (v :: 'a word) = v"
  by (rule bit_word_eqI) (auto simp: bit_simps)

lemmas octets = or.assoc [symmetric] ucast_octet take_bit_octet [of 8, simplified]
  take_bit_octet [of 16, simplified] take_bit_octet [of 24, simplified]
  take_bit_octet [of 32, simplified] take_bit_octet [of 40, simplified]
  take_bit_octet [of 48, simplified] take_bit_octet [of 56, simplified]

lemma beU16_bytes: "beU16 [a, b] = ucast b OR push_bit 8 (ucast a)"
  by (simp only: beU16_def nth_Cons_0 nth_Cons_Suc One_nat_def)

lemma beU32_bytes: "beU32 [a, b, c, d] =
    ucast d OR push_bit 8 (ucast c) OR push_bit 16 (ucast b) OR push_bit 24 (ucast a)"
  by (simp only: beU32_def nth_Cons_0 nth_Cons_Suc One_nat_def numeral_3_eq_3 numeral_2_eq_2)

lemma beU64_bytes: "beU64 [a, b, c, d, e, f, g, h] =
    ucast h OR push_bit 8 (ucast g) OR push_bit 16 (ucast f) OR push_bit 24 (ucast e)
      OR push_bit 32 (ucast d) OR push_bit 40 (ucast c) OR push_bit 48 (ucast b)
      OR push_bit 56 (ucast a)"
proof -
  have "[a, b, c, d, e, f, g, h] ! 7 = h" "[a, b, c, d, e, f, g, h] ! 6 = g"
    "[a, b, c, d, e, f, g, h] ! 5 = f" "[a, b, c, d, e, f, g, h] ! 4 = e"
    "[a, b, c, d, e, f, g, h] ! 3 = d" "[a, b, c, d, e, f, g, h] ! 2 = c"
    "[a, b, c, d, e, f, g, h] ! 1 = b" "[a, b, c, d, e, f, g, h] ! 0 = a"
    by simp_all
  then show ?thesis by (simp only: beU64_def)
qed

lemma beU16_putU16 [simp]: "beU16 (putU16 v) = v"
  by (simp add: putU16_def beU16_bytes octets take_bit_full del: push_bit_numeral_minus_1)

lemma beU32_putU32 [simp]: "beU32 (putU32 v) = v"
  by (simp only: putU32_def beU32_bytes octets) (simp add: octets take_bit_full)

lemma beU64_putU64 [simp]: "beU64 (putU64 v) = v"
  by (simp only: putU64_def beU64_bytes octets) (simp add: octets take_bit_full)

text \<open>
  \<open>binary.Read(r, binary.BigEndian, &v)\<close> fills a buffer of the size of \<open>v\<close> and decodes it;
  \<open>binary.Write(w, binary.BigEndian, v)\<close> writes that encoding.
\<close>

definition readU8 :: "u8 rd" where
  "readU8 = rbind (readFull 1) (\<lambda>b. rreturn (b ! 0))"

definition readU16 :: "u16 rd" where
  "readU16 = rbind (readFull 2) (\<lambda>b. rreturn (beU16 b))"

definition readU32 :: "u32 rd" where
  "readU32 = rbind (readFull 4) (\<lambda>b. rreturn (beU32 b))"

definition readU64 :: "u64 rd" where
  "readU64 = rbind (readFull 8) (\<lambda>b. rreturn (beU64 b))"

definition writeU8 :: "u8 \<Rightarrow> wresult" where "writeU8 v = Inr [v]"
definition writeU16 :: "u16 \<Rightarrow> wresult" where "writeU16 v = Inr (putU16 v)"
definition writeU32 :: "u32 \<Rightarrow> wresult" where "writeU32 v = Inr (putU32 v)"
definition writeU64 :: "u64 \<Rightarrow> wresult" where "writeU64 v = Inr (putU64 v)"

lemmas write_int_defs = writeU8_def writeU16_def writeU32_def writeU64_def
text \<open>
  \<open>readFloat32\<close> and \<open>readFloat64\<close>, which nothing calls; a floating-point number is its IEEE representation.
\<close>

definition readFloat32 :: "u32 rd" where
  "readFloat32 = rbind (readFull 4) (\<lambda>b. rreturn (beU32 b))"

definition readFloat64 :: "u64 rd" where
  "readFloat64 = rbind (readFull 8) (\<lambda>b. rreturn (beU64 b))"

lemmas read_int_defs = readU8_def readU16_def readU32_def readU64_def

lemma read_int_put [simp]:
  "readU8 (v # rest) = (Inr v, rest)"
  "readU16 (putU16 a @ rest) = (Inr a, rest)"
  "readU32 (putU32 b @ rest) = (Inr b, rest)"
  "readU64 (putU64 c @ rest) = (Inr c, rest)"
  by (simp_all add: read_int_defs readFull_def rbind_def)

lemma decodes_int [decode_intros]:
  "decodes readU8 (writeU8 a) a"
  "decodes readU16 (writeU16 b) b"
  "decodes readU32 (writeU32 c) c"
  "decodes readU64 (writeU64 d) d"
  by (auto simp: decodes_def write_int_defs)

lemma consumes_int [consume_intros]:
  "consumes readU8" "consumes readU16" "consumes readU32" "consumes readU64"
  unfolding read_int_defs by (intro consume_intros)+

lemma progresses_int: "progresses readU8" "progresses readU16" "progresses readU32" "progresses readU64"
  unfolding read_int_defs
  by (intro progresses_bind progresses_readFull consume_intros; simp)+

section \<open>Short and long strings\<close>

definition readShortstr :: "gostring rd" where
  "readShortstr = rbind readU8 (\<lambda>len. rbind (readFull (unat len)) rreturn)"

text \<open>
  A length above the largest \<open>int32\<close> makes \<open>readLongstr\<close> return the empty string and no error, with
  the string left unread.
\<close>

definition readLongstr :: "gostring rd" where
  "readLongstr = rbind readU32 (\<lambda>len.
     if len > drop_bit 1 (NOT 0) then rreturn []
     else rbind (readFull (unat len)) rreturn)"

definition writeShortstr :: "gostring \<Rightarrow> wresult" where
  "writeShortstr b = (let len = (of_nat (length b) :: u8)
     in wthen (writeU8 len) (Inr (take (unat len) b)))"

definition writeLongstr :: "gostring \<Rightarrow> wresult" where
  "writeLongstr b = (let len = (of_nat (length b) :: u32)
     in wthen (writeU32 len) (Inr (take (unat len) b)))"

lemma rbind_readFull_return [simp]: "rbind (readFull n) rreturn = readFull n"
  by (rule ext) (auto simp: rbind_def readFull_def)

lemma unat_of_nat_u8 [simp]: "unat (of_nat n :: u8) = n mod 256"
  by (simp add: unat_of_nat take_bit_eq_mod)

lemma unat_of_nat_u32 [simp]: "unat (of_nat n :: u32) = n mod 4294967296"
  by (simp add: unat_of_nat take_bit_eq_mod)

lemma writeShortstr_bytes:
  "writeShortstr b = Inr (of_nat (length b) # take (length b mod 256) b)"
  by (simp add: writeShortstr_def writeU8_def Let_def)

lemma writeLongstr_bytes:
  "length b < 2 ^ 32 \<Longrightarrow> writeLongstr b = Inr (putU32 (of_nat (length b)) @ b)"
  by (simp add: writeLongstr_def writeU32_def Let_def)

text \<open>What is read back is the string cut to its length modulo 256.\<close>

lemma readShortstr_writeShortstr:
  "decodes readShortstr (writeShortstr b) (take (length b mod 256) b)"
  by (rule decodesI [OF writeShortstr_bytes]) (simp add: readShortstr_def)

lemma decodes_shortstr [decode_intros]:
  "length b < 256 \<Longrightarrow> decodes readShortstr (writeShortstr b) b"
  using readShortstr_writeShortstr [of b] by simp

lemma u32_half: "len > drop_bit 1 (NOT 0) \<longleftrightarrow> 2 ^ 31 \<le> unat (len :: u32)"
proof -
  have "unat (drop_bit 1 (NOT 0) :: u32) = 2 ^ 31 - 1"
    by (simp add: unat_drop_bit_eq mask_eq_exp_minus_1)
  then show ?thesis by (simp add: word_less_nat_alt) linarith
qed

lemma readLongstr_put:
  assumes "length b < 2 ^ 31"
  shows "readLongstr (putU32 (of_nat (length b)) @ b @ rest) = (Inr b, rest)"
proof -
  have "\<not> ((of_nat (length b) :: u32) > drop_bit 1 (NOT 0))"
    using assms unfolding u32_half by simp
  then show ?thesis using assms by (simp add: readLongstr_def)
qed

lemma decodes_longstr [decode_intros]:
  assumes "length b < 2 ^ 31"
  shows "decodes readLongstr (writeLongstr b) b"
proof (rule decodesI)
  show "writeLongstr b = Inr (putU32 (of_nat (length b)) @ b)"
    using assms by (intro writeLongstr_bytes) simp
  show "readLongstr ((putU32 (of_nat (length b)) @ b) @ rest) = (Inr b, rest)" for rest
    using readLongstr_put [OF assms] by simp
qed

lemma consumes_strings [consume_intros]: "consumes readShortstr" "consumes readLongstr"
  unfolding readShortstr_def readLongstr_def by (intro consume_intros)+

lemma progresses_shortstr: "progresses readShortstr"
  unfolding readShortstr_def by (intro progresses_bind progresses_int consume_intros)

lemma progresses_longstr: "progresses readLongstr"
  unfolding readLongstr_def by (intro progresses_bind progresses_int consume_intros)

lemma readU8_ok_iff: "readU8 s = (Inr v, s') \<longleftrightarrow> s = v # s'"
  by (cases s) (auto simp: readU8_def readFull_def rbind_def)

lemma readU32_length: "readU32 s = (Inr v, s') \<Longrightarrow> length s = length s' + 4"
  by (auto simp: readU32_def rbind_Inr_iff readFull_ok_iff)

lemma readShortstr_ok_iff:
  "readShortstr s = (Inr b, s') \<longleftrightarrow> (\<exists>len. s = len # b @ s' \<and> length b = unat len)"
  by (auto simp: readShortstr_def rbind_Inr_iff readU8_ok_iff readFull_ok_iff)

lemma readShortstr_length: "readShortstr s = (Inr b, s') \<Longrightarrow> length b < 256"
  by (auto simp: readShortstr_ok_iff)

lemma readLongstr_input:
  "readLongstr s = (Inr b, s') \<Longrightarrow> length b + 4 + length s' \<le> length s"
  by (auto simp: readLongstr_def rbind_Inr_iff readFull_ok_iff dest!: readU32_length split: if_splits)

section \<open>Decimals and timestamps\<close>

record decimal =
  Scale :: u8
  Value :: u32

definition readDecimal :: "decimal rd" where
  "readDecimal = rbind readU8 (\<lambda>sc. rbind readU32 (\<lambda>v. rreturn \<lparr> Scale = sc, Value = v \<rparr>))"

text \<open>
  A \<open>time.Time\<close> without a monotonic reading: Unix seconds, nanoseconds, and its location, where
  \<open>None\<close> is the nil pointer of a UTC time and \<open>Some 0\<close> the local zone.  \<open>time.Unix(sec, 0)\<close> gives a
  local time, and the zero \<open>Time\<close> is the first of January of year 1, UTC.
\<close>

record gotime =
  t_sec :: u64
  t_nsec :: u32
  t_loc :: "nat option"

definition zeroTime :: gotime where
  "zeroTime = \<lparr> t_sec = - 62135596800, t_nsec = 0, t_loc = None \<rparr>"

definition timeUnix :: "u64 \<Rightarrow> gotime" where
  "timeUnix sec = \<lparr> t_sec = sec, t_nsec = 0, t_loc = Some 0 \<rparr>"

definition readTimestamp :: "gotime rd" where
  "readTimestamp = rbind readU64 (\<lambda>sec. rreturn (timeUnix sec))"

definition writeTimestamp :: "gotime \<Rightarrow> wresult" where
  "writeTimestamp t = writeU64 (t_sec t)"

lemma timeUnix_neq_zeroTime [simp]: "timeUnix sec \<noteq> zeroTime"
  by (simp add: timeUnix_def zeroTime_def)

lemma decodes_timestamp [decode_intros]:
  "decodes readTimestamp (writeTimestamp t) (timeUnix (t_sec t))"
  by (auto simp: decodes_def readTimestamp_def writeTimestamp_def writeU64_def)

lemma consumes_misc [consume_intros]: "consumes readDecimal" "consumes readTimestamp"
  unfolding readDecimal_def readTimestamp_def by (intro consume_intros)+

end
