(* ===== verification/Field.thy ===== *)
theory Field
  imports Wire "HOL-Library.AList"
begin

text \<open>
  Table fields: the \<open>Table\<close> type and \<open>validateField\<close> of \<open>types.go\<close>, \<open>readField\<close>, \<open>readTable\<close> and
  \<open>readArray\<close> of \<open>read.go\<close>, \<open>writeField\<close> and \<open>writeTable\<close> of \<open>write.go\<close>.  The readers call one
  another, so they are written with fuel first; \<open>readField_eq\<close> and its companions are the equations
  of the source, without fuel, which every later proof uses.
\<close>

section \<open>Field values\<close>

text \<open>
  The dynamic types an \<open>interface{}\<close> value of a table can have.  Integers keep their width (\<open>int\<close> is
  64 bits wide), floats are their IEEE bit patterns, and \<open>FOther\<close> is a value of any other Go type,
  of which only the type name is kept.  A \<open>Table\<close> is a Go map: the list holds its entries in the
  order in which \<open>range\<close> happens to visit them, and a nil map is the empty one, as no code of the
  package tells the two apart.
\<close>

datatype (plugins only: code size) field =
    FNil
  | FBool bool
  | FByte u8
  | FInt u64
  | FInt16 u16
  | FInt32 u32
  | FInt64 u64
  | FFloat32 u32
  | FFloat64 u64
  | FDecimal decimal
  | FString gostring
  | FBytes bytes
  | FArray "field list"
  | FTable "(gostring \<times> field) list"
  | FTime gotime
  | FOther string

type_synonym table = "(gostring \<times> field) list"

section \<open>Validation\<close>

datatype validation_error =
    Unsupported string
  | InArray validation_error
  | InTable gostring validation_error

fun validateField :: "field \<Rightarrow> validation_error option"
  and validateFields :: "field list \<Rightarrow> validation_error option"
  and validateEntries :: "table \<Rightarrow> validation_error option" where
  "validateField (FArray vs) = validateFields vs"
| "validateField (FTable t) = validateEntries t"
| "validateField (FOther ty) = Some (Unsupported ty)"
| "validateField _ = None"
| "validateFields [] = None"
| "validateFields (v # vs) =
     (case validateField v of Some e \<Rightarrow> Some (InArray e) | None \<Rightarrow> validateFields vs)"
| "validateEntries [] = None"
| "validateEntries ((k, v) # t) =
     (case validateField v of Some e \<Rightarrow> Some (InTable k e) | None \<Rightarrow> validateEntries t)"

definition Validate :: "table \<Rightarrow> validation_error option" where
  "Validate t = validateField (FTable t)"

section \<open>Writing\<close>

definition longstrOf :: "wresult \<Rightarrow> wresult" where
  "longstrOf w = (case w of Inl e \<Rightarrow> Inl e | Inr buf \<Rightarrow> writeLongstr buf)"

lemma longstrOf_simps [simp]: "longstrOf (Inl e) = Inl e" "longstrOf (Inr b) = writeLongstr b"
  by (simp_all add: longstrOf_def)

fun writeField :: "field \<Rightarrow> wresult"
  and writeFields :: "field list \<Rightarrow> wresult"
  and writeEntries :: "table \<Rightarrow> wresult" where
  "writeField (FBool v) = Inr [0x74, if v then 1 else 0]"
| "writeField (FByte v) = Inr [0x62, v]"
| "writeField (FInt16 v) = Inr (0x73 # putU16 v)"
| "writeField (FInt v) = Inr (0x49 # putU32 (ucast v))"
| "writeField (FInt32 v) = Inr (0x49 # putU32 v)"
| "writeField (FInt64 v) = Inr (0x6C # putU64 v)"
| "writeField (FFloat32 v) = Inr (0x66 # putU32 v)"
| "writeField (FFloat64 v) = Inr (0x64 # putU64 v)"
| "writeField (FDecimal v) = Inr (0x44 # Scale v # putU32 (Value v))"
| "writeField (FString v) = Inr (0x53 # putU32 (of_nat (length v)) @ v)"
| "writeField (FArray v) = (case writeFields v of Inl e \<Rightarrow> Inl e
     | Inr sec \<Rightarrow> Inr (0x41 # putU32 (of_nat (length sec)) @ sec))"
| "writeField (FTime v) = Inr (0x54 # putU64 (t_sec v))"
| "writeField (FTable v) = wthen (Inr [0x46]) (longstrOf (writeEntries v))"
| "writeField (FBytes v) = Inr (0x78 # putU32 (of_nat (length v)) @ v)"
| "writeField FNil = Inr [0x56]"
| "writeField (FOther ty) = Inl ErrFieldType"
| "writeFields [] = Inr []"
| "writeFields (v # vs) = wthen (writeField v) (writeFields vs)"
| "writeEntries [] = Inr []"
| "writeEntries ((key, val) # t) =
     wthen (writeShortstr key) (wthen (writeField val) (writeEntries t))"

definition writeTable :: "table \<Rightarrow> wresult" where
  "writeTable t = longstrOf (writeEntries t)"

lemma longstrOf_Inl_iff [simp]: "longstrOf w = Inl e \<longleftrightarrow> w = Inl e"
  by (cases w) (simp_all add: writeLongstr_def writeU32_def Let_def)

lemma writeShortstr_neq_Inl [simp]: "writeShortstr k \<noteq> Inl e"
  by (simp add: writeShortstr_bytes)

text \<open>What \<open>Validate\<close> accepts is exactly what the writer can encode.\<close>

lemma validate_write:
  "validateField f = None \<longleftrightarrow> (\<exists>bs. writeField f = Inr bs)"
  "validateFields fs = None \<longleftrightarrow> (\<exists>bs. writeFields fs = Inr bs)"
  "validateEntries t = None \<longleftrightarrow> (\<exists>bs. writeEntries t = Inr bs)"
  by (induction f and fs and t rule: writeField_writeFields_writeEntries.induct)
    (auto simp: wthen_Inr_iff longstrOf_def writeLongstr_def writeShortstr_bytes writeU32_def Let_def
      split: sum.splits option.splits)

lemma write_errors:
  "writeField f = Inl e \<Longrightarrow> e = ErrFieldType"
  "writeFields fs = Inl e \<Longrightarrow> e = ErrFieldType"
  "writeEntries t = Inl e \<Longrightarrow> e = ErrFieldType"
  by (induction f and fs and t rule: writeField_writeFields_writeEntries.induct)
    (auto simp: wthen_Inl_iff split: sum.splits)

section \<open>Reading, with fuel\<close>

text \<open>The \<open>switch typ\<close> of \<open>readField\<close>, over the readers of its two recursive cases.\<close>

definition readFieldBody :: "field list rd \<Rightarrow> table rd \<Rightarrow> u8 \<Rightarrow> field rd" where
  "readFieldBody readArr readTab typ =
    (if typ = 0x74 then rbind readU8 (\<lambda>value. rreturn (FBool (value \<noteq> 0)))
     else if typ = 0x62 then rbind (readFull 1) (\<lambda>value. rreturn (FByte (value ! 0)))
     else if typ = 0x73 then rbind readU16 (\<lambda>value. rreturn (FInt16 value))
     else if typ = 0x49 then rbind readU32 (\<lambda>value. rreturn (FInt32 value))
     else if typ = 0x6C then rbind readU64 (\<lambda>value. rreturn (FInt64 value))
     else if typ = 0x66 then rbind readU32 (\<lambda>value. rreturn (FFloat32 value))
     else if typ = 0x64 then rbind readU64 (\<lambda>value. rreturn (FFloat64 value))
     else if typ = 0x44 then rbind readDecimal (\<lambda>value. rreturn (FDecimal value))
     else if typ = 0x53 then rbind readLongstr (\<lambda>value. rreturn (FString value))
     else if typ = 0x41 then rbind readArr (\<lambda>value. rreturn (FArray value))
     else if typ = 0x54 then rbind readTimestamp (\<lambda>value. rreturn (FTime value))
     else if typ = 0x46 then rbind readTab (\<lambda>value. rreturn (FTable value))
     else if typ = 0x78 then rbind readU32 (\<lambda>len.
       if sint len < 0 then rfail Panic
       else rbind (readFull (unat len)) (\<lambda>value. rreturn (FBytes value)))
     else if typ = 0x56 then rreturn FNil
     else rfail ErrSyntax)"

function (sequential) readFieldF :: "nat \<Rightarrow> field rd"
  and readTableF :: "nat \<Rightarrow> table rd"
  and tableLoopF :: "nat \<Rightarrow> table \<Rightarrow> table rd"
  and readArrayF :: "nat \<Rightarrow> field list rd"
  and arrayLoopF :: "nat \<Rightarrow> field list \<Rightarrow> field list rd" where
  "readFieldF 0 r = (Inl Diverged, r)"
| "readFieldF (Suc n) r = rbind readU8 (readFieldBody (readArrayF n) (readTableF n)) r"
| "readTableF 0 r = (Inl Diverged, r)"
| "readTableF (Suc n) r = rbind readLongstr (\<lambda>str rest. (fst (tableLoopF n [] str), rest)) r"
| "tableLoopF 0 table nested = (Inl Diverged, nested)"
| "tableLoopF (Suc n) table nested =
     (if nested = [] then (Inr table, nested)
      else rbind readShortstr (\<lambda>key. rbind (readFieldF n) (\<lambda>value.
             tableLoopF n (AList.update key value table))) nested)"
| "readArrayF 0 r = (Inl Diverged, r)"
| "readArrayF (Suc n) r = rbind readU32 (\<lambda>size rest.
     (case arrayLoopF n [] (take (unat size) rest) of
        (res, lim) \<Rightarrow> (res, lim @ drop (unat size) rest))) r"
| "arrayLoopF 0 arr lim = (Inl Diverged, lim)"
| "arrayLoopF (Suc n) arr lim =
     (case readFieldF n lim of
        (Inl e, lim') \<Rightarrow> (if e = EOF then (Inr arr, lim') else (Inl e, lim'))
      | (Inr field, lim') \<Rightarrow> arrayLoopF n (arr @ [field]) lim')"
  by pat_completeness auto
termination
  by (relation "measure (\<lambda>x. case x of
        Inl (Inl (n, _)) \<Rightarrow> n | Inl (Inr (n, _)) \<Rightarrow> n | Inr (Inl (n, _)) \<Rightarrow> n
      | Inr (Inr (Inl (n, _))) \<Rightarrow> n | Inr (Inr (Inr (n, _))) \<Rightarrow> n)") auto

end
