(* ===== verification/FieldRead.thy ===== *)
theory FieldRead
  imports Field
begin

text \<open>
  The field readers without fuel: enough fuel always gives the same answer, so \<open>readField\<close>,
  \<open>readTable\<close>, \<open>readArray\<close> and their two loops satisfy the equations of \<open>read.go\<close>; they only ever
  drop a prefix of their input, and \<open>readField\<close> drops at least one byte.
\<close>

section \<open>Consumption\<close>

lemmas fieldF_zero = readFieldF.simps(1) readTableF.simps(1) tableLoopF.simps(1)
  readArrayF.simps(1) arrayLoopF.simps(1)
lemmas fieldF_Suc = readFieldF.simps(2) readTableF.simps(2) tableLoopF.simps(2)
  readArrayF.simps(2) arrayLoopF.simps(2)

declare fieldF_Suc [simp del]

lemma consumes_fieldBody [consume_intros]:
  "consumes ra \<Longrightarrow> consumes rt \<Longrightarrow> consumes (readFieldBody ra rt typ)"
  unfolding readFieldBody_def by (intro consume_intros)

lemma suffix_take_rest:
  assumes "suffix lim (take n rest)"
  shows "suffix (lim @ drop n rest) rest"
proof -
  from assms obtain p where "take n rest = p @ lim" by (auto elim: suffixE)
  then have "rest = p @ (lim @ drop n rest)" by (metis append_take_drop_id append.assoc)
  then show ?thesis by (rule suffixI)
qed

lemma consumes_discard: "consumes m \<Longrightarrow> (\<And>a s. snd (k a s) = s) \<Longrightarrow> consumes (rbind m k)"
  by (rule consumes_bind) (simp_all add: consumes_def)

lemma consumes_readArrayF_step:
  assumes "consumes (arrayLoopF n [])"
  shows "consumes (readArrayF (Suc n))"
proof -
  have "consumes (\<lambda>rest. case arrayLoopF n [] (take (unat size) rest) of
        (res, lim) \<Rightarrow> (res, lim @ drop (unat size) rest))" for size :: u32
    unfolding consumes_def
    using consumesD [OF assms] by (auto intro!: suffix_take_rest split: prod.splits)
  then have "consumes (rbind readU32 (\<lambda>size rest. case arrayLoopF n [] (take (unat size) rest) of
        (res, lim) \<Rightarrow> (res, lim @ drop (unat size) rest)))"
    by (intro consumes_bind consume_intros)
  moreover have "readArrayF (Suc n) = rbind readU32 (\<lambda>size rest.
      case arrayLoopF n [] (take (unat size) rest) of
        (res, lim) \<Rightarrow> (res, lim @ drop (unat size) rest))"
    by (rule ext) (simp add: fieldF_Suc)
  ultimately show ?thesis by simp
qed

lemma consumes_arrayLoopF_step:
  assumes "consumes (readFieldF n)" and "\<And>arr. consumes (arrayLoopF n arr)"
  shows "consumes (arrayLoopF (Suc n) arr)"
  unfolding consumes_def
proof
  fix s
  obtain x s' where x: "readFieldF n s = (x, s')" by (cases "readFieldF n s")
  then have s': "suffix s' s" using assms(1) by (rule consumesD [rotated])
  have "suffix (snd (arrayLoopF n (arr @ [v]) s')) s'" for v
    using assms(2) by (simp add: consumes_def)
  with s' show "suffix (snd (arrayLoopF (Suc n) arr s)) s"
    by (auto simp: fieldF_Suc x split: sum.splits intro: suffix_order.trans)
qed

lemma consumes_tableLoopF_step:
  assumes "consumes (readFieldF n)" and "\<And>t. consumes (tableLoopF n t)"
  shows "consumes (tableLoopF (Suc n) t)"
  unfolding consumes_def
proof
  fix s
  have "consumes (rbind readShortstr (\<lambda>key. rbind (readFieldF n) (\<lambda>value.
           tableLoopF n (AList.update key value t))))"
    by (intro consume_intros assms)
  then show "suffix (snd (tableLoopF (Suc n) t s)) s"
    by (simp add: fieldF_Suc consumes_def)
qed

lemma consumes_fieldF_all:
  "consumes (readFieldF n) \<and> consumes (readTableF n) \<and> (\<forall>t. consumes (tableLoopF n t)) \<and>
   consumes (readArrayF n) \<and> (\<forall>arr. consumes (arrayLoopF n arr))"
proof (induction n)
  case 0
  show ?case by (simp add: consumes_def)
next
  case (Suc n)
  have "readFieldF (Suc n) = rbind readU8 (readFieldBody (readArrayF n) (readTableF n))"
    by (rule ext) (simp add: fieldF_Suc)
  moreover have "readTableF (Suc n) = rbind readLongstr (\<lambda>str rest. (fst (tableLoopF n [] str), rest))"
    by (rule ext) (simp add: fieldF_Suc)
  ultimately show ?case
    using Suc by (simp add: consumes_discard consume_intros consumes_readArrayF_step
        consumes_arrayLoopF_step consumes_tableLoopF_step)
qed

lemma consumes_fieldF:
  "consumes (readFieldF n)" "consumes (readTableF n)" "consumes (tableLoopF n t)"
  "consumes (readArrayF n)" "consumes (arrayLoopF n arr)"
  using consumes_fieldF_all [of n] by simp_all

lemma readFieldF_progress:
  assumes "readFieldF n s = (Inr v, s')"
  shows "length s' < length s"
proof (cases n)
  case 0
  then show ?thesis using assms by simp
next
  case (Suc m)
  have "consumes (readFieldBody (readArrayF m) (readTableF m) b)" for b
    by (intro consume_intros consumes_fieldF)
  then show ?thesis
    using assms Suc
    by (force simp: fieldF_Suc rbind_Inr_iff readU8_ok_iff dest: consumes_length)
qed

section \<open>Enough fuel\<close>

lemma rbind_cong_at:
  "(\<And>a s'. m s = (Inr a, s') \<Longrightarrow> k a s' = k' a s') \<Longrightarrow> rbind m k s = rbind m k' s"
  by (cases "m s"; cases "fst (m s)") (auto simp: rbind_def)

lemma rbind_cong_left: "m s = m' s \<Longrightarrow> rbind m k s = rbind m' k s"
  by (simp add: rbind_def)

lemma readFieldBody_cong:
  assumes "ra s = ra' s" and "rt s = rt' s"
  shows "readFieldBody ra rt typ s = readFieldBody ra' rt' typ s"
proof -
  have "rbind ra k s = rbind ra' k s" for k :: "field list \<Rightarrow> field rd"
    using assms(1) by (rule rbind_cong_left)
  moreover have "rbind rt k s = rbind rt' k s" for k :: "table \<Rightarrow> field rd"
    using assms(2) by (rule rbind_cong_left)
  ultimately show ?thesis by (simp add: readFieldBody_def)
qed

lemma fieldF_stable:
  "2 * length s + 1 \<le> n \<Longrightarrow> readFieldF (Suc n) s = readFieldF n s"
  "2 * length s + 2 \<le> n \<Longrightarrow> readTableF (Suc n) s = readTableF n s"
  "2 * length s + 2 \<le> n \<Longrightarrow> tableLoopF (Suc n) t s = tableLoopF n t s"
  "2 * length s + 2 \<le> n \<Longrightarrow> readArrayF (Suc n) s = readArrayF n s"
  "2 * length s + 2 \<le> n \<Longrightarrow> arrayLoopF (Suc n) arr s = arrayLoopF n arr s"
proof (induction n arbitrary: s t arr)
  case 0
  { case 1 then show ?case by simp
  next case 2 then show ?case by simp
  next case 3 then show ?case by simp
  next case 4 then show ?case by simp
  next case 5 then show ?case by simp }
next
  case (Suc n)
  { case 1
    show ?case
      unfolding fieldF_Suc(1)
      by (rule rbind_cong_at, rule readFieldBody_cong)
        (use 1 in \<open>auto simp: readU8_ok_iff intro!: Suc.IH\<close>)
  next
    case 2
    show ?case
      unfolding fieldF_Suc(2)
      by (rule rbind_cong_at) (use 2 in \<open>auto dest!: readLongstr_input simp: Suc.IH(3)\<close>)
  next
    case 3
    have "rbind readShortstr (\<lambda>key. rbind (readFieldF (Suc n)) (\<lambda>v.
              tableLoopF (Suc n) (AList.update key v t))) s
        = rbind readShortstr (\<lambda>key. rbind (readFieldF n) (\<lambda>v.
              tableLoopF n (AList.update key v t))) s"
    proof (rule rbind_cong_at)
      fix key s1
      assume "readShortstr s = (Inr key, s1)"
      then have l1: "length s1 + 1 \<le> length s" by (auto simp: readShortstr_ok_iff)
      have *: "tableLoopF (Suc n) (AList.update key v t) s2 = tableLoopF n (AList.update key v t) s2"
        if "readFieldF n s1 = (Inr v, s2)" for v s2
        using readFieldF_progress [OF that] l1 3 by (intro Suc.IH) simp
      have f: "readFieldF (Suc n) s1 = readFieldF n s1"
        using l1 3 by (intro Suc.IH) simp
      have "rbind (readFieldF (Suc n)) k s1 = rbind (readFieldF n) k s1"
        for k :: "field \<Rightarrow> table rd"
        using f by (rule rbind_cong_left)
      moreover have "rbind (readFieldF n) (\<lambda>v. tableLoopF (Suc n) (AList.update key v t)) s1
          = rbind (readFieldF n) (\<lambda>v. tableLoopF n (AList.update key v t)) s1"
        by (rule rbind_cong_at) (rule *)
      ultimately show "rbind (readFieldF (Suc n)) (\<lambda>v. tableLoopF (Suc n) (AList.update key v t)) s1
          = rbind (readFieldF n) (\<lambda>v. tableLoopF n (AList.update key v t)) s1"
        by simp
    qed
    then show ?case by (simp only: fieldF_Suc(3))
  next
    case 4
    show ?case
      unfolding fieldF_Suc(4)
    proof (rule rbind_cong_at)
      fix size :: u32 and rest
      assume "readU32 s = (Inr size, rest)"
      then have "length rest + 4 = length s" by (auto dest!: readU32_length)
      then have "arrayLoopF (Suc n) [] (take (unat size) rest) = arrayLoopF n [] (take (unat size) rest)"
        using 4 by (intro Suc.IH) simp
      then show "(case arrayLoopF (Suc n) [] (take (unat size) rest) of
           (res, lim) \<Rightarrow> (res, lim @ drop (unat size) rest)) =
          (case arrayLoopF n [] (take (unat size) rest) of
           (res, lim) \<Rightarrow> (res, lim @ drop (unat size) rest))" by simp
    qed
  next
    case 5
    then have f: "readFieldF (Suc n) s = readFieldF n s"
      by (intro Suc.IH) simp
    have "arrayLoopF (Suc n) (arr @ [v]) s' = arrayLoopF n (arr @ [v]) s'"
      if "readFieldF n s = (Inr v, s')" for v s'
      using readFieldF_progress [OF that] 5 by (intro Suc.IH) simp
    then show ?case
      unfolding fieldF_Suc(5) f by (auto split: prod.splits sum.splits) }
qed

section \<open>The readers of the source\<close>

text \<open>Two units of fuel for each byte of input, and two more, are enough.\<close>

definition enough :: "bytes \<Rightarrow> nat" where
  "enough s = 2 * length s + 2"

definition readField :: "field rd" where "readField s = readFieldF (enough s) s"
definition readTable :: "table rd" where "readTable s = readTableF (enough s) s"
definition tableLoop :: "table \<Rightarrow> table rd" where "tableLoop t s = tableLoopF (enough s) t s"
definition readArray :: "field list rd" where "readArray s = readArrayF (enough s) s"
definition arrayLoop :: "field list \<Rightarrow> field list rd" where
  "arrayLoop arr s = arrayLoopF (enough s) arr s"

lemma fuel_lift:
  assumes "\<And>n. N \<le> n \<Longrightarrow> f (Suc n) = f n" and "N \<le> n"
  shows "f n = f (N :: nat)"
  using assms(2) by (induction rule: dec_induct) (simp_all add: assms(1))

lemma enough_fuel:
  "2 * length s + 1 \<le> n \<Longrightarrow> readFieldF n s = readField s"
  "2 * length s + 2 \<le> n \<Longrightarrow> readTableF n s = readTable s"
  "2 * length s + 2 \<le> n \<Longrightarrow> tableLoopF n t s = tableLoop t s"
  "2 * length s + 2 \<le> n \<Longrightarrow> readArrayF n s = readArray s"
  "2 * length s + 2 \<le> n \<Longrightarrow> arrayLoopF n arr s = arrayLoop arr s"
proof -
  assume n: "2 * length s + 1 \<le> n"
  have "readFieldF n s = readFieldF (2 * length s + 1) s"
    using n by (rule fuel_lift [rotated]) (rule fieldF_stable)
  moreover have "readField s = readFieldF (2 * length s + 1) s"
    unfolding readField_def by (rule fuel_lift) (auto simp: enough_def fieldF_stable)
  ultimately show "readFieldF n s = readField s" by simp
next
  assume n: "2 * length s + 2 \<le> n"
  show "readTableF n s = readTable s"
    unfolding readTable_def enough_def
    using n by (rule fuel_lift [rotated]) (rule fieldF_stable)
  show "tableLoopF n t s = tableLoop t s"
    unfolding tableLoop_def enough_def
    using n by (rule fuel_lift [rotated]) (rule fieldF_stable)
  show "readArrayF n s = readArray s"
    unfolding readArray_def enough_def
    using n by (rule fuel_lift [rotated]) (rule fieldF_stable)
  show "arrayLoopF n arr s = arrayLoop arr s"
    unfolding arrayLoop_def enough_def
    using n by (rule fuel_lift [rotated]) (rule fieldF_stable)
qed

lemma enough_eqs:
  "readField s = readFieldF (Suc (2 * length s + 2)) s"
  "readTable s = readTableF (Suc (2 * length s + 1)) s"
  "tableLoop t s = tableLoopF (Suc (2 * length s + 1)) t s"
  "readArray s = readArrayF (Suc (2 * length s + 1)) s"
  "arrayLoop arr s = arrayLoopF (Suc (2 * length s + 1)) arr s"
  by (rule enough_fuel [symmetric], simp)+

lemma readField_eq: "readField s = rbind readU8 (readFieldBody readArray readTable) s"
  unfolding enough_eqs(1) fieldF_Suc(1)
  by (rule rbind_cong_at, rule readFieldBody_cong)
    (auto simp: readU8_ok_iff intro!: enough_fuel)

lemma readTable_eq:
  "readTable s = rbind readLongstr (\<lambda>str rest. (fst (tableLoop [] str), rest)) s"
  unfolding enough_eqs(2) fieldF_Suc(2)
  by (rule rbind_cong_at) (auto dest!: readLongstr_input simp: enough_fuel(3))

lemma tableLoop_eq:
  "tableLoop t s = (if s = [] then (Inr t, s)
     else rbind readShortstr (\<lambda>key. rbind readField (\<lambda>value.
            tableLoop (AList.update key value t))) s)"
proof -
  let ?n = "2 * length s + 1"
  have "rbind readShortstr (\<lambda>key. rbind (readFieldF ?n) (\<lambda>v. tableLoopF ?n (AList.update key v t))) s
      = rbind readShortstr (\<lambda>key. rbind readField (\<lambda>v. tableLoop (AList.update key v t))) s"
  proof (rule rbind_cong_at)
    fix key s1
    assume "readShortstr s = (Inr key, s1)"
    then have l1: "length s1 + 1 \<le> length s" by (auto simp: readShortstr_ok_iff)
    then have f: "readFieldF ?n s1 = readField s1"
      by (intro enough_fuel) simp
    have *: "tableLoopF ?n (AList.update key v t) s2 = tableLoop (AList.update key v t) s2"
      if "readField s1 = (Inr v, s2)" for v s2
      using readFieldF_progress [of "enough s1" s1 v s2] that l1
      by (intro enough_fuel) (simp add: readField_def)
    have "rbind (readFieldF ?n) k s1 = rbind readField k s1" for k :: "field \<Rightarrow> table rd"
      using f by (rule rbind_cong_left)
    moreover have "rbind readField (\<lambda>v. tableLoopF ?n (AList.update key v t)) s1
        = rbind readField (\<lambda>v. tableLoop (AList.update key v t)) s1"
      by (rule rbind_cong_at) (rule *)
    ultimately show "rbind (readFieldF ?n) (\<lambda>v. tableLoopF ?n (AList.update key v t)) s1
        = rbind readField (\<lambda>v. tableLoop (AList.update key v t)) s1"
      by simp
  qed
  then show ?thesis by (simp only: enough_eqs(3) fieldF_Suc(3))
qed

lemma readArray_eq:
  "readArray s = rbind readU32 (\<lambda>size rest.
     (case arrayLoop [] (take (unat size) rest) of
        (res, lim) \<Rightarrow> (res, lim @ drop (unat size) rest))) s"
  unfolding enough_eqs(4) fieldF_Suc(4)
  by (rule rbind_cong_at) (auto dest!: readU32_length simp: enough_fuel(5))

lemma arrayLoop_eq:
  "arrayLoop arr s =
     (case readField s of
        (Inl e, s') \<Rightarrow> (if e = EOF then (Inr arr, s') else (Inl e, s'))
      | (Inr field, s') \<Rightarrow> arrayLoop (arr @ [field]) s')"
proof -
  let ?n = "2 * length s + 1"
  have f: "readFieldF ?n s = readField s" by (rule enough_fuel) simp
  have "arrayLoopF ?n (arr @ [v]) s' = arrayLoop (arr @ [v]) s'"
    if "readField s = (Inr v, s')" for v s'
    using readFieldF_progress [of "enough s" s v s'] that
    by (intro enough_fuel) (simp add: readField_def)
  then show ?thesis
    unfolding enough_eqs(5) fieldF_Suc(5) f by (auto split: prod.splits sum.splits)
qed

lemma consumes_field [consume_intros]:
  "consumes readField" "consumes readTable" "consumes (tableLoop t)"
  "consumes readArray" "consumes (arrayLoop arr)"
  using consumes_fieldF
  by (simp_all add: consumes_def readField_def readTable_def tableLoop_def readArray_def arrayLoop_def)

lemma readField_progress: "readField s = (Inr v, s') \<Longrightarrow> length s' < length s"
  by (simp add: readField_def readFieldF_progress)

lemma readField_nil [simp]: "readField [] = (Inl EOF, [])"
  by (simp add: readField_eq readU8_def readFull_def rbind_def)

section \<open>The fuel never runs out\<close>

lemma scalar_not_diverged [simp]:
  "fst (readFull n s) \<noteq> Inl Diverged" "fst (readU8 s) \<noteq> Inl Diverged"
  "fst (readU16 s) \<noteq> Inl Diverged" "fst (readU32 s) \<noteq> Inl Diverged"
  "fst (readU64 s) \<noteq> Inl Diverged" "fst (readShortstr s) \<noteq> Inl Diverged"
  "fst (readLongstr s) \<noteq> Inl Diverged" "fst (readDecimal s) \<noteq> Inl Diverged"
  "fst (readTimestamp s) \<noteq> Inl Diverged"
  by (auto simp: readFull_def read_int_defs readShortstr_def readLongstr_def readDecimal_def
      readTimestamp_def rbind_def split: prod.splits sum.splits if_splits)

lemma rbind_not_diverged:
  "fst (m s) \<noteq> Inl Diverged \<Longrightarrow> (\<And>a s'. m s = (Inr a, s') \<Longrightarrow> fst (k a s') \<noteq> Inl Diverged) \<Longrightarrow>
   fst (rbind m k s) \<noteq> Inl Diverged"
  by (cases rule: rbind_cases [of m s k]) auto

lemma fieldBody_not_diverged:
  assumes "fst (ra s) \<noteq> Inl Diverged" "fst (rt s) \<noteq> Inl Diverged"
  shows "fst (readFieldBody ra rt b s) \<noteq> Inl Diverged"
  using assms unfolding readFieldBody_def
  by (simp add: rbind_not_diverged)

lemma field_not_diverged:
  "fst (readField s) \<noteq> Inl Diverged \<and> fst (tableLoop t s) \<noteq> Inl Diverged \<and>
   fst (arrayLoop arr s) \<noteq> Inl Diverged"
proof (induction "length s" arbitrary: s t arr rule: less_induct)
  case less
  have table: "fst (readTable s') \<noteq> Inl Diverged" if "length s' < length s" for s'
  proof -
    have "fst (tableLoop [] str) \<noteq> Inl Diverged" if "readLongstr s' = (Inr str, rest)" for str rest
      using readLongstr_input [OF that] \<open>length s' < length s\<close> less [of str] by simp
    then show ?thesis
      unfolding readTable_eq by (intro rbind_not_diverged) simp_all
  qed
  have array: "fst (readArray s') \<noteq> Inl Diverged" if "length s' < length s" for s'
  proof -
    have "fst (arrayLoop [] (take (unat n) rest)) \<noteq> Inl Diverged"
      if "readU32 s' = (Inr n, rest)" for n :: u32 and rest
      using readU32_length [OF that] \<open>length s' < length s\<close> less [of "take (unat n) rest"] by simp
    then show ?thesis
      unfolding readArray_eq by (intro rbind_not_diverged) (auto split: prod.splits)
  qed
  have field: "fst (readField s) \<noteq> Inl Diverged"
    unfolding readField_eq
    by (intro rbind_not_diverged fieldBody_not_diverged table array) (auto simp: readU8_ok_iff)
  moreover have "fst (tableLoop t s) \<noteq> Inl Diverged"
  proof (cases "s = []")
    case True
    then show ?thesis by (simp add: tableLoop_eq)
  next
    case False
    have "fst (readField s1) \<noteq> Inl Diverged" if "readShortstr s = (Inr key, s1)" for key s1
      using that less [of s1] by (auto simp: readShortstr_ok_iff)
    moreover have "fst (tableLoop u s2) \<noteq> Inl Diverged"
      if "readShortstr s = (Inr key, s1)" "readField s1 = (Inr v, s2)" for key s1 v s2 u
      using that less [of s2] readField_progress [of s1 v s2] by (auto simp: readShortstr_ok_iff)
    ultimately show ?thesis
      using False by (simp add: tableLoop_eq [of t s] rbind_not_diverged)
  qed
  moreover have "fst (arrayLoop arr s) \<noteq> Inl Diverged"
  proof -
    have "fst (arrayLoop (arr @ [v]) s') \<noteq> Inl Diverged" if "readField s = (Inr v, s')" for v s'
      using less [of s'] readField_progress [OF that] by simp
    then show ?thesis
      using field by (subst arrayLoop_eq) (auto split: prod.splits sum.splits)
  qed
  ultimately show ?case by blast
qed

lemma readTable_not_diverged [simp]: "fst (readTable s) \<noteq> Inl Diverged"
  unfolding readTable_eq by (intro rbind_not_diverged) (simp_all add: field_not_diverged)

lemma readField_not_diverged [simp]: "fst (readField s) \<noteq> Inl Diverged"
  using field_not_diverged by blast

lemma answers_readers [answer_intros]:
  "answers (readFull n)" "answers readU8" "answers readU16" "answers readU32" "answers readU64"
  "answers readShortstr" "answers readLongstr" "answers readDecimal" "answers readTimestamp"
  "answers readTable" "answers readField"
  by (simp_all add: answers_def)

text \<open>
  A table is read from the long string around it, so what its entries do at the end of their input is
  not seen outside.  (An array has no such string: its last elements may be missing without an error.)
\<close>

lemma online_readers [online_intros]:
  "online readU8" "online readU16" "online readU32" "online readU64" "online readShortstr"
  "online readLongstr" "online readTimestamp" "online readTable"
proof -
  show ints: "online readU8" "online readU16" "online readU32" "online readU64"
    unfolding read_int_defs by (intro online_intros)+
  show "online readShortstr" "online readTimestamp" and long: "online readLongstr"
    unfolding readShortstr_def readTimestamp_def readLongstr_def by (intro online_intros ints)+
  have "online (rbind readLongstr (\<lambda>str rest. (fst (tableLoop [] str), rest)))"
    by (intro online_intros long)
  then show "online readTable" by (simp add: online_def readTable_eq)
qed

text \<open>
  The readers of fields, tables and arrays do not change beyond two units of fuel for each byte and
  two more, and they satisfy the recursion equations of the source, which have no fuel.
\<close>

lemma field_readers_equations:
  assumes "2 * length s + 2 \<le> n"
  shows "readFieldF n s = rbind readU8 (readFieldBody readArray readTable) s \<and>
   readTableF n s = rbind readLongstr (\<lambda>str rest. (fst (tableLoop [] str), rest)) s \<and>
   tableLoopF n t s = (if s = [] then (Inr t, s)
     else rbind readShortstr (\<lambda>key. rbind readField (\<lambda>value. tableLoop (AList.update key value t))) s) \<and>
   arrayLoopF n arr s = (case readField s of
       (Inl e, s') \<Rightarrow> if e = EOF then (Inr arr, s') else (Inl e, s')
     | (Inr field, s') \<Rightarrow> arrayLoop (arr @ [field]) s')"
  using assms readField_eq [of s] readTable_eq [of s] tableLoop_eq [of t s] arrayLoop_eq [of arr s]
  by (simp add: enough_fuel)

end
