(* ===== verification/FieldCodec.thy ===== *)
theory FieldCodec
  imports FieldRead
begin

text \<open>
  Reading back a written table field.  Encoding loses what the wire format has no room for: an \<open>int\<close>
  comes back as an \<open>int32\<close> of its low half, a time as local Unix seconds.  \<open>canonField\<close> says which
  value that is; on every other field it is the identity.
\<close>

fun canonField :: "field \<Rightarrow> field"
  and canonFields :: "field list \<Rightarrow> field list"
  and canonEntries :: "table \<Rightarrow> table" where
  "canonField (FInt v) = FInt32 (ucast v)"
| "canonField (FTime t) = FTime (timeUnix (t_sec t))"
| "canonField (FArray vs) = FArray (canonFields vs)"
| "canonField (FTable t) = FTable (canonEntries t)"
| "canonField v = v"
| "canonFields [] = []"
| "canonFields (v # vs) = canonField v # canonFields vs"
| "canonEntries [] = []"
| "canonEntries ((k, v) # t) = (k, canonField v) # canonEntries t"

text \<open>
  A field is well formed when its tables are Go maps (no key twice) whose keys fit a short string,
  and every nested table fits the longest string the reader accepts.
\<close>

definition fits :: "wresult \<Rightarrow> bool" where
  "fits w = (case w of Inl e \<Rightarrow> False | Inr bs \<Rightarrow> length bs < 2 ^ 31)"

fun wfField :: "field \<Rightarrow> bool"
  and wfFields :: "field list \<Rightarrow> bool"
  and wfEntries :: "table \<Rightarrow> bool" where
  "wfField (FArray vs) = wfFields vs"
| "wfField (FTable t) = (distinct (map fst t) \<and> wfEntries t \<and> fits (writeEntries t))"
| "wfField v = True"
| "wfFields [] = True"
| "wfFields (v # vs) = (wfField v \<and> wfFields vs)"
| "wfEntries [] = True"
| "wfEntries ((k, v) # t) = (length k < 256 \<and> wfField v \<and> wfEntries t)"

definition wfTable :: "table \<Rightarrow> bool" where
  "wfTable t = wfField (FTable t)"

lemma keys_canonEntries [simp]: "map fst (canonEntries t) = map fst t"
  by (induction t) auto

lemma canon_idem:
  "canonField (canonField f) = canonField f"
  "canonFields (canonFields fs) = canonFields fs"
  "canonEntries (canonEntries t) = canonEntries t"
  by (induction f and fs and t rule: canonField_canonFields_canonEntries.induct)
    (auto simp: timeUnix_def)

lemma update_fresh: "k \<notin> fst ` set t \<Longrightarrow> AList.update k v t = t @ [(k, v)]"
  by (induction t) auto

lemma field_head [simp]: "readField (b # s) = readFieldBody readArray readTable b s"
  by (simp add: readField_eq)

lemma readTable_longstr:
  assumes "length bs < 2 ^ 31"
  shows "readTable (putU32 (of_nat (length bs)) @ bs @ rest) = (fst (tableLoop [] bs), rest)"
  using readLongstr_put [OF assms] by (simp add: readTable_eq)

lemma readArray_put:
  assumes "length bs < 2 ^ 32" and "arrayLoop [] bs = (res, [])"
  shows "readArray (putU32 (of_nat (length bs)) @ bs @ rest) = (res, rest)"
  using assms by (simp add: readArray_eq)

lemma sint_len_nonneg:
  assumes "n < 2 ^ 31"
  shows "\<not> sint (of_nat n :: u32) < 0"
proof -
  have "uint (of_nat n :: u32) = int n"
    using assms by (simp add: uint_nat)
  then have "sint (of_nat n :: u32) = int n"
    using assms by (simp add: sint_uint signed_take_bit_int_eq_self del: of_nat_numeral)
  then show ?thesis by simp
qed

lemma read_write_field:
  "writeField f = Inr bs \<Longrightarrow> wfField f \<Longrightarrow> length bs < 2 ^ 31 \<Longrightarrow>
     readField (bs @ rest) = (Inr (canonField f), rest)"
  "writeFields fs = Inr bs \<Longrightarrow> wfFields fs \<Longrightarrow> length bs < 2 ^ 31 \<Longrightarrow>
     arrayLoop arr bs = (Inr (arr @ canonFields fs), [])"
  "writeEntries t = Inr bs \<Longrightarrow> wfEntries t \<Longrightarrow> distinct (map fst t) \<Longrightarrow>
     fst ` set acc \<inter> fst ` set t = {} \<Longrightarrow> length bs < 2 ^ 31 \<Longrightarrow>
     tableLoop acc bs = (Inr (acc @ canonEntries t), [])"
proof (induction f and fs and t arbitrary: bs rest and bs arr and bs acc
    rule: writeField_writeFields_writeEntries.induct)
  case (10 v)
  then show ?case using readLongstr_put [of v rest] by (auto simp: readFieldBody_def)
next
  case (11 vs)
  then obtain sec where sec: "writeFields vs = Inr sec" "bs = 0x41 # putU32 (of_nat (length sec)) @ sec"
    by (auto split: sum.splits)
  then have "arrayLoop [] sec = (Inr (canonFields vs), [])"
    using 11 by simp
  then show ?case
    using 11 sec readArray_put [of sec] by (simp add: readFieldBody_def)
next
  case (13 t)
  then obtain buf where buf: "writeEntries t = Inr buf" "length buf < 2 ^ 31"
    by (auto simp: fits_def split: sum.splits)
  then have "tableLoop [] buf = (Inr (canonEntries t), [])"
    using 13 by simp
  then show ?case
    using 13 buf readTable_longstr [of buf rest] by (auto simp: writeLongstr_bytes readFieldBody_def)
next
  case (14 v)
  then show ?case by (auto simp: readFieldBody_def sint_len_nonneg)
next
  case (18 v vs)
  then obtain b b' where b: "writeField v = Inr b" "writeFields vs = Inr b'" "bs = b @ b'"
    by (auto simp: wthen_Inr_iff)
  then have "readField (b @ b') = (Inr (canonField v), b')"
    using 18 by simp
  moreover have "arrayLoop (arr @ [canonField v]) b' = (Inr ((arr @ [canonField v]) @ canonFields vs), [])"
    using 18 b by simp
  ultimately show ?case using b by (subst arrayLoop_eq) simp
next
  case (20 key val t)
  then obtain b b' where b: "writeField val = Inr b" "writeEntries t = Inr b'"
      "bs = (of_nat (length key) # key) @ b @ b'"
    by (auto simp: wthen_Inr_iff writeShortstr_bytes)
  then have "readField (b @ b') = (Inr (canonField val), b')"
    using 20 by simp
  moreover have "tableLoop (acc @ [(key, canonField val)]) b' =
      (Inr ((acc @ [(key, canonField val)]) @ canonEntries t), [])"
    using 20 b by (intro 20) auto
  moreover have "readShortstr bs = (Inr key, b @ b')"
    using b 20 by (simp add: readShortstr_ok_iff)
  ultimately show ?case
    using b 20 by (subst tableLoop_eq) (simp add: update_fresh)
qed (auto simp: readFieldBody_def arrayLoop_eq tableLoop_eq readDecimal_def readTimestamp_def
    readFull_def)

text \<open>The round trip of the two entry points.\<close>

lemma decodes_field:
  "wfField f \<Longrightarrow> fits (writeField f) \<Longrightarrow> decodes readField (writeField f) (canonField f)"
  by (auto simp: fits_def decodes_def read_write_field(1) split: sum.splits)

lemma decodes_table [decode_intros]:
  assumes "wfTable t"
  shows "decodes readTable (writeTable t) (canonEntries t)"
proof -
  from assms obtain buf where buf: "writeEntries t = Inr buf" "length buf < 2 ^ 31"
    by (auto simp: wfTable_def fits_def split: sum.splits)
  then have "tableLoop [] buf = (Inr (canonEntries t), [])"
    using assms read_write_field(3) [of t buf "[]"] by (simp add: wfTable_def)
  then show ?thesis
    using buf readTable_longstr [of buf]
    by (auto simp: decodes_def writeTable_def writeLongstr_bytes)
qed

lemma wfTable_Nil [simp]: "wfTable []"
  by (simp add: wfTable_def fits_def)

end
