(* ===== verification/FieldValid.thy ===== *)
theory FieldValid
  imports FieldCodec
begin

text \<open>
  What the field readers return can be written again: tables have no key twice, keys fit a short string,
  nested tables fit a long string, and no field needs more bytes than it was read from.  So a value that
  was read is its own canonical form, and encoding it loses nothing.
\<close>

section \<open>Encodings within a size\<close>

definition within :: "nat \<Rightarrow> wresult \<Rightarrow> bool" where
  "within n w \<longleftrightarrow> (\<exists>b. w = Inr b \<and> length b \<le> n)"

lemma within_Inr [simp]: "within n (Inr b) \<longleftrightarrow> length b \<le> n"
  by (simp add: within_def)

lemma within_mono: "within m w \<Longrightarrow> m \<le> n \<Longrightarrow> within n w"
  by (auto simp: within_def)

lemma within_thenI: "within m w \<Longrightarrow> within k w' \<Longrightarrow> m + k \<le> n \<Longrightarrow> within n (wthen w w')"
  by (auto simp: within_def)

lemma within_thenE:
  assumes "within n (wthen w w')"
  obtains m k where "within m w" "within k w'" "m + k \<le> n"
  using assms by (fastforce simp: within_def wthen_Inr_iff)

lemma within_shortstr: "length k < 256 \<Longrightarrow> within (Suc (length k)) (writeShortstr k)"
  by (simp add: writeShortstr_bytes)

lemma within_fits: "within n w \<Longrightarrow> n < 2 ^ 31 \<Longrightarrow> fits w"
  by (auto simp: within_def fits_def)

definition good_field :: "nat \<Rightarrow> field \<Rightarrow> bool" where
  "good_field n v \<longleftrightarrow> wfField v \<and> canonField v = v \<and> within n (writeField v)"

definition good_fields :: "nat \<Rightarrow> field list \<Rightarrow> bool" where
  "good_fields n vs \<longleftrightarrow> wfFields vs \<and> canonFields vs = vs \<and> within n (writeFields vs)"

definition good_entries :: "nat \<Rightarrow> table \<Rightarrow> bool" where
  "good_entries n t \<longleftrightarrow>
     distinct (map fst t) \<and> wfEntries t \<and> canonEntries t = t \<and> within n (writeEntries t)"

lemma good_nil [simp]: "good_fields n []" "good_entries n []"
  by (simp_all add: good_fields_def good_entries_def)

section \<open>Growing a list and a table\<close>

lemma within_snoc:
  "within m (writeFields vs) \<Longrightarrow> within k (writeField v) \<Longrightarrow> within (m + k) (writeFields (vs @ [v]))"
proof (induction vs arbitrary: m)
  case Nil
  then show ?case by (auto simp: within_def)
next
  case (Cons u vs)
  from Cons.prems(1) obtain i j where ij: "within i (writeField u)" "within j (writeFields vs)" "i + j \<le> m"
    by (auto elim: within_thenE)
  then show ?case
    using Cons.IH [OF ij(2) Cons.prems(2)] by (auto intro: within_thenI)
qed

lemma good_snoc:
  assumes "good_fields m vs" "good_field k v"
  shows "good_fields (m + k) (vs @ [v])"
proof -
  have "wfFields vs \<Longrightarrow> wfFields (vs @ [v])" using assms(2) by (induction vs) (auto simp: good_field_def)
  moreover have "canonFields (vs @ [v]) = canonFields vs @ [canonField v]" by (induction vs) auto
  ultimately show ?thesis
    using assms within_snoc by (simp add: good_fields_def good_field_def)
qed

lemma within_update:
  "within m (writeEntries t) \<Longrightarrow> length key < 256 \<Longrightarrow> within k (writeField v) \<Longrightarrow>
     within (m + (Suc (length key) + k)) (writeEntries (AList.update key v t))"
proof (induction t arbitrary: m)
  case Nil
  then show ?case
    by (auto simp: within_def writeShortstr_bytes)
next
  case (Cons e t)
  obtain key' u where e: "e = (key', u)" by fastforce
  from Cons.prems(1) obtain h i j where hij: "within h (writeShortstr key')" "within i (writeField u)"
    "within j (writeEntries t)" "h + (i + j) \<le> m"
    unfolding e by (auto elim!: within_thenE)
  show ?case
  proof (cases "key = key'")
    case True
    have "within (k + j) (wthen (writeField v) (writeEntries t))"
      using Cons.prems(3) hij(3) by (rule within_thenI) simp
    then have "within (Suc (length key) + (k + j)) (wthen (writeShortstr key) (wthen (writeField v) (writeEntries t)))"
      by (rule within_thenI [OF within_shortstr [OF Cons.prems(2)]]) simp
    then show ?thesis using True hij(4) by (auto simp: e elim: within_mono)
  next
    case False
    have "within (i + (j + (Suc (length key) + k))) (wthen (writeField u) (writeEntries (AList.update key v t)))"
      using hij(2) Cons.IH [OF hij(3) Cons.prems(2,3)] by (rule within_thenI) simp
    then have "within (h + (i + (j + (Suc (length key) + k))))
        (wthen (writeShortstr key') (wthen (writeField u) (writeEntries (AList.update key v t))))"
      by (rule within_thenI [OF hij(1)]) simp
    then show ?thesis using False hij(4) by (auto simp: e elim: within_mono)
  qed
qed

lemma good_update:
  assumes "good_entries m t" "length key < 256" "good_field k v"
  shows "good_entries (m + (Suc (length key) + k)) (AList.update key v t)"
proof -
  have "wfEntries t \<Longrightarrow> wfEntries (AList.update key v t)"
    using assms(2,3) by (induction t) (auto simp: good_field_def)
  moreover have "canonEntries t = t \<Longrightarrow> canonEntries (AList.update key v t) = AList.update key v t"
    using assms(3) by (induction t) (auto simp: good_field_def)
  ultimately show ?thesis
    using assms within_update by (simp add: good_entries_def good_field_def distinct_update)
qed

section \<open>What the readers return\<close>

lemma readLongstr_short:
  assumes "readLongstr s = (Inr b, s')"
  shows "length b < 2 ^ 31"
proof -
  from assms obtain len r where "readU32 s = (Inr len, r)"
    and "(if len > drop_bit 1 (NOT 0) then rreturn [] else rbind (readFull (unat len)) rreturn) r = (Inr b, s')"
    by (auto simp: readLongstr_def rbind_Inr_iff)
  then show ?thesis
    using u32_half [of len] by (auto simp: readFull_ok_iff split: if_splits)
qed

lemma good_table_field:
  assumes "good_entries n t" "n < 2 ^ 31"
  shows "good_field (5 + n) (FTable t)"
proof -
  have f: "fits (writeEntries t)" using assms by (auto simp: good_entries_def intro: within_fits)
  obtain b where b: "writeEntries t = Inr b" "length b \<le> n" using assms(1) by (auto simp: good_entries_def within_def)
  then have "writeLongstr b = Inr (putU32 (of_nat (length b)) @ b)"
    using assms(2) by (intro writeLongstr_bytes) simp
  then show ?thesis using assms(1) b f by (simp add: good_field_def good_entries_def)
qed

lemma good_array_field: "good_fields n vs \<Longrightarrow> good_field (5 + n) (FArray vs)"
  by (auto simp: good_fields_def good_field_def within_def)

lemma good_scalar:
  assumes "readFieldBody ra rt tc s = (Inr v, s')" "tc \<noteq> 0x41" "tc \<noteq> 0x46"
  shows "good_field (Suc (length s) - length s') v"
proof -
  have str: "length str + 4 + length s' \<le> length s" if "readLongstr s = (Inr str, s')" for str
    using readLongstr_input [OF that] .
  show ?thesis
    using assms str
    by (auto simp: readFieldBody_def rbind_Inr_iff good_field_def read_int_defs readDecimal_def
        readTimestamp_def readFull_ok_iff timeUnix_def split: if_splits)
qed

lemma readTable_Inr:
  "readTable s = (Inr t, s') \<Longrightarrow> \<exists>str s1. readLongstr s = (Inr str, s') \<and> tableLoop [] str = (Inr t, s1)"
  by (auto simp: readTable_eq rbind_Inr_iff) (metis prod.collapse)

lemma length_cut: "readField s = (x, s') \<Longrightarrow> length s' \<le> length s"
  by (rule consumes_length [OF consumes_field(1)])

text \<open>By induction on the length of the input, for the three readers that call one another.\<close>

lemma good_read:
  "(\<forall>v s'. readField s = (Inr v, s') \<longrightarrow> good_field (length s - length s') v) \<and>
   (\<forall>n t t' s'. good_entries n t \<longrightarrow> tableLoop t s = (Inr t', s') \<longrightarrow> good_entries (n + length s) t') \<and>
   (\<forall>n vs vs' s'. good_fields n vs \<longrightarrow> arrayLoop vs s = (Inr vs', s') \<longrightarrow>
      good_fields (n + (length s - length s')) vs')"
proof (induction s rule: length_induct)
  case (1 s)
  have less: "good_field (length r - length r') v"
    if "readField r = (Inr v, r')" "length r < length s" for r r' v
    using 1 that by blast
  have lesst: "good_entries (n + length r) t'"
    if "good_entries n t" "tableLoop t r = (Inr t', r')" "length r < length s" for n t t' r r'
    using 1 that by blast
  have lessa: "good_fields (n + (length r - length r')) vs'"
    if "good_fields n vs" "arrayLoop vs r = (Inr vs', r')" "length r < length s" for n vs vs' r r'
    using 1 that by blast
  have field: "good_field (length s - length s') v" if rd: "readField s = (Inr v, s')" for v s'
  proof -
    obtain tc r where r: "s = tc # r" "readFieldBody readArray readTable tc r = (Inr v, s')"
      using rd by (auto simp: readField_eq rbind_Inr_iff readU8_ok_iff)
    consider (array) "tc = 0x41" | (table) "tc = 0x46" | (scalar) "tc \<noteq> 0x41" "tc \<noteq> 0x46" by blast
    then show ?thesis
    proof cases
      case scalar
      then show ?thesis using good_scalar [OF r(2)] r(1) by simp
    next
      case table
      then obtain t where t: "readTable r = (Inr t, s')" "v = FTable t"
        using r(2) by (auto simp: readFieldBody_def rbind_Inr_iff)
      from readTable_Inr [OF t(1)] obtain str s1 where
        str: "readLongstr r = (Inr str, s')" "tableLoop [] str = (Inr t, s1)" by blast
      have len: "length str + 4 + length s' \<le> length r" by (rule readLongstr_input [OF str(1)])
      then have "good_entries (0 + length str) t" using r(1) by (intro lesst [OF _ str(2)]) simp_all
      then have "good_field (5 + length str) v"
        using good_table_field [of "length str" t] readLongstr_short [OF str(1)] t(2) by simp
      then show ?thesis using len r(1) by (auto simp: good_field_def elim: within_mono)
    next
      case array
      then obtain vs where vs: "readArray r = (Inr vs, s')" "v = FArray vs"
        using r(2) by (auto simp: readFieldBody_def rbind_Inr_iff)
      from vs(1) obtain n rest where "readU32 r = (Inr n, rest)"
        and arr: "(case arrayLoop [] (take (unat n) rest) of (res, lim) \<Rightarrow> (res, lim @ drop (unat n) rest)) = (Inr vs, s')"
        unfolding readArray_eq rbind_Inr_iff by blast
      moreover obtain lim where "arrayLoop [] (take (unat n) rest) = (Inr vs, lim)" "s' = lim @ drop (unat n) rest"
        using arr by (cases "arrayLoop [] (take (unat n) rest)") auto
      ultimately have n: "readU32 r = (Inr n, rest)"
        "arrayLoop [] (take (unat n) rest) = (Inr vs, lim)" "s' = lim @ drop (unat n) rest" by simp_all
      have len: "length r = length rest + 4" by (rule readU32_length [OF n(1)])
      then have "good_fields (0 + (length (take (unat n) rest) - length lim)) vs"
        using r(1) by (intro lessa [OF _ n(2)]) simp_all
      then have "good_field (5 + (length (take (unat n) rest) - length lim)) v"
        using good_array_field vs(2) by simp
      moreover have "length lim \<le> length (take (unat n) rest)"
        by (rule consumes_length [OF consumes_field(5) n(2)])
      ultimately show ?thesis using len r(1) n(3) by (auto simp: good_field_def elim: within_mono)
    qed
  qed
  moreover have "good_entries (n + length s) t'"
    if t: "good_entries n t" "tableLoop t s = (Inr t', s')" for n t t' s'
  proof (cases "s = []")
    case True
    then show ?thesis using t by (simp add: tableLoop_eq)
  next
    case False
    then obtain key s1 v s2 where k: "readShortstr s = (Inr key, s1)" "readField s1 = (Inr v, s2)"
      "tableLoop (AList.update key v t) s2 = (Inr t', s')"
      using t(2) by (auto simp: tableLoop_eq [of t s] rbind_Inr_iff)
    have l: "length s = Suc (length key) + length s1" "length key < 256"
      using k(1) readShortstr_length by (auto simp: readShortstr_ok_iff)
    have "good_field (length s1 - length s2) v" using l by (intro less [OF k(2)]) simp
    then have "good_entries (n + (Suc (length key) + (length s1 - length s2))) (AList.update key v t)"
      using t(1) l(2) by (intro good_update)
    then have "good_entries (n + (Suc (length key) + (length s1 - length s2)) + length s2) t'"
      using l(1) length_cut [OF k(2)] by (intro lesst [OF _ k(3)]) simp_all
    then show ?thesis using l(1) length_cut [OF k(2)] by (simp add: add.assoc)
  qed
  moreover have "good_fields (n + (length s - length s')) vs'"
    if vs: "good_fields n vs" "arrayLoop vs s = (Inr vs', s')" for n vs vs' s'
  proof (cases "\<exists>v s1. readField s = (Inr v, s1)")
    case True
    then obtain v s1 where v: "readField s = (Inr v, s1)" by blast
    then have rec: "arrayLoop (vs @ [v]) s1 = (Inr vs', s')" using vs(2) by (simp add: arrayLoop_eq [of vs s])
    have "good_fields (n + (length s - length s1)) (vs @ [v])"
      using good_snoc [OF vs(1) field [OF v]] .
    then have "good_fields (n + (length s - length s1) + (length s1 - length s')) vs'"
      using readField_progress [OF v] by (intro lessa [OF _ rec])
    moreover have "length s' \<le> length s1" by (rule consumes_length [OF consumes_field(5) rec])
    ultimately show ?thesis using readField_progress [OF v] by simp
  next
    case False
    then have "vs' = vs" using vs(2) by (auto simp: arrayLoop_eq [of vs s] split: prod.splits sum.splits if_splits)
    then show ?thesis using vs(1) by (auto simp: good_fields_def elim: within_mono)
  qed
  ultimately show ?case by blast
qed

lemma readTable_valid:
  assumes "readTable s = (Inr t, s')"
  shows "wfTable t \<and> canonEntries t = t"
proof -
  from readTable_Inr [OF assms] obtain str s1 where
    str: "readLongstr s = (Inr str, s')" "tableLoop [] str = (Inr t, s1)" by blast
  have "good_entries (0 + length str) t" using good_read [of str] str(2) good_nil(2) by blast
  then have "good_field (5 + length str) (FTable t)"
    using good_table_field [of "length str" t] readLongstr_short [OF str(1)] by simp
  then show ?thesis by (simp add: good_field_def wfTable_def)
qed

section \<open>The values of a reader\<close>

text \<open>\<open>yields r P\<close>: whatever \<open>r\<close> returns without an error satisfies \<open>P\<close>.\<close>

named_theorems yield_intros \<open>introduction rules for \<open>yields\<close>\<close>

definition yields :: "'a rd \<Rightarrow> ('a \<Rightarrow> bool) \<Rightarrow> bool" where
  "yields r P \<longleftrightarrow> (\<forall>s a s'. r s = (Inr a, s') \<longrightarrow> P a)"

lemma yieldsD: "yields r P \<Longrightarrow> r s = (Inr a, s') \<Longrightarrow> P a"
  by (auto simp: yields_def)

lemma yields_bind [yield_intros]:
  "yields m P \<Longrightarrow> (\<And>a. P a \<Longrightarrow> yields (k a) Q) \<Longrightarrow> yields (rbind m k) Q"
  by (fastforce simp: yields_def rbind_Inr_iff)

lemma yields_return: "P a \<Longrightarrow> yields (rreturn a) P"
  by (simp add: yields_def)

lemma yields_fail [yield_intros]: "yields (rfail e) P"
  by (simp add: yields_def)

lemma yields_if: "(c \<Longrightarrow> yields a P) \<Longrightarrow> (\<not> c \<Longrightarrow> yields b P) \<Longrightarrow> yields (if c then a else b) P"
  by simp

lemma yields_readers [yield_intros]:
  "yields readU8 (\<lambda>v. True)" "yields readU16 (\<lambda>v. True)" "yields readU32 (\<lambda>v. True)"
  "yields readU64 (\<lambda>v. True)" "yields readShortstr (\<lambda>v. length v < 256)"
  "yields readLongstr (\<lambda>v. length v < 2 ^ 31)" "yields readTable (\<lambda>t. wfTable t \<and> canonEntries t = t)"
  "yields readTimestamp (\<lambda>t. \<exists>sec. t = timeUnix sec)" "yields (readFull n) (\<lambda>b. length b = n)"
  using readShortstr_length readLongstr_short readTable_valid
  by (auto simp: yields_def readTimestamp_def rbind_Inr_iff readFull_ok_iff)

end
