(* ===== verification/Properties.thy ===== *)
theory Properties
  imports FieldValid
begin

text \<open>
  The \<open>properties\<close> struct of \<open>types.go\<close>, its property flags and \<open>hasProperty\<close>; and the interface
  every method struct of \<open>spec091.go\<close> meets, as a locale: reading back what was written, never
  reading past it, and returning only what can be written again.
\<close>

section \<open>Content properties\<close>

record properties =
  ContentType :: gostring
  ContentEncoding :: gostring
  Headers :: table
  DeliveryMode :: u8
  Priority :: u8
  CorrelationId :: gostring
  ReplyTo :: gostring
  Expiration :: gostring
  MessageId :: gostring
  Timestamp :: gotime
  Type :: gostring
  UserId :: gostring
  AppId :: gostring
  reserved1 :: gostring

text \<open>The zero value of the struct.\<close>

definition noProperties :: properties where
  "noProperties = \<lparr> ContentType = [], ContentEncoding = [], Headers = [], DeliveryMode = 0,
     Priority = 0, CorrelationId = [], ReplyTo = [], Expiration = [], MessageId = [],
     Timestamp = zeroTime, Type = [], UserId = [], AppId = [], reserved1 = [] \<rparr>"

definition flagContentType :: u16 where "flagContentType = 0x8000"
definition flagContentEncoding :: u16 where "flagContentEncoding = 0x4000"
definition flagHeaders :: u16 where "flagHeaders = 0x2000"
definition flagDeliveryMode :: u16 where "flagDeliveryMode = 0x1000"
definition flagPriority :: u16 where "flagPriority = 0x0800"
definition flagCorrelationId :: u16 where "flagCorrelationId = 0x0400"
definition flagReplyTo :: u16 where "flagReplyTo = 0x0200"
definition flagExpiration :: u16 where "flagExpiration = 0x0100"
definition flagMessageId :: u16 where "flagMessageId = 0x0080"
definition flagTimestamp :: u16 where "flagTimestamp = 0x0040"
definition flagType :: u16 where "flagType = 0x0020"
definition flagUserId :: u16 where "flagUserId = 0x0010"
definition flagAppId :: u16 where "flagAppId = 0x0008"
definition flagReserved1 :: u16 where "flagReserved1 = 0x0004"

lemmas flag_defs = flagContentType_def flagContentEncoding_def flagHeaders_def
  flagDeliveryMode_def flagPriority_def flagCorrelationId_def flagReplyTo_def flagExpiration_def
  flagMessageId_def flagTimestamp_def flagType_def flagUserId_def flagAppId_def flagReserved1_def

text \<open>\<open>int(mask)&prop > 0\<close>: both operands are non-negative and fit 16 bits.\<close>

definition hasProperty :: "u16 \<Rightarrow> u16 \<Rightarrow> bool" where
  "hasProperty m prop \<longleftrightarrow> uint m AND uint prop > 0"

section \<open>What a method struct promises\<close>

text \<open>
  \<open>rd\<close> and \<open>wr\<close> are the \<open>read\<close> and \<open>write\<close> of the \<open>message\<close> interface (\<open>types.go\<close>).  \<open>valid\<close> are the
  messages the wire format has room for, and \<open>canon\<close> says what comes back: the message with its
  tables canonised and without its content, which travels in frames of its own.
\<close>

locale message_codec =
  fixes rd :: "'m rd"
    and wr :: "'m \<Rightarrow> wresult"
    and valid :: "'m \<Rightarrow> bool"
    and canon :: "'m \<Rightarrow> 'm"
  assumes codec_decodes: "valid m \<Longrightarrow> decodes rd (wr m) (canon m)"
    and codec_consumes: "consumes rd"
    and codec_answers: "answers rd"
    and codec_online: "online rd"
    and codec_yields: "yields rd (\<lambda>m. valid m \<and> canon m = m)"
begin

lemma codec_total: "valid m \<Longrightarrow> \<exists>bs. wr m = Inr bs"
  using codec_decodes [of m] by (auto simp: decodes_def)

lemma codec_read: "valid m \<Longrightarrow> wr m = Inr bs \<Longrightarrow> rd (bs @ rest) = (Inr (canon m), rest)"
  using codec_decodes [of m] by (auto simp: decodes_def)

text \<open>No encoding is a proper prefix of another one, and different messages differ on the wire.\<close>

lemma codec_prefix_free:
  assumes "valid m" "wr m = Inr bs" "valid m'" "wr m' = Inr bs'" "bs @ rest = bs' @ rest'"
  shows "canon m = canon m' \<and> rest = rest'"
  using codec_read [OF assms(1,2), of rest] codec_read [OF assms(3,4), of rest'] assms(5) by simp

text \<open>What was read is read again from its own encoding, unchanged.\<close>

lemma codec_reencode:
  assumes "rd s = (Inr m, s')"
  shows "\<exists>bs. wr m = Inr bs \<and> (\<forall>rest. rd (bs @ rest) = (Inr m, rest))"
  using codec_decodes [of m] yieldsD [OF codec_yields assms] by (auto simp: decodes_def)

text \<open>Arguments that are cut short give one of the errors for missing input.\<close>

lemma codec_cut:
  assumes "valid m" "wr m = Inr bs" "strict_prefix p bs"
  shows "starved (fst (rd p)) \<and> snd (rd p) = []"
  using codec_read [OF assms(1,2), of "[]"] assms(3) by (intro online_cut [OF codec_online]) simp_all

lemma codec_bind:
  "valid m \<Longrightarrow> (\<And>rest. k (canon m) rest = (Inr a, rest)) \<Longrightarrow> decodes (rbind rd k) (wr m) a"
  using codec_decodes [of m] by (auto simp: decodes_def)

end

end
