(* ===== verification/MethodsConnection.thy ===== *)
theory MethodsConnection
  imports Properties
begin

text \<open>
  The methods of the connection class (class id 10) of \<open>spec091.go\<close>: for each struct its record, \<open>id\<close>, \<open>wait\<close>,
  \<open>write\<close> and \<open>read\<close>, and the interpretation of \<open>message_codec\<close> which proves its round trip.  The
  record fields carry the struct's name in front of the field's.  Then the class as a datatype, its
  part of the \<open>message\<close> interface, and its arm of the switch of \<open>parseMethodFrame\<close>.
\<close>

section \<open>Method structs\<close>

subsection \<open>connectionStart\<close>

record connectionStart =
  connectionStart_VersionMajor :: u8
  connectionStart_VersionMinor :: u8
  connectionStart_ServerProperties :: table
  connectionStart_Mechanisms :: gostring
  connectionStart_Locales :: gostring

definition connectionStart_id :: "connectionStart \<Rightarrow> u16 \<times> u16" where
  "connectionStart_id msg = (10, 10)"

definition connectionStart_wait :: "connectionStart \<Rightarrow> bool" where
  "connectionStart_wait msg \<longleftrightarrow> True"

definition connectionStart_write :: "connectionStart \<Rightarrow> wresult" where
  "connectionStart_write msg =
    wthen (writeU8 (connectionStart_VersionMajor msg)) (
    wthen (writeU8 (connectionStart_VersionMinor msg)) (
    wthen (writeTable (connectionStart_ServerProperties msg)) (
    wthen (writeLongstr (connectionStart_Mechanisms msg)) (
    wthen (writeLongstr (connectionStart_Locales msg)) (Inr [])))))"

definition connectionStart_read :: "connectionStart rd" where
  "connectionStart_read =
    rbind readU8 (\<lambda>v_VersionMajor.
    rbind readU8 (\<lambda>v_VersionMinor.
    rbind readTable (\<lambda>v_ServerProperties.
    rbind readLongstr (\<lambda>v_Mechanisms.
    rbind readLongstr (\<lambda>v_Locales.
    rreturn \<lparr> connectionStart_VersionMajor = v_VersionMajor,
      connectionStart_VersionMinor = v_VersionMinor,
      connectionStart_ServerProperties = v_ServerProperties,
      connectionStart_Mechanisms = v_Mechanisms,
      connectionStart_Locales = v_Locales \<rparr>)))))"

definition connectionStart_valid :: "connectionStart \<Rightarrow> bool" where
  "connectionStart_valid m \<longleftrightarrow>
     wfTable (connectionStart_ServerProperties m) \<and>
     length (connectionStart_Mechanisms m) < 2147483648 \<and>
     length (connectionStart_Locales m) < 2147483648"

definition connectionStart_canon :: "connectionStart \<Rightarrow> connectionStart" where
  "connectionStart_canon m = m\<lparr>connectionStart_ServerProperties := canonEntries (connectionStart_ServerProperties m)\<rparr>"

interpretation connectionStart: message_codec
  connectionStart_read connectionStart_write connectionStart_valid connectionStart_canon
proof
  show "decodes connectionStart_read (connectionStart_write m) (connectionStart_canon m)"
    if "connectionStart_valid m" for m
    unfolding connectionStart_read_def connectionStart_write_def
    by (rule decode_intros | simp add: connectionStart_canon_def that [unfolded connectionStart_valid_def])+
  show "consumes connectionStart_read"
    unfolding connectionStart_read_def by (intro consume_intros)
  show "answers connectionStart_read"
    unfolding connectionStart_read_def by (intro answer_intros)
  show "online connectionStart_read"
    unfolding connectionStart_read_def by (intro online_intros)
  show "yields connectionStart_read (\<lambda>m. connectionStart_valid m \<and> connectionStart_canon m = m)"
    unfolding connectionStart_read_def
    by (rule yield_intros yields_return | simp add: connectionStart_valid_def connectionStart_canon_def)+
qed

subsection \<open>connectionStartOk\<close>

record connectionStartOk =
  connectionStartOk_ClientProperties :: table
  connectionStartOk_Mechanism :: gostring
  connectionStartOk_Response :: gostring
  connectionStartOk_Locale :: gostring

definition connectionStartOk_id :: "connectionStartOk \<Rightarrow> u16 \<times> u16" where
  "connectionStartOk_id msg = (10, 11)"

definition connectionStartOk_wait :: "connectionStartOk \<Rightarrow> bool" where
  "connectionStartOk_wait msg \<longleftrightarrow> True"

definition connectionStartOk_write :: "connectionStartOk \<Rightarrow> wresult" where
  "connectionStartOk_write msg =
    wthen (writeTable (connectionStartOk_ClientProperties msg)) (
    wthen (writeShortstr (connectionStartOk_Mechanism msg)) (
    wthen (writeLongstr (connectionStartOk_Response msg)) (
    wthen (writeShortstr (connectionStartOk_Locale msg)) (Inr []))))"

definition connectionStartOk_read :: "connectionStartOk rd" where
  "connectionStartOk_read =
    rbind readTable (\<lambda>v_ClientProperties.
    rbind readShortstr (\<lambda>v_Mechanism.
    rbind readLongstr (\<lambda>v_Response.
    rbind readShortstr (\<lambda>v_Locale.
    rreturn \<lparr> connectionStartOk_ClientProperties = v_ClientProperties,
      connectionStartOk_Mechanism = v_Mechanism,
      connectionStartOk_Response = v_Response,
      connectionStartOk_Locale = v_Locale \<rparr>))))"

definition connectionStartOk_valid :: "connectionStartOk \<Rightarrow> bool" where
  "connectionStartOk_valid m \<longleftrightarrow>
     wfTable (connectionStartOk_ClientProperties m) \<and>
     length (connectionStartOk_Mechanism m) < 256 \<and>
     length (connectionStartOk_Response m) < 2147483648 \<and>
     length (connectionStartOk_Locale m) < 256"

definition connectionStartOk_canon :: "connectionStartOk \<Rightarrow> connectionStartOk" where
  "connectionStartOk_canon m = m\<lparr>connectionStartOk_ClientProperties := canonEntries (connectionStartOk_ClientProperties m)\<rparr>"

interpretation connectionStartOk: message_codec
  connectionStartOk_read connectionStartOk_write connectionStartOk_valid connectionStartOk_canon
proof
  show "decodes connectionStartOk_read (connectionStartOk_write m) (connectionStartOk_canon m)"
    if "connectionStartOk_valid m" for m
    unfolding connectionStartOk_read_def connectionStartOk_write_def
    by (rule decode_intros | simp add: connectionStartOk_canon_def that [unfolded connectionStartOk_valid_def])+
  show "consumes connectionStartOk_read"
    unfolding connectionStartOk_read_def by (intro consume_intros)
  show "answers connectionStartOk_read"
    unfolding connectionStartOk_read_def by (intro answer_intros)
  show "online connectionStartOk_read"
    unfolding connectionStartOk_read_def by (intro online_intros)
  show "yields connectionStartOk_read (\<lambda>m. connectionStartOk_valid m \<and> connectionStartOk_canon m = m)"
    unfolding connectionStartOk_read_def
    by (rule yield_intros yields_return | simp add: connectionStartOk_valid_def connectionStartOk_canon_def)+
qed

subsection \<open>connectionSecure\<close>

record connectionSecure =
  connectionSecure_Challenge :: gostring

definition connectionSecure_id :: "connectionSecure \<Rightarrow> u16 \<times> u16" where
  "connectionSecure_id msg = (10, 20)"

definition connectionSecure_wait :: "connectionSecure \<Rightarrow> bool" where
  "connectionSecure_wait msg \<longleftrightarrow> True"

definition connectionSecure_write :: "connectionSecure \<Rightarrow> wresult" where
  "connectionSecure_write msg =
    wthen (writeLongstr (connectionSecure_Challenge msg)) (Inr [])"

definition connectionSecure_read :: "connectionSecure rd" where
  "connectionSecure_read =
    rbind readLongstr (\<lambda>v_Challenge.
    rreturn \<lparr> connectionSecure_Challenge = v_Challenge \<rparr>)"

definition connectionSecure_valid :: "connectionSecure \<Rightarrow> bool" where
  "connectionSecure_valid m \<longleftrightarrow>
     length (connectionSecure_Challenge m) < 2147483648"

definition connectionSecure_canon :: "connectionSecure \<Rightarrow> connectionSecure" where
  "connectionSecure_canon m = m"

interpretation connectionSecure: message_codec
  connectionSecure_read connectionSecure_write connectionSecure_valid connectionSecure_canon
proof
  show "decodes connectionSecure_read (connectionSecure_write m) (connectionSecure_canon m)"
    if "connectionSecure_valid m" for m
    unfolding connectionSecure_read_def connectionSecure_write_def
    by (rule decode_intros | simp add: connectionSecure_canon_def that [unfolded connectionSecure_valid_def])+
  show "consumes connectionSecure_read"
    unfolding connectionSecure_read_def by (intro consume_intros)
  show "answers connectionSecure_read"
    unfolding connectionSecure_read_def by (intro answer_intros)
  show "online connectionSecure_read"
    unfolding connectionSecure_read_def by (intro online_intros)
  show "yields connectionSecure_read (\<lambda>m. connectionSecure_valid m \<and> connectionSecure_canon m = m)"
    unfolding connectionSecure_read_def
    by (rule yield_intros yields_return | simp add: connectionSecure_valid_def connectionSecure_canon_def)+
qed

subsection \<open>connectionSecureOk\<close>

record connectionSecureOk =
  connectionSecureOk_Response :: gostring

definition connectionSecureOk_id :: "connectionSecureOk \<Rightarrow> u16 \<times> u16" where
  "connectionSecureOk_id msg = (10, 21)"

definition connectionSecureOk_wait :: "connectionSecureOk \<Rightarrow> bool" where
  "connectionSecureOk_wait msg \<longleftrightarrow> True"

definition connectionSecureOk_write :: "connectionSecureOk \<Rightarrow> wresult" where
  "connectionSecureOk_write msg =
    wthen (writeLongstr (connectionSecureOk_Response msg)) (Inr [])"

definition connectionSecureOk_read :: "connectionSecureOk rd" where
  "connectionSecureOk_read =
    rbind readLongstr (\<lambda>v_Response.
    rreturn \<lparr> connectionSecureOk_Response = v_Response \<rparr>)"

definition connectionSecureOk_valid :: "connectionSecureOk \<Rightarrow> bool" where
  "connectionSecureOk_valid m \<longleftrightarrow>
     length (connectionSecureOk_Response m) < 2147483648"

definition connectionSecureOk_canon :: "connectionSecureOk \<Rightarrow> connectionSecureOk" where
  "connectionSecureOk_canon m = m"

interpretation connectionSecureOk: message_codec
  connectionSecureOk_read connectionSecureOk_write connectionSecureOk_valid connectionSecureOk_canon
proof
  show "decodes connectionSecureOk_read (connectionSecureOk_write m) (connectionSecureOk_canon m)"
    if "connectionSecureOk_valid m" for m
    unfolding connectionSecureOk_read_def connectionSecureOk_write_def
    by (rule decode_intros | simp add: connectionSecureOk_canon_def that [unfolded connectionSecureOk_valid_def])+
  show "consumes connectionSecureOk_read"
    unfolding connectionSecureOk_read_def by (intro consume_intros)
  show "answers connectionSecureOk_read"
    unfolding connectionSecureOk_read_def by (intro answer_intros)
  show "online connectionSecureOk_read"
    unfolding connectionSecureOk_read_def by (intro online_intros)
  show "yields connectionSecureOk_read (\<lambda>m. connectionSecureOk_valid m \<and> connectionSecureOk_canon m = m)"
    unfolding connectionSecureOk_read_def
    by (rule yield_intros yields_return | simp add: connectionSecureOk_valid_def connectionSecureOk_canon_def)+
qed

subsection \<open>connectionTune\<close>

record connectionTune =
  connectionTune_ChannelMax :: u16
  connectionTune_FrameMax :: u32
  connectionTune_Heartbeat :: u16

definition connectionTune_id :: "connectionTune \<Rightarrow> u16 \<times> u16" where
  "connectionTune_id msg = (10, 30)"

definition connectionTune_wait :: "connectionTune \<Rightarrow> bool" where
  "connectionTune_wait msg \<longleftrightarrow> True"

definition connectionTune_write :: "connectionTune \<Rightarrow> wresult" where
  "connectionTune_write msg =
    wthen (writeU16 (connectionTune_ChannelMax msg)) (
    wthen (writeU32 (connectionTune_FrameMax msg)) (
    wthen (writeU16 (connectionTune_Heartbeat msg)) (Inr [])))"

definition connectionTune_read :: "connectionTune rd" where
  "connectionTune_read =
    rbind readU16 (\<lambda>v_ChannelMax.
    rbind readU32 (\<lambda>v_FrameMax.
    rbind readU16 (\<lambda>v_Heartbeat.
    rreturn \<lparr> connectionTune_ChannelMax = v_ChannelMax,
      connectionTune_FrameMax = v_FrameMax,
      connectionTune_Heartbeat = v_Heartbeat \<rparr>)))"

definition connectionTune_valid :: "connectionTune \<Rightarrow> bool" where
  "connectionTune_valid m \<longleftrightarrow>
     True"

definition connectionTune_canon :: "connectionTune \<Rightarrow> connectionTune" where
  "connectionTune_canon m = m"

interpretation connectionTune: message_codec
  connectionTune_read connectionTune_write connectionTune_valid connectionTune_canon
proof
  show "decodes connectionTune_read (connectionTune_write m) (connectionTune_canon m)"
    if "connectionTune_valid m" for m
    unfolding connectionTune_read_def connectionTune_write_def
    by (rule decode_intros | simp add: connectionTune_canon_def that [unfolded connectionTune_valid_def])+
  show "consumes connectionTune_read"
    unfolding connectionTune_read_def by (intro consume_intros)
  show "answers connectionTune_read"
    unfolding connectionTune_read_def by (intro answer_intros)
  show "online connectionTune_read"
    unfolding connectionTune_read_def by (intro online_intros)
  show "yields connectionTune_read (\<lambda>m. connectionTune_valid m \<and> connectionTune_canon m = m)"
    unfolding connectionTune_read_def
    by (rule yield_intros yields_return | simp add: connectionTune_valid_def connectionTune_canon_def)+
qed

subsection \<open>connectionTuneOk\<close>

record connectionTuneOk =
  connectionTuneOk_ChannelMax :: u16
  connectionTuneOk_FrameMax :: u32
  connectionTuneOk_Heartbeat :: u16

definition connectionTuneOk_id :: "connectionTuneOk \<Rightarrow> u16 \<times> u16" where
  "connectionTuneOk_id msg = (10, 31)"

definition connectionTuneOk_wait :: "connectionTuneOk \<Rightarrow> bool" where
  "connectionTuneOk_wait msg \<longleftrightarrow> True"

definition connectionTuneOk_write :: "connectionTuneOk \<Rightarrow> wresult" where
  "connectionTuneOk_write msg =
    wthen (writeU16 (connectionTuneOk_ChannelMax msg)) (
    wthen (writeU32 (connectionTuneOk_FrameMax msg)) (
    wthen (writeU16 (connectionTuneOk_Heartbeat msg)) (Inr [])))"

definition connectionTuneOk_read :: "connectionTuneOk rd" where
  "connectionTuneOk_read =
    rbind readU16 (\<lambda>v_ChannelMax.
    rbind readU32 (\<lambda>v_FrameMax.
    rbind readU16 (\<lambda>v_Heartbeat.
    rreturn \<lparr> connectionTuneOk_ChannelMax = v_ChannelMax,
      connectionTuneOk_FrameMax = v_FrameMax,
      connectionTuneOk_Heartbeat = v_Heartbeat \<rparr>)))"

definition connectionTuneOk_valid :: "connectionTuneOk \<Rightarrow> bool" where
  "connectionTuneOk_valid m \<longleftrightarrow>
     True"

definition connectionTuneOk_canon :: "connectionTuneOk \<Rightarrow> connectionTuneOk" where
  "connectionTuneOk_canon m = m"

interpretation connectionTuneOk: message_codec
  connectionTuneOk_read connectionTuneOk_write connectionTuneOk_valid connectionTuneOk_canon
proof
  show "decodes connectionTuneOk_read (connectionTuneOk_write m) (connectionTuneOk_canon m)"
    if "connectionTuneOk_valid m" for m
    unfolding connectionTuneOk_read_def connectionTuneOk_write_def
    by (rule decode_intros | simp add: connectionTuneOk_canon_def that [unfolded connectionTuneOk_valid_def])+
  show "consumes connectionTuneOk_read"
    unfolding connectionTuneOk_read_def by (intro consume_intros)
  show "answers connectionTuneOk_read"
    unfolding connectionTuneOk_read_def by (intro answer_intros)
  show "online connectionTuneOk_read"
    unfolding connectionTuneOk_read_def by (intro online_intros)
  show "yields connectionTuneOk_read (\<lambda>m. connectionTuneOk_valid m \<and> connectionTuneOk_canon m = m)"
    unfolding connectionTuneOk_read_def
    by (rule yield_intros yields_return | simp add: connectionTuneOk_valid_def connectionTuneOk_canon_def)+
qed

subsection \<open>connectionOpen\<close>

record connectionOpen =
  connectionOpen_VirtualHost :: gostring
  connectionOpen_reserved1 :: gostring
  connectionOpen_reserved2 :: bool

definition connectionOpen_id :: "connectionOpen \<Rightarrow> u16 \<times> u16" where
  "connectionOpen_id msg = (10, 40)"

definition connectionOpen_wait :: "connectionOpen \<Rightarrow> bool" where
  "connectionOpen_wait msg \<longleftrightarrow> True"

definition connectionOpen_write :: "connectionOpen \<Rightarrow> wresult" where
  "connectionOpen_write msg =
    wthen (writeShortstr (connectionOpen_VirtualHost msg)) (
    wthen (writeShortstr (connectionOpen_reserved1 msg)) (
    wthen (writeU8 (setBit 0 0
        (connectionOpen_reserved2 msg))) (Inr [])))"

definition connectionOpen_read :: "connectionOpen rd" where
  "connectionOpen_read =
    rbind readShortstr (\<lambda>v_VirtualHost.
    rbind readShortstr (\<lambda>v_reserved1.
    rbind readU8 (\<lambda>bits.
    rreturn \<lparr> connectionOpen_VirtualHost = v_VirtualHost,
      connectionOpen_reserved1 = v_reserved1,
      connectionOpen_reserved2 = testBit bits 0 \<rparr>)))"

definition connectionOpen_valid :: "connectionOpen \<Rightarrow> bool" where
  "connectionOpen_valid m \<longleftrightarrow>
     length (connectionOpen_VirtualHost m) < 256 \<and>
     length (connectionOpen_reserved1 m) < 256"

definition connectionOpen_canon :: "connectionOpen \<Rightarrow> connectionOpen" where
  "connectionOpen_canon m = m"

interpretation connectionOpen: message_codec
  connectionOpen_read connectionOpen_write connectionOpen_valid connectionOpen_canon
proof
  show "decodes connectionOpen_read (connectionOpen_write m) (connectionOpen_canon m)"
    if "connectionOpen_valid m" for m
    unfolding connectionOpen_read_def connectionOpen_write_def
    by (rule decode_intros | simp add: connectionOpen_canon_def that [unfolded connectionOpen_valid_def])+
  show "consumes connectionOpen_read"
    unfolding connectionOpen_read_def by (intro consume_intros)
  show "answers connectionOpen_read"
    unfolding connectionOpen_read_def by (intro answer_intros)
  show "online connectionOpen_read"
    unfolding connectionOpen_read_def by (intro online_intros)
  show "yields connectionOpen_read (\<lambda>m. connectionOpen_valid m \<and> connectionOpen_canon m = m)"
    unfolding connectionOpen_read_def
    by (rule yield_intros yields_return | simp add: connectionOpen_valid_def connectionOpen_canon_def)+
qed

subsection \<open>connectionOpenOk\<close>

record connectionOpenOk =
  connectionOpenOk_reserved1 :: gostring

definition connectionOpenOk_id :: "connectionOpenOk \<Rightarrow> u16 \<times> u16" where
  "connectionOpenOk_id msg = (10, 41)"

definition connectionOpenOk_wait :: "connectionOpenOk \<Rightarrow> bool" where
  "connectionOpenOk_wait msg \<longleftrightarrow> True"

definition connectionOpenOk_write :: "connectionOpenOk \<Rightarrow> wresult" where
  "connectionOpenOk_write msg =
    wthen (writeShortstr (connectionOpenOk_reserved1 msg)) (Inr [])"

definition connectionOpenOk_read :: "connectionOpenOk rd" where
  "connectionOpenOk_read =
    rbind readShortstr (\<lambda>v_reserved1.
    rreturn \<lparr> connectionOpenOk_reserved1 = v_reserved1 \<rparr>)"

definition connectionOpenOk_valid :: "connectionOpenOk \<Rightarrow> bool" where
  "connectionOpenOk_valid m \<longleftrightarrow>
     length (connectionOpenOk_reserved1 m) < 256"

definition connectionOpenOk_canon :: "connectionOpenOk \<Rightarrow> connectionOpenOk" where
  "connectionOpenOk_canon m = m"

interpretation connectionOpenOk: message_codec
  connectionOpenOk_read connectionOpenOk_write connectionOpenOk_valid connectionOpenOk_canon
proof
  show "decodes connectionOpenOk_read (connectionOpenOk_write m) (connectionOpenOk_canon m)"
    if "connectionOpenOk_valid m" for m
    unfolding connectionOpenOk_read_def connectionOpenOk_write_def
    by (rule decode_intros | simp add: connectionOpenOk_canon_def that [unfolded connectionOpenOk_valid_def])+
  show "consumes connectionOpenOk_read"
    unfolding connectionOpenOk_read_def by (intro consume_intros)
  show "answers connectionOpenOk_read"
    unfolding connectionOpenOk_read_def by (intro answer_intros)
  show "online connectionOpenOk_read"
    unfolding connectionOpenOk_read_def by (intro online_intros)
  show "yields connectionOpenOk_read (\<lambda>m. connectionOpenOk_valid m \<and> connectionOpenOk_canon m = m)"
    unfolding connectionOpenOk_read_def
    by (rule yield_intros yields_return | simp add: connectionOpenOk_valid_def connectionOpenOk_canon_def)+
qed

subsection \<open>connectionClose\<close>

record connectionClose =
  connectionClose_ReplyCode :: u16
  connectionClose_ReplyText :: gostring
  connectionClose_ClassId :: u16
  connectionClose_MethodId :: u16

definition connectionClose_id :: "connectionClose \<Rightarrow> u16 \<times> u16" where
  "connectionClose_id msg = (10, 50)"

definition connectionClose_wait :: "connectionClose \<Rightarrow> bool" where
  "connectionClose_wait msg \<longleftrightarrow> True"

definition connectionClose_write :: "connectionClose \<Rightarrow> wresult" where
  "connectionClose_write msg =
    wthen (writeU16 (connectionClose_ReplyCode msg)) (
    wthen (writeShortstr (connectionClose_ReplyText msg)) (
    wthen (writeU16 (connectionClose_ClassId msg)) (
    wthen (writeU16 (connectionClose_MethodId msg)) (Inr []))))"

definition connectionClose_read :: "connectionClose rd" where
  "connectionClose_read =
    rbind readU16 (\<lambda>v_ReplyCode.
    rbind readShortstr (\<lambda>v_ReplyText.
    rbind readU16 (\<lambda>v_ClassId.
    rbind readU16 (\<lambda>v_MethodId.
    rreturn \<lparr> connectionClose_ReplyCode = v_ReplyCode,
      connectionClose_ReplyText = v_ReplyText,
      connectionClose_ClassId = v_ClassId,
      connectionClose_MethodId = v_MethodId \<rparr>))))"

definition connectionClose_valid :: "connectionClose \<Rightarrow> bool" where
  "connectionClose_valid m \<longleftrightarrow>
     length (connectionClose_ReplyText m) < 256"

definition connectionClose_canon :: "connectionClose \<Rightarrow> connectionClose" where
  "connectionClose_canon m = m"

interpretation connectionClose: message_codec
  connectionClose_read connectionClose_write connectionClose_valid connectionClose_canon
proof
  show "decodes connectionClose_read (connectionClose_write m) (connectionClose_canon m)"
    if "connectionClose_valid m" for m
    unfolding connectionClose_read_def connectionClose_write_def
    by (rule decode_intros | simp add: connectionClose_canon_def that [unfolded connectionClose_valid_def])+
  show "consumes connectionClose_read"
    unfolding connectionClose_read_def by (intro consume_intros)
  show "answers connectionClose_read"
    unfolding connectionClose_read_def by (intro answer_intros)
  show "online connectionClose_read"
    unfolding connectionClose_read_def by (intro online_intros)
  show "yields connectionClose_read (\<lambda>m. connectionClose_valid m \<and> connectionClose_canon m = m)"
    unfolding connectionClose_read_def
    by (rule yield_intros yields_return | simp add: connectionClose_valid_def connectionClose_canon_def)+
qed

subsection \<open>connectionCloseOk\<close>

type_synonym connectionCloseOk = unit

definition connectionCloseOk_id :: "connectionCloseOk \<Rightarrow> u16 \<times> u16" where
  "connectionCloseOk_id msg = (10, 51)"

definition connectionCloseOk_wait :: "connectionCloseOk \<Rightarrow> bool" where
  "connectionCloseOk_wait msg \<longleftrightarrow> True"

definition connectionCloseOk_write :: "connectionCloseOk \<Rightarrow> wresult" where
  "connectionCloseOk_write msg =
    Inr []"

definition connectionCloseOk_read :: "connectionCloseOk rd" where
  "connectionCloseOk_read =
    rreturn ()"

definition connectionCloseOk_valid :: "connectionCloseOk \<Rightarrow> bool" where
  "connectionCloseOk_valid m \<longleftrightarrow>
     True"

definition connectionCloseOk_canon :: "connectionCloseOk \<Rightarrow> connectionCloseOk" where
  "connectionCloseOk_canon m = m"

interpretation connectionCloseOk: message_codec
  connectionCloseOk_read connectionCloseOk_write connectionCloseOk_valid connectionCloseOk_canon
proof
  show "decodes connectionCloseOk_read (connectionCloseOk_write m) (connectionCloseOk_canon m)"
    if "connectionCloseOk_valid m" for m
    unfolding connectionCloseOk_read_def connectionCloseOk_write_def
    by (rule decode_intros | simp add: connectionCloseOk_canon_def that [unfolded connectionCloseOk_valid_def])+
  show "consumes connectionCloseOk_read"
    unfolding connectionCloseOk_read_def by (intro consume_intros)
  show "answers connectionCloseOk_read"
    unfolding connectionCloseOk_read_def by (intro answer_intros)
  show "online connectionCloseOk_read"
    unfolding connectionCloseOk_read_def by (intro online_intros)
  show "yields connectionCloseOk_read (\<lambda>m. connectionCloseOk_valid m \<and> connectionCloseOk_canon m = m)"
    unfolding connectionCloseOk_read_def
    by (rule yield_intros yields_return | simp add: connectionCloseOk_valid_def connectionCloseOk_canon_def)+
qed

subsection \<open>connectionBlocked\<close>

record connectionBlocked =
  connectionBlocked_Reason :: gostring

definition connectionBlocked_id :: "connectionBlocked \<Rightarrow> u16 \<times> u16" where
  "connectionBlocked_id msg = (10, 60)"

definition connectionBlocked_wait :: "connectionBlocked \<Rightarrow> bool" where
  "connectionBlocked_wait msg \<longleftrightarrow> False"

definition connectionBlocked_write :: "connectionBlocked \<Rightarrow> wresult" where
  "connectionBlocked_write msg =
    wthen (writeShortstr (connectionBlocked_Reason msg)) (Inr [])"

definition connectionBlocked_read :: "connectionBlocked rd" where
  "connectionBlocked_read =
    rbind readShortstr (\<lambda>v_Reason.
    rreturn \<lparr> connectionBlocked_Reason = v_Reason \<rparr>)"

definition connectionBlocked_valid :: "connectionBlocked \<Rightarrow> bool" where
  "connectionBlocked_valid m \<longleftrightarrow>
     length (connectionBlocked_Reason m) < 256"

definition connectionBlocked_canon :: "connectionBlocked \<Rightarrow> connectionBlocked" where
  "connectionBlocked_canon m = m"

interpretation connectionBlocked: message_codec
  connectionBlocked_read connectionBlocked_write connectionBlocked_valid connectionBlocked_canon
proof
  show "decodes connectionBlocked_read (connectionBlocked_write m) (connectionBlocked_canon m)"
    if "connectionBlocked_valid m" for m
    unfolding connectionBlocked_read_def connectionBlocked_write_def
    by (rule decode_intros | simp add: connectionBlocked_canon_def that [unfolded connectionBlocked_valid_def])+
  show "consumes connectionBlocked_read"
    unfolding connectionBlocked_read_def by (intro consume_intros)
  show "answers connectionBlocked_read"
    unfolding connectionBlocked_read_def by (intro answer_intros)
  show "online connectionBlocked_read"
    unfolding connectionBlocked_read_def by (intro online_intros)
  show "yields connectionBlocked_read (\<lambda>m. connectionBlocked_valid m \<and> connectionBlocked_canon m = m)"
    unfolding connectionBlocked_read_def
    by (rule yield_intros yields_return | simp add: connectionBlocked_valid_def connectionBlocked_canon_def)+
qed

subsection \<open>connectionUnblocked\<close>

type_synonym connectionUnblocked = unit

definition connectionUnblocked_id :: "connectionUnblocked \<Rightarrow> u16 \<times> u16" where
  "connectionUnblocked_id msg = (10, 61)"

definition connectionUnblocked_wait :: "connectionUnblocked \<Rightarrow> bool" where
  "connectionUnblocked_wait msg \<longleftrightarrow> False"

definition connectionUnblocked_write :: "connectionUnblocked \<Rightarrow> wresult" where
  "connectionUnblocked_write msg =
    Inr []"

definition connectionUnblocked_read :: "connectionUnblocked rd" where
  "connectionUnblocked_read =
    rreturn ()"

definition connectionUnblocked_valid :: "connectionUnblocked \<Rightarrow> bool" where
  "connectionUnblocked_valid m \<longleftrightarrow>
     True"

definition connectionUnblocked_canon :: "connectionUnblocked \<Rightarrow> connectionUnblocked" where
  "connectionUnblocked_canon m = m"

interpretation connectionUnblocked: message_codec
  connectionUnblocked_read connectionUnblocked_write connectionUnblocked_valid connectionUnblocked_canon
proof
  show "decodes connectionUnblocked_read (connectionUnblocked_write m) (connectionUnblocked_canon m)"
    if "connectionUnblocked_valid m" for m
    unfolding connectionUnblocked_read_def connectionUnblocked_write_def
    by (rule decode_intros | simp add: connectionUnblocked_canon_def that [unfolded connectionUnblocked_valid_def])+
  show "consumes connectionUnblocked_read"
    unfolding connectionUnblocked_read_def by (intro consume_intros)
  show "answers connectionUnblocked_read"
    unfolding connectionUnblocked_read_def by (intro answer_intros)
  show "online connectionUnblocked_read"
    unfolding connectionUnblocked_read_def by (intro online_intros)
  show "yields connectionUnblocked_read (\<lambda>m. connectionUnblocked_valid m \<and> connectionUnblocked_canon m = m)"
    unfolding connectionUnblocked_read_def
    by (rule yield_intros yields_return | simp add: connectionUnblocked_valid_def connectionUnblocked_canon_def)+
qed

section \<open>The class\<close>

datatype (plugins only: code size) connection_method =
    ConnectionStart connectionStart
  | ConnectionStartOk connectionStartOk
  | ConnectionSecure connectionSecure
  | ConnectionSecureOk connectionSecureOk
  | ConnectionTune connectionTune
  | ConnectionTuneOk connectionTuneOk
  | ConnectionOpen connectionOpen
  | ConnectionOpenOk connectionOpenOk
  | ConnectionClose connectionClose
  | ConnectionCloseOk connectionCloseOk
  | ConnectionBlocked connectionBlocked
  | ConnectionUnblocked connectionUnblocked

fun connection_method_id :: "connection_method \<Rightarrow> u16 \<times> u16" where
  "connection_method_id (ConnectionStart msg) = connectionStart_id msg"
| "connection_method_id (ConnectionStartOk msg) = connectionStartOk_id msg"
| "connection_method_id (ConnectionSecure msg) = connectionSecure_id msg"
| "connection_method_id (ConnectionSecureOk msg) = connectionSecureOk_id msg"
| "connection_method_id (ConnectionTune msg) = connectionTune_id msg"
| "connection_method_id (ConnectionTuneOk msg) = connectionTuneOk_id msg"
| "connection_method_id (ConnectionOpen msg) = connectionOpen_id msg"
| "connection_method_id (ConnectionOpenOk msg) = connectionOpenOk_id msg"
| "connection_method_id (ConnectionClose msg) = connectionClose_id msg"
| "connection_method_id (ConnectionCloseOk msg) = connectionCloseOk_id msg"
| "connection_method_id (ConnectionBlocked msg) = connectionBlocked_id msg"
| "connection_method_id (ConnectionUnblocked msg) = connectionUnblocked_id msg"

fun connection_method_wait :: "connection_method \<Rightarrow> bool" where
  "connection_method_wait (ConnectionStart msg) = connectionStart_wait msg"
| "connection_method_wait (ConnectionStartOk msg) = connectionStartOk_wait msg"
| "connection_method_wait (ConnectionSecure msg) = connectionSecure_wait msg"
| "connection_method_wait (ConnectionSecureOk msg) = connectionSecureOk_wait msg"
| "connection_method_wait (ConnectionTune msg) = connectionTune_wait msg"
| "connection_method_wait (ConnectionTuneOk msg) = connectionTuneOk_wait msg"
| "connection_method_wait (ConnectionOpen msg) = connectionOpen_wait msg"
| "connection_method_wait (ConnectionOpenOk msg) = connectionOpenOk_wait msg"
| "connection_method_wait (ConnectionClose msg) = connectionClose_wait msg"
| "connection_method_wait (ConnectionCloseOk msg) = connectionCloseOk_wait msg"
| "connection_method_wait (ConnectionBlocked msg) = connectionBlocked_wait msg"
| "connection_method_wait (ConnectionUnblocked msg) = connectionUnblocked_wait msg"

fun connection_method_write :: "connection_method \<Rightarrow> wresult" where
  "connection_method_write (ConnectionStart msg) = connectionStart_write msg"
| "connection_method_write (ConnectionStartOk msg) = connectionStartOk_write msg"
| "connection_method_write (ConnectionSecure msg) = connectionSecure_write msg"
| "connection_method_write (ConnectionSecureOk msg) = connectionSecureOk_write msg"
| "connection_method_write (ConnectionTune msg) = connectionTune_write msg"
| "connection_method_write (ConnectionTuneOk msg) = connectionTuneOk_write msg"
| "connection_method_write (ConnectionOpen msg) = connectionOpen_write msg"
| "connection_method_write (ConnectionOpenOk msg) = connectionOpenOk_write msg"
| "connection_method_write (ConnectionClose msg) = connectionClose_write msg"
| "connection_method_write (ConnectionCloseOk msg) = connectionCloseOk_write msg"
| "connection_method_write (ConnectionBlocked msg) = connectionBlocked_write msg"
| "connection_method_write (ConnectionUnblocked msg) = connectionUnblocked_write msg"

definition parse_connection :: "u16 \<Rightarrow> connection_method rd" where
  "parse_connection methodId =
    (if methodId = 10 then rbind connectionStart_read (\<lambda>m. rreturn (ConnectionStart m))
     else if methodId = 11 then rbind connectionStartOk_read (\<lambda>m. rreturn (ConnectionStartOk m))
     else if methodId = 20 then rbind connectionSecure_read (\<lambda>m. rreturn (ConnectionSecure m))
     else if methodId = 21 then rbind connectionSecureOk_read (\<lambda>m. rreturn (ConnectionSecureOk m))
     else if methodId = 30 then rbind connectionTune_read (\<lambda>m. rreturn (ConnectionTune m))
     else if methodId = 31 then rbind connectionTuneOk_read (\<lambda>m. rreturn (ConnectionTuneOk m))
     else if methodId = 40 then rbind connectionOpen_read (\<lambda>m. rreturn (ConnectionOpen m))
     else if methodId = 41 then rbind connectionOpenOk_read (\<lambda>m. rreturn (ConnectionOpenOk m))
     else if methodId = 50 then rbind connectionClose_read (\<lambda>m. rreturn (ConnectionClose m))
     else if methodId = 51 then rbind connectionCloseOk_read (\<lambda>m. rreturn (ConnectionCloseOk m))
     else if methodId = 60 then rbind connectionBlocked_read (\<lambda>m. rreturn (ConnectionBlocked m))
     else if methodId = 61 then rbind connectionUnblocked_read (\<lambda>m. rreturn (ConnectionUnblocked m))
     else rfail (UnknownMethod methodId 10))"

fun connection_method_valid :: "connection_method \<Rightarrow> bool" where
  "connection_method_valid (ConnectionStart m) = connectionStart_valid m"
| "connection_method_valid (ConnectionStartOk m) = connectionStartOk_valid m"
| "connection_method_valid (ConnectionSecure m) = connectionSecure_valid m"
| "connection_method_valid (ConnectionSecureOk m) = connectionSecureOk_valid m"
| "connection_method_valid (ConnectionTune m) = connectionTune_valid m"
| "connection_method_valid (ConnectionTuneOk m) = connectionTuneOk_valid m"
| "connection_method_valid (ConnectionOpen m) = connectionOpen_valid m"
| "connection_method_valid (ConnectionOpenOk m) = connectionOpenOk_valid m"
| "connection_method_valid (ConnectionClose m) = connectionClose_valid m"
| "connection_method_valid (ConnectionCloseOk m) = connectionCloseOk_valid m"
| "connection_method_valid (ConnectionBlocked m) = connectionBlocked_valid m"
| "connection_method_valid (ConnectionUnblocked m) = connectionUnblocked_valid m"

fun connection_method_canon :: "connection_method \<Rightarrow> connection_method" where
  "connection_method_canon (ConnectionStart m) = ConnectionStart (connectionStart_canon m)"
| "connection_method_canon (ConnectionStartOk m) = ConnectionStartOk (connectionStartOk_canon m)"
| "connection_method_canon (ConnectionSecure m) = ConnectionSecure (connectionSecure_canon m)"
| "connection_method_canon (ConnectionSecureOk m) = ConnectionSecureOk (connectionSecureOk_canon m)"
| "connection_method_canon (ConnectionTune m) = ConnectionTune (connectionTune_canon m)"
| "connection_method_canon (ConnectionTuneOk m) = ConnectionTuneOk (connectionTuneOk_canon m)"
| "connection_method_canon (ConnectionOpen m) = ConnectionOpen (connectionOpen_canon m)"
| "connection_method_canon (ConnectionOpenOk m) = ConnectionOpenOk (connectionOpenOk_canon m)"
| "connection_method_canon (ConnectionClose m) = ConnectionClose (connectionClose_canon m)"
| "connection_method_canon (ConnectionCloseOk m) = ConnectionCloseOk (connectionCloseOk_canon m)"
| "connection_method_canon (ConnectionBlocked m) = ConnectionBlocked (connectionBlocked_canon m)"
| "connection_method_canon (ConnectionUnblocked m) = ConnectionUnblocked (connectionUnblocked_canon m)"

lemmas connection_method_ids = connectionStart_id_def connectionStartOk_id_def connectionSecure_id_def connectionSecureOk_id_def connectionTune_id_def connectionTuneOk_id_def connectionOpen_id_def connectionOpenOk_id_def connectionClose_id_def connectionCloseOk_id_def connectionBlocked_id_def connectionUnblocked_id_def

lemma connection_method_class: "fst (connection_method_id m) = 10"
  by (cases m) (simp_all add: connection_method_ids)

lemma decodes_connection:
  "connection_method_valid m \<Longrightarrow>
     decodes (parse_connection (snd (connection_method_id m))) (connection_method_write m) (connection_method_canon m)"
  by (cases m)
    (simp_all add: parse_connection_def connection_method_ids connectionStart.codec_bind
      connectionStartOk.codec_bind
      connectionSecure.codec_bind
      connectionSecureOk.codec_bind
      connectionTune.codec_bind
      connectionTuneOk.codec_bind
      connectionOpen.codec_bind
      connectionOpenOk.codec_bind
      connectionClose.codec_bind
      connectionCloseOk.codec_bind
      connectionBlocked.codec_bind
      connectionUnblocked.codec_bind)

lemma consumes_parse_connection [consume_intros]: "consumes (parse_connection methodId)"
  unfolding parse_connection_def
  by (intro consume_intros connectionStart.codec_consumes
      connectionStartOk.codec_consumes
      connectionSecure.codec_consumes
      connectionSecureOk.codec_consumes
      connectionTune.codec_consumes
      connectionTuneOk.codec_consumes
      connectionOpen.codec_consumes
      connectionOpenOk.codec_consumes
      connectionClose.codec_consumes
      connectionCloseOk.codec_consumes
      connectionBlocked.codec_consumes
      connectionUnblocked.codec_consumes)

lemma answers_parse_connection [answer_intros]: "answers (parse_connection methodId)"
  unfolding parse_connection_def
  by (intro answer_intros connectionStart.codec_answers
      connectionStartOk.codec_answers
      connectionSecure.codec_answers
      connectionSecureOk.codec_answers
      connectionTune.codec_answers
      connectionTuneOk.codec_answers
      connectionOpen.codec_answers
      connectionOpenOk.codec_answers
      connectionClose.codec_answers
      connectionCloseOk.codec_answers
      connectionBlocked.codec_answers
      connectionUnblocked.codec_answers) simp

lemma online_parse_connection [online_intros]: "online (parse_connection methodId)"
  unfolding parse_connection_def
  by (intro online_intros connectionStart.codec_online
      connectionStartOk.codec_online
      connectionSecure.codec_online
      connectionSecureOk.codec_online
      connectionTune.codec_online
      connectionTuneOk.codec_online
      connectionOpen.codec_online
      connectionOpenOk.codec_online
      connectionClose.codec_online
      connectionCloseOk.codec_online
      connectionBlocked.codec_online
      connectionUnblocked.codec_online)

lemma yields_parse_connection [yield_intros]:
  "yields (parse_connection methodId) (\<lambda>m. connection_method_valid m \<and> connection_method_canon m = m \<and> connection_method_id m = (10, methodId))"
  unfolding parse_connection_def
  by (rule yields_if yield_intros yields_return connectionStart.codec_yields
      connectionStartOk.codec_yields
      connectionSecure.codec_yields
      connectionSecureOk.codec_yields
      connectionTune.codec_yields
      connectionTuneOk.codec_yields
      connectionOpen.codec_yields
      connectionOpenOk.codec_yields
      connectionClose.codec_yields
      connectionCloseOk.codec_yields
      connectionBlocked.codec_yields
      connectionUnblocked.codec_yields
      | simp add: connection_method_ids)+

end
