(* ===== verification/MethodsChannel.thy ===== *)
theory MethodsChannel
  imports Properties
begin

text \<open>
  The methods of the channel class (class id 20) of \<open>spec091.go\<close>: for each struct its record, \<open>id\<close>, \<open>wait\<close>,
  \<open>write\<close> and \<open>read\<close>, and the interpretation of \<open>message_codec\<close> which proves its round trip.  The
  record fields carry the struct's name in front of the field's.  Then the class as a datatype, its
  part of the \<open>message\<close> interface, and its arm of the switch of \<open>parseMethodFrame\<close>.
\<close>

section \<open>Method structs\<close>

subsection \<open>channelOpen\<close>

record channelOpen =
  channelOpen_reserved1 :: gostring

definition channelOpen_id :: "channelOpen \<Rightarrow> u16 \<times> u16" where
  "channelOpen_id msg = (20, 10)"

definition channelOpen_wait :: "channelOpen \<Rightarrow> bool" where
  "channelOpen_wait msg \<longleftrightarrow> True"

definition channelOpen_write :: "channelOpen \<Rightarrow> wresult" where
  "channelOpen_write msg =
    wthen (writeShortstr (channelOpen_reserved1 msg)) (Inr [])"

definition channelOpen_read :: "channelOpen rd" where
  "channelOpen_read =
    rbind readShortstr (\<lambda>v_reserved1.
    rreturn \<lparr> channelOpen_reserved1 = v_reserved1 \<rparr>)"

definition channelOpen_valid :: "channelOpen \<Rightarrow> bool" where
  "channelOpen_valid m \<longleftrightarrow>
     length (channelOpen_reserved1 m) < 256"

definition channelOpen_canon :: "channelOpen \<Rightarrow> channelOpen" where
  "channelOpen_canon m = m"

interpretation channelOpen: message_codec
  channelOpen_read channelOpen_write channelOpen_valid channelOpen_canon
proof
  show "decodes channelOpen_read (channelOpen_write m) (channelOpen_canon m)"
    if "channelOpen_valid m" for m
    unfolding channelOpen_read_def channelOpen_write_def
    by (rule decode_intros | simp add: channelOpen_canon_def that [unfolded channelOpen_valid_def])+
  show "consumes channelOpen_read"
    unfolding channelOpen_read_def by (intro consume_intros)
  show "answers channelOpen_read"
    unfolding channelOpen_read_def by (intro answer_intros)
  show "online channelOpen_read"
    unfolding channelOpen_read_def by (intro online_intros)
  show "yields channelOpen_read (\<lambda>m. channelOpen_valid m \<and> channelOpen_canon m = m)"
    unfolding channelOpen_read_def
    by (rule yield_intros yields_return | simp add: channelOpen_valid_def channelOpen_canon_def)+
qed

subsection \<open>channelOpenOk\<close>

record channelOpenOk =
  channelOpenOk_reserved1 :: gostring

definition channelOpenOk_id :: "channelOpenOk \<Rightarrow> u16 \<times> u16" where
  "channelOpenOk_id msg = (20, 11)"

definition channelOpenOk_wait :: "channelOpenOk \<Rightarrow> bool" where
  "channelOpenOk_wait msg \<longleftrightarrow> True"

definition channelOpenOk_write :: "channelOpenOk \<Rightarrow> wresult" where
  "channelOpenOk_write msg =
    wthen (writeLongstr (channelOpenOk_reserved1 msg)) (Inr [])"

definition channelOpenOk_read :: "channelOpenOk rd" where
  "channelOpenOk_read =
    rbind readLongstr (\<lambda>v_reserved1.
    rreturn \<lparr> channelOpenOk_reserved1 = v_reserved1 \<rparr>)"

definition channelOpenOk_valid :: "channelOpenOk \<Rightarrow> bool" where
  "channelOpenOk_valid m \<longleftrightarrow>
     length (channelOpenOk_reserved1 m) < 2147483648"

definition channelOpenOk_canon :: "channelOpenOk \<Rightarrow> channelOpenOk" where
  "channelOpenOk_canon m = m"

interpretation channelOpenOk: message_codec
  channelOpenOk_read channelOpenOk_write channelOpenOk_valid channelOpenOk_canon
proof
  show "decodes channelOpenOk_read (channelOpenOk_write m) (channelOpenOk_canon m)"
    if "channelOpenOk_valid m" for m
    unfolding channelOpenOk_read_def channelOpenOk_write_def
    by (rule decode_intros | simp add: channelOpenOk_canon_def that [unfolded channelOpenOk_valid_def])+
  show "consumes channelOpenOk_read"
    unfolding channelOpenOk_read_def by (intro consume_intros)
  show "answers channelOpenOk_read"
    unfolding channelOpenOk_read_def by (intro answer_intros)
  show "online channelOpenOk_read"
    unfolding channelOpenOk_read_def by (intro online_intros)
  show "yields channelOpenOk_read (\<lambda>m. channelOpenOk_valid m \<and> channelOpenOk_canon m = m)"
    unfolding channelOpenOk_read_def
    by (rule yield_intros yields_return | simp add: channelOpenOk_valid_def channelOpenOk_canon_def)+
qed

subsection \<open>channelFlow\<close>

record channelFlow =
  channelFlow_Active :: bool

definition channelFlow_id :: "channelFlow \<Rightarrow> u16 \<times> u16" where
  "channelFlow_id msg = (20, 20)"

definition channelFlow_wait :: "channelFlow \<Rightarrow> bool" where
  "channelFlow_wait msg \<longleftrightarrow> True"

definition channelFlow_write :: "channelFlow \<Rightarrow> wresult" where
  "channelFlow_write msg =
    wthen (writeU8 (setBit 0 0
        (channelFlow_Active msg))) (Inr [])"

definition channelFlow_read :: "channelFlow rd" where
  "channelFlow_read =
    rbind readU8 (\<lambda>bits.
    rreturn \<lparr> channelFlow_Active = testBit bits 0 \<rparr>)"

definition channelFlow_valid :: "channelFlow \<Rightarrow> bool" where
  "channelFlow_valid m \<longleftrightarrow>
     True"

definition channelFlow_canon :: "channelFlow \<Rightarrow> channelFlow" where
  "channelFlow_canon m = m"

interpretation channelFlow: message_codec
  channelFlow_read channelFlow_write channelFlow_valid channelFlow_canon
proof
  show "decodes channelFlow_read (channelFlow_write m) (channelFlow_canon m)"
    if "channelFlow_valid m" for m
    unfolding channelFlow_read_def channelFlow_write_def
    by (rule decode_intros | simp add: channelFlow_canon_def that [unfolded channelFlow_valid_def])+
  show "consumes channelFlow_read"
    unfolding channelFlow_read_def by (intro consume_intros)
  show "answers channelFlow_read"
    unfolding channelFlow_read_def by (intro answer_intros)
  show "online channelFlow_read"
    unfolding channelFlow_read_def by (intro online_intros)
  show "yields channelFlow_read (\<lambda>m. channelFlow_valid m \<and> channelFlow_canon m = m)"
    unfolding channelFlow_read_def
    by (rule yield_intros yields_return | simp add: channelFlow_valid_def channelFlow_canon_def)+
qed

subsection \<open>channelFlowOk\<close>

record channelFlowOk =
  channelFlowOk_Active :: bool

definition channelFlowOk_id :: "channelFlowOk \<Rightarrow> u16 \<times> u16" where
  "channelFlowOk_id msg = (20, 21)"

definition channelFlowOk_wait :: "channelFlowOk \<Rightarrow> bool" where
  "channelFlowOk_wait msg \<longleftrightarrow> False"

definition channelFlowOk_write :: "channelFlowOk \<Rightarrow> wresult" where
  "channelFlowOk_write msg =
    wthen (writeU8 (setBit 0 0
        (channelFlowOk_Active msg))) (Inr [])"

definition channelFlowOk_read :: "channelFlowOk rd" where
  "channelFlowOk_read =
    rbind readU8 (\<lambda>bits.
    rreturn \<lparr> channelFlowOk_Active = testBit bits 0 \<rparr>)"

definition channelFlowOk_valid :: "channelFlowOk \<Rightarrow> bool" where
  "channelFlowOk_valid m \<longleftrightarrow>
     True"

definition channelFlowOk_canon :: "channelFlowOk \<Rightarrow> channelFlowOk" where
  "channelFlowOk_canon m = m"

interpretation channelFlowOk: message_codec
  channelFlowOk_read channelFlowOk_write channelFlowOk_valid channelFlowOk_canon
proof
  show "decodes channelFlowOk_read (channelFlowOk_write m) (channelFlowOk_canon m)"
    if "channelFlowOk_valid m" for m
    unfolding channelFlowOk_read_def channelFlowOk_write_def
    by (rule decode_intros | simp add: channelFlowOk_canon_def that [unfolded channelFlowOk_valid_def])+
  show "consumes channelFlowOk_read"
    unfolding channelFlowOk_read_def by (intro consume_intros)
  show "answers channelFlowOk_read"
    unfolding channelFlowOk_read_def by (intro answer_intros)
  show "online channelFlowOk_read"
    unfolding channelFlowOk_read_def by (intro online_intros)
  show "yields channelFlowOk_read (\<lambda>m. channelFlowOk_valid m \<and> channelFlowOk_canon m = m)"
    unfolding channelFlowOk_read_def
    by (rule yield_intros yields_return | simp add: channelFlowOk_valid_def channelFlowOk_canon_def)+
qed

subsection \<open>channelClose\<close>

record channelClose =
  channelClose_ReplyCode :: u16
  channelClose_ReplyText :: gostring
  channelClose_ClassId :: u16
  channelClose_MethodId :: u16

definition channelClose_id :: "channelClose \<Rightarrow> u16 \<times> u16" where
  "channelClose_id msg = (20, 40)"

definition channelClose_wait :: "channelClose \<Rightarrow> bool" where
  "channelClose_wait msg \<longleftrightarrow> True"

definition channelClose_write :: "channelClose \<Rightarrow> wresult" where
  "channelClose_write msg =
    wthen (writeU16 (channelClose_ReplyCode msg)) (
    wthen (writeShortstr (channelClose_ReplyText msg)) (
    wthen (writeU16 (channelClose_ClassId msg)) (
    wthen (writeU16 (channelClose_MethodId msg)) (Inr []))))"

definition channelClose_read :: "channelClose rd" where
  "channelClose_read =
    rbind readU16 (\<lambda>v_ReplyCode.
    rbind readShortstr (\<lambda>v_ReplyText.
    rbind readU16 (\<lambda>v_ClassId.
    rbind readU16 (\<lambda>v_MethodId.
    rreturn \<lparr> channelClose_ReplyCode = v_ReplyCode,
      channelClose_ReplyText = v_ReplyText,
      channelClose_ClassId = v_ClassId,
      channelClose_MethodId = v_MethodId \<rparr>))))"

definition channelClose_valid :: "channelClose \<Rightarrow> bool" where
  "channelClose_valid m \<longleftrightarrow>
     length (channelClose_ReplyText m) < 256"

definition channelClose_canon :: "channelClose \<Rightarrow> channelClose" where
  "channelClose_canon m = m"

interpretation channelClose: message_codec
  channelClose_read channelClose_write channelClose_valid channelClose_canon
proof
  show "decodes channelClose_read (channelClose_write m) (channelClose_canon m)"
    if "channelClose_valid m" for m
    unfolding channelClose_read_def channelClose_write_def
    by (rule decode_intros | simp add: channelClose_canon_def that [unfolded channelClose_valid_def])+
  show "consumes channelClose_read"
    unfolding channelClose_read_def by (intro consume_intros)
  show "answers channelClose_read"
    unfolding channelClose_read_def by (intro answer_intros)
  show "online channelClose_read"
    unfolding channelClose_read_def by (intro online_intros)
  show "yields channelClose_read (\<lambda>m. channelClose_valid m \<and> channelClose_canon m = m)"
    unfolding channelClose_read_def
    by (rule yield_intros yields_return | simp add: channelClose_valid_def channelClose_canon_def)+
qed

subsection \<open>channelCloseOk\<close>

type_synonym channelCloseOk = unit

definition channelCloseOk_id :: "channelCloseOk \<Rightarrow> u16 \<times> u16" where
  "channelCloseOk_id msg = (20, 41)"

definition channelCloseOk_wait :: "channelCloseOk \<Rightarrow> bool" where
  "channelCloseOk_wait msg \<longleftrightarrow> True"

definition channelCloseOk_write :: "channelCloseOk \<Rightarrow> wresult" where
  "channelCloseOk_write msg =
    Inr []"

definition channelCloseOk_read :: "channelCloseOk rd" where
  "channelCloseOk_read =
    rreturn ()"

definition channelCloseOk_valid :: "channelCloseOk \<Rightarrow> bool" where
  "channelCloseOk_valid m \<longleftrightarrow>
     True"

definition channelCloseOk_canon :: "channelCloseOk \<Rightarrow> channelCloseOk" where
  "channelCloseOk_canon m = m"

interpretation channelCloseOk: message_codec
  channelCloseOk_read channelCloseOk_write channelCloseOk_valid channelCloseOk_canon
proof
  show "decodes channelCloseOk_read (channelCloseOk_write m) (channelCloseOk_canon m)"
    if "channelCloseOk_valid m" for m
    unfolding channelCloseOk_read_def channelCloseOk_write_def
    by (rule decode_intros | simp add: channelCloseOk_canon_def that [unfolded channelCloseOk_valid_def])+
  show "consumes channelCloseOk_read"
    unfolding channelCloseOk_read_def by (intro consume_intros)
  show "answers channelCloseOk_read"
    unfolding channelCloseOk_read_def by (intro answer_intros)
  show "online channelCloseOk_read"
    unfolding channelCloseOk_read_def by (intro online_intros)
  show "yields channelCloseOk_read (\<lambda>m. channelCloseOk_valid m \<and> channelCloseOk_canon m = m)"
    unfolding channelCloseOk_read_def
    by (rule yield_intros yields_return | simp add: channelCloseOk_valid_def channelCloseOk_canon_def)+
qed

section \<open>The class\<close>

datatype (plugins only: code size) channel_method =
    ChannelOpen channelOpen
  | ChannelOpenOk channelOpenOk
  | ChannelFlow channelFlow
  | ChannelFlowOk channelFlowOk
  | ChannelClose channelClose
  | ChannelCloseOk channelCloseOk

fun channel_method_id :: "channel_method \<Rightarrow> u16 \<times> u16" where
  "channel_method_id (ChannelOpen msg) = channelOpen_id msg"
| "channel_method_id (ChannelOpenOk msg) = channelOpenOk_id msg"
| "channel_method_id (ChannelFlow msg) = channelFlow_id msg"
| "channel_method_id (ChannelFlowOk msg) = channelFlowOk_id msg"
| "channel_method_id (ChannelClose msg) = channelClose_id msg"
| "channel_method_id (ChannelCloseOk msg) = channelCloseOk_id msg"

fun channel_method_wait :: "channel_method \<Rightarrow> bool" where
  "channel_method_wait (ChannelOpen msg) = channelOpen_wait msg"
| "channel_method_wait (ChannelOpenOk msg) = channelOpenOk_wait msg"
| "channel_method_wait (ChannelFlow msg) = channelFlow_wait msg"
| "channel_method_wait (ChannelFlowOk msg) = channelFlowOk_wait msg"
| "channel_method_wait (ChannelClose msg) = channelClose_wait msg"
| "channel_method_wait (ChannelCloseOk msg) = channelCloseOk_wait msg"

fun channel_method_write :: "channel_method \<Rightarrow> wresult" where
  "channel_method_write (ChannelOpen msg) = channelOpen_write msg"
| "channel_method_write (ChannelOpenOk msg) = channelOpenOk_write msg"
| "channel_method_write (ChannelFlow msg) = channelFlow_write msg"
| "channel_method_write (ChannelFlowOk msg) = channelFlowOk_write msg"
| "channel_method_write (ChannelClose msg) = channelClose_write msg"
| "channel_method_write (ChannelCloseOk msg) = channelCloseOk_write msg"

definition parse_channel :: "u16 \<Rightarrow> channel_method rd" where
  "parse_channel methodId =
    (if methodId = 10 then rbind channelOpen_read (\<lambda>m. rreturn (ChannelOpen m))
     else if methodId = 11 then rbind channelOpenOk_read (\<lambda>m. rreturn (ChannelOpenOk m))
     else if methodId = 20 then rbind channelFlow_read (\<lambda>m. rreturn (ChannelFlow m))
     else if methodId = 21 then rbind channelFlowOk_read (\<lambda>m. rreturn (ChannelFlowOk m))
     else if methodId = 40 then rbind channelClose_read (\<lambda>m. rreturn (ChannelClose m))
     else if methodId = 41 then rbind channelCloseOk_read (\<lambda>m. rreturn (ChannelCloseOk m))
     else rfail (UnknownMethod methodId 20))"

fun channel_method_valid :: "channel_method \<Rightarrow> bool" where
  "channel_method_valid (ChannelOpen m) = channelOpen_valid m"
| "channel_method_valid (ChannelOpenOk m) = channelOpenOk_valid m"
| "channel_method_valid (ChannelFlow m) = channelFlow_valid m"
| "channel_method_valid (ChannelFlowOk m) = channelFlowOk_valid m"
| "channel_method_valid (ChannelClose m) = channelClose_valid m"
| "channel_method_valid (ChannelCloseOk m) = channelCloseOk_valid m"

fun channel_method_canon :: "channel_method \<Rightarrow> channel_method" where
  "channel_method_canon (ChannelOpen m) = ChannelOpen (channelOpen_canon m)"
| "channel_method_canon (ChannelOpenOk m) = ChannelOpenOk (channelOpenOk_canon m)"
| "channel_method_canon (ChannelFlow m) = ChannelFlow (channelFlow_canon m)"
| "channel_method_canon (ChannelFlowOk m) = ChannelFlowOk (channelFlowOk_canon m)"
| "channel_method_canon (ChannelClose m) = ChannelClose (channelClose_canon m)"
| "channel_method_canon (ChannelCloseOk m) = ChannelCloseOk (channelCloseOk_canon m)"

lemmas channel_method_ids = channelOpen_id_def channelOpenOk_id_def channelFlow_id_def channelFlowOk_id_def channelClose_id_def channelCloseOk_id_def

lemma channel_method_class: "fst (channel_method_id m) = 20"
  by (cases m) (simp_all add: channel_method_ids)

lemma decodes_channel:
  "channel_method_valid m \<Longrightarrow>
     decodes (parse_channel (snd (channel_method_id m))) (channel_method_write m) (channel_method_canon m)"
  by (cases m)
    (simp_all add: parse_channel_def channel_method_ids channelOpen.codec_bind
      channelOpenOk.codec_bind
      channelFlow.codec_bind
      channelFlowOk.codec_bind
      channelClose.codec_bind
      channelCloseOk.codec_bind)

lemma consumes_parse_channel [consume_intros]: "consumes (parse_channel methodId)"
  unfolding parse_channel_def
  by (intro consume_intros channelOpen.codec_consumes
      channelOpenOk.codec_consumes
      channelFlow.codec_consumes
      channelFlowOk.codec_consumes
      channelClose.codec_consumes
      channelCloseOk.codec_consumes)

lemma answers_parse_channel [answer_intros]: "answers (parse_channel methodId)"
  unfolding parse_channel_def
  by (intro answer_intros channelOpen.codec_answers
      channelOpenOk.codec_answers
      channelFlow.codec_answers
      channelFlowOk.codec_answers
      channelClose.codec_answers
      channelCloseOk.codec_answers) simp

lemma online_parse_channel [online_intros]: "online (parse_channel methodId)"
  unfolding parse_channel_def
  by (intro online_intros channelOpen.codec_online
      channelOpenOk.codec_online
      channelFlow.codec_online
      channelFlowOk.codec_online
      channelClose.codec_online
      channelCloseOk.codec_online)

lemma yields_parse_channel [yield_intros]:
  "yields (parse_channel methodId) (\<lambda>m. channel_method_valid m \<and> channel_method_canon m = m \<and> channel_method_id m = (20, methodId))"
  unfolding parse_channel_def
  by (rule yields_if yield_intros yields_return channelOpen.codec_yields
      channelOpenOk.codec_yields
      channelFlow.codec_yields
      channelFlowOk.codec_yields
      channelClose.codec_yields
      channelCloseOk.codec_yields
      | simp add: channel_method_ids)+

end
