(* ===== verification/MethodsExchange.thy ===== *)
theory MethodsExchange
  imports Properties
begin

text \<open>
  The methods of the exchange class (class id 40) of \<open>spec091.go\<close>: for each struct its record, \<open>id\<close>, \<open>wait\<close>,
  \<open>write\<close> and \<open>read\<close>, and the interpretation of \<open>message_codec\<close> which proves its round trip.  The
  record fields carry the struct's name in front of the field's.  Then the class as a datatype, its
  part of the \<open>message\<close> interface, and its arm of the switch of \<open>parseMethodFrame\<close>.
\<close>

section \<open>Method structs\<close>

subsection \<open>exchangeDeclare\<close>

record exchangeDeclare =
  exchangeDeclare_reserved1 :: u16
  exchangeDeclare_Exchange :: gostring
  exchangeDeclare_Type :: gostring
  exchangeDeclare_Passive :: bool
  exchangeDeclare_Durable :: bool
  exchangeDeclare_AutoDelete :: bool
  exchangeDeclare_Internal :: bool
  exchangeDeclare_NoWait :: bool
  exchangeDeclare_Arguments :: table

definition exchangeDeclare_id :: "exchangeDeclare \<Rightarrow> u16 \<times> u16" where
  "exchangeDeclare_id msg = (40, 10)"

definition exchangeDeclare_wait :: "exchangeDeclare \<Rightarrow> bool" where
  "exchangeDeclare_wait msg \<longleftrightarrow> True \<and> \<not> exchangeDeclare_NoWait msg"

definition exchangeDeclare_write :: "exchangeDeclare \<Rightarrow> wresult" where
  "exchangeDeclare_write msg =
    wthen (writeU16 (exchangeDeclare_reserved1 msg)) (
    wthen (writeShortstr (exchangeDeclare_Exchange msg)) (
    wthen (writeShortstr (exchangeDeclare_Type msg)) (
    wthen (writeU8 (setBit (setBit (setBit (setBit (setBit 0 0
        (exchangeDeclare_Passive msg)) 1
        (exchangeDeclare_Durable msg)) 2
        (exchangeDeclare_AutoDelete msg)) 3
        (exchangeDeclare_Internal msg)) 4
        (exchangeDeclare_NoWait msg))) (
    wthen (writeTable (exchangeDeclare_Arguments msg)) (Inr [])))))"

definition exchangeDeclare_read :: "exchangeDeclare rd" where
  "exchangeDeclare_read =
    rbind readU16 (\<lambda>v_reserved1.
    rbind readShortstr (\<lambda>v_Exchange.
    rbind readShortstr (\<lambda>v_Type.
    rbind readU8 (\<lambda>bits.
    rbind readTable (\<lambda>v_Arguments.
    rreturn \<lparr> exchangeDeclare_reserved1 = v_reserved1,
      exchangeDeclare_Exchange = v_Exchange,
      exchangeDeclare_Type = v_Type,
      exchangeDeclare_Passive = testBit bits 0,
      exchangeDeclare_Durable = testBit bits 1,
      exchangeDeclare_AutoDelete = testBit bits 2,
      exchangeDeclare_Internal = testBit bits 3,
      exchangeDeclare_NoWait = testBit bits 4,
      exchangeDeclare_Arguments = v_Arguments \<rparr>)))))"

definition exchangeDeclare_valid :: "exchangeDeclare \<Rightarrow> bool" where
  "exchangeDeclare_valid m \<longleftrightarrow>
     length (exchangeDeclare_Exchange m) < 256 \<and>
     length (exchangeDeclare_Type m) < 256 \<and>
     wfTable (exchangeDeclare_Arguments m)"

definition exchangeDeclare_canon :: "exchangeDeclare \<Rightarrow> exchangeDeclare" where
  "exchangeDeclare_canon m = m\<lparr>exchangeDeclare_Arguments := canonEntries (exchangeDeclare_Arguments m)\<rparr>"

interpretation exchangeDeclare: message_codec
  exchangeDeclare_read exchangeDeclare_write exchangeDeclare_valid exchangeDeclare_canon
proof
  show "decodes exchangeDeclare_read (exchangeDeclare_write m) (exchangeDeclare_canon m)"
    if "exchangeDeclare_valid m" for m
    unfolding exchangeDeclare_read_def exchangeDeclare_write_def
    by (rule decode_intros | simp add: exchangeDeclare_canon_def that [unfolded exchangeDeclare_valid_def])+
  show "consumes exchangeDeclare_read"
    unfolding exchangeDeclare_read_def by (intro consume_intros)
  show "answers exchangeDeclare_read"
    unfolding exchangeDeclare_read_def by (intro answer_intros)
  show "online exchangeDeclare_read"
    unfolding exchangeDeclare_read_def by (intro online_intros)
  show "yields exchangeDeclare_read (\<lambda>m. exchangeDeclare_valid m \<and> exchangeDeclare_canon m = m)"
    unfolding exchangeDeclare_read_def
    by (rule yield_intros yields_return | simp add: exchangeDeclare_valid_def exchangeDeclare_canon_def)+
qed

subsection \<open>exchangeDeclareOk\<close>

type_synonym exchangeDeclareOk = unit

definition exchangeDeclareOk_id :: "exchangeDeclareOk \<Rightarrow> u16 \<times> u16" where
  "exchangeDeclareOk_id msg = (40, 11)"

definition exchangeDeclareOk_wait :: "exchangeDeclareOk \<Rightarrow> bool" where
  "exchangeDeclareOk_wait msg \<longleftrightarrow> True"

definition exchangeDeclareOk_write :: "exchangeDeclareOk \<Rightarrow> wresult" where
  "exchangeDeclareOk_write msg =
    Inr []"

definition exchangeDeclareOk_read :: "exchangeDeclareOk rd" where
  "exchangeDeclareOk_read =
    rreturn ()"

definition exchangeDeclareOk_valid :: "exchangeDeclareOk \<Rightarrow> bool" where
  "exchangeDeclareOk_valid m \<longleftrightarrow>
     True"

definition exchangeDeclareOk_canon :: "exchangeDeclareOk \<Rightarrow> exchangeDeclareOk" where
  "exchangeDeclareOk_canon m = m"

interpretation exchangeDeclareOk: message_codec
  exchangeDeclareOk_read exchangeDeclareOk_write exchangeDeclareOk_valid exchangeDeclareOk_canon
proof
  show "decodes exchangeDeclareOk_read (exchangeDeclareOk_write m) (exchangeDeclareOk_canon m)"
    if "exchangeDeclareOk_valid m" for m
    unfolding exchangeDeclareOk_read_def exchangeDeclareOk_write_def
    by (rule decode_intros | simp add: exchangeDeclareOk_canon_def that [unfolded exchangeDeclareOk_valid_def])+
  show "consumes exchangeDeclareOk_read"
    unfolding exchangeDeclareOk_read_def by (intro consume_intros)
  show "answers exchangeDeclareOk_read"
    unfolding exchangeDeclareOk_read_def by (intro answer_intros)
  show "online exchangeDeclareOk_read"
    unfolding exchangeDeclareOk_read_def by (intro online_intros)
  show "yields exchangeDeclareOk_read (\<lambda>m. exchangeDeclareOk_valid m \<and> exchangeDeclareOk_canon m = m)"
    unfolding exchangeDeclareOk_read_def
    by (rule yield_intros yields_return | simp add: exchangeDeclareOk_valid_def exchangeDeclareOk_canon_def)+
qed

subsection \<open>exchangeDelete\<close>

record exchangeDelete =
  exchangeDelete_reserved1 :: u16
  exchangeDelete_Exchange :: gostring
  exchangeDelete_IfUnused :: bool
  exchangeDelete_NoWait :: bool

definition exchangeDelete_id :: "exchangeDelete \<Rightarrow> u16 \<times> u16" where
  "exchangeDelete_id msg = (40, 20)"

definition exchangeDelete_wait :: "exchangeDelete \<Rightarrow> bool" where
  "exchangeDelete_wait msg \<longleftrightarrow> True \<and> \<not> exchangeDelete_NoWait msg"

definition exchangeDelete_write :: "exchangeDelete \<Rightarrow> wresult" where
  "exchangeDelete_write msg =
    wthen (writeU16 (exchangeDelete_reserved1 msg)) (
    wthen (writeShortstr (exchangeDelete_Exchange msg)) (
    wthen (writeU8 (setBit (setBit 0 0
        (exchangeDelete_IfUnused msg)) 1
        (exchangeDelete_NoWait msg))) (Inr [])))"

definition exchangeDelete_read :: "exchangeDelete rd" where
  "exchangeDelete_read =
    rbind readU16 (\<lambda>v_reserved1.
    rbind readShortstr (\<lambda>v_Exchange.
    rbind readU8 (\<lambda>bits.
    rreturn \<lparr> exchangeDelete_reserved1 = v_reserved1,
      exchangeDelete_Exchange = v_Exchange,
      exchangeDelete_IfUnused = testBit bits 0,
      exchangeDelete_NoWait = testBit bits 1 \<rparr>)))"

definition exchangeDelete_valid :: "exchangeDelete \<Rightarrow> bool" where
  "exchangeDelete_valid m \<longleftrightarrow>
     length (exchangeDelete_Exchange m) < 256"

definition exchangeDelete_canon :: "exchangeDelete \<Rightarrow> exchangeDelete" where
  "exchangeDelete_canon m = m"

interpretation exchangeDelete: message_codec
  exchangeDelete_read exchangeDelete_write exchangeDelete_valid exchangeDelete_canon
proof
  show "decodes exchangeDelete_read (exchangeDelete_write m) (exchangeDelete_canon m)"
    if "exchangeDelete_valid m" for m
    unfolding exchangeDelete_read_def exchangeDelete_write_def
    by (rule decode_intros | simp add: exchangeDelete_canon_def that [unfolded exchangeDelete_valid_def])+
  show "consumes exchangeDelete_read"
    unfolding exchangeDelete_read_def by (intro consume_intros)
  show "answers exchangeDelete_read"
    unfolding exchangeDelete_read_def by (intro answer_intros)
  show "online exchangeDelete_read"
    unfolding exchangeDelete_read_def by (intro online_intros)
  show "yields exchangeDelete_read (\<lambda>m. exchangeDelete_valid m \<and> exchangeDelete_canon m = m)"
    unfolding exchangeDelete_read_def
    by (rule yield_intros yields_return | simp add: exchangeDelete_valid_def exchangeDelete_canon_def)+
qed

subsection \<open>exchangeDeleteOk\<close>

type_synonym exchangeDeleteOk = unit

definition exchangeDeleteOk_id :: "exchangeDeleteOk \<Rightarrow> u16 \<times> u16" where
  "exchangeDeleteOk_id msg = (40, 21)"

definition exchangeDeleteOk_wait :: "exchangeDeleteOk \<Rightarrow> bool" where
  "exchangeDeleteOk_wait msg \<longleftrightarrow> True"

definition exchangeDeleteOk_write :: "exchangeDeleteOk \<Rightarrow> wresult" where
  "exchangeDeleteOk_write msg =
    Inr []"

definition exchangeDeleteOk_read :: "exchangeDeleteOk rd" where
  "exchangeDeleteOk_read =
    rreturn ()"

definition exchangeDeleteOk_valid :: "exchangeDeleteOk \<Rightarrow> bool" where
  "exchangeDeleteOk_valid m \<longleftrightarrow>
     True"

definition exchangeDeleteOk_canon :: "exchangeDeleteOk \<Rightarrow> exchangeDeleteOk" where
  "exchangeDeleteOk_canon m = m"

interpretation exchangeDeleteOk: message_codec
  exchangeDeleteOk_read exchangeDeleteOk_write exchangeDeleteOk_valid exchangeDeleteOk_canon
proof
  show "decodes exchangeDeleteOk_read (exchangeDeleteOk_write m) (exchangeDeleteOk_canon m)"
    if "exchangeDeleteOk_valid m" for m
    unfolding exchangeDeleteOk_read_def exchangeDeleteOk_write_def
    by (rule decode_intros | simp add: exchangeDeleteOk_canon_def that [unfolded exchangeDeleteOk_valid_def])+
  show "consumes exchangeDeleteOk_read"
    unfolding exchangeDeleteOk_read_def by (intro consume_intros)
  show "answers exchangeDeleteOk_read"
    unfolding exchangeDeleteOk_read_def by (intro answer_intros)
  show "online exchangeDeleteOk_read"
    unfolding exchangeDeleteOk_read_def by (intro online_intros)
  show "yields exchangeDeleteOk_read (\<lambda>m. exchangeDeleteOk_valid m \<and> exchangeDeleteOk_canon m = m)"
    unfolding exchangeDeleteOk_read_def
    by (rule yield_intros yields_return | simp add: exchangeDeleteOk_valid_def exchangeDeleteOk_canon_def)+
qed

subsection \<open>exchangeBind\<close>

record exchangeBind =
  exchangeBind_reserved1 :: u16
  exchangeBind_Destination :: gostring
  exchangeBind_Source :: gostring
  exchangeBind_RoutingKey :: gostring
  exchangeBind_NoWait :: bool
  exchangeBind_Arguments :: table

definition exchangeBind_id :: "exchangeBind \<Rightarrow> u16 \<times> u16" where
  "exchangeBind_id msg = (40, 30)"

definition exchangeBind_wait :: "exchangeBind \<Rightarrow> bool" where
  "exchangeBind_wait msg \<longleftrightarrow> True \<and> \<not> exchangeBind_NoWait msg"

definition exchangeBind_write :: "exchangeBind \<Rightarrow> wresult" where
  "exchangeBind_write msg =
    wthen (writeU16 (exchangeBind_reserved1 msg)) (
    wthen (writeShortstr (exchangeBind_Destination msg)) (
    wthen (writeShortstr (exchangeBind_Source msg)) (
    wthen (writeShortstr (exchangeBind_RoutingKey msg)) (
    wthen (writeU8 (setBit 0 0
        (exchangeBind_NoWait msg))) (
    wthen (writeTable (exchangeBind_Arguments msg)) (Inr []))))))"

definition exchangeBind_read :: "exchangeBind rd" where
  "exchangeBind_read =
    rbind readU16 (\<lambda>v_reserved1.
    rbind readShortstr (\<lambda>v_Destination.
    rbind readShortstr (\<lambda>v_Source.
    rbind readShortstr (\<lambda>v_RoutingKey.
    rbind readU8 (\<lambda>bits.
    rbind readTable (\<lambda>v_Arguments.
    rreturn \<lparr> exchangeBind_reserved1 = v_reserved1,
      exchangeBind_Destination = v_Destination,
      exchangeBind_Source = v_Source,
      exchangeBind_RoutingKey = v_RoutingKey,
      exchangeBind_NoWait = testBit bits 0,
      exchangeBind_Arguments = v_Arguments \<rparr>))))))"

definition exchangeBind_valid :: "exchangeBind \<Rightarrow> bool" where
  "exchangeBind_valid m \<longleftrightarrow>
     length (exchangeBind_Destination m) < 256 \<and>
     length (exchangeBind_Source m) < 256 \<and>
     length (exchangeBind_RoutingKey m) < 256 \<and>
     wfTable (exchangeBind_Arguments m)"

definition exchangeBind_canon :: "exchangeBind \<Rightarrow> exchangeBind" where
  "exchangeBind_canon m = m\<lparr>exchangeBind_Arguments := canonEntries (exchangeBind_Arguments m)\<rparr>"

interpretation exchangeBind: message_codec
  exchangeBind_read exchangeBind_write exchangeBind_valid exchangeBind_canon
proof
  show "decodes exchangeBind_read (exchangeBind_write m) (exchangeBind_canon m)"
    if "exchangeBind_valid m" for m
    unfolding exchangeBind_read_def exchangeBind_write_def
    by (rule decode_intros | simp add: exchangeBind_canon_def that [unfolded exchangeBind_valid_def])+
  show "consumes exchangeBind_read"
    unfolding exchangeBind_read_def by (intro consume_intros)
  show "answers exchangeBind_read"
    unfolding exchangeBind_read_def by (intro answer_intros)
  show "online exchangeBind_read"
    unfolding exchangeBind_read_def by (intro online_intros)
  show "yields exchangeBind_read (\<lambda>m. exchangeBind_valid m \<and> exchangeBind_canon m = m)"
    unfolding exchangeBind_read_def
    by (rule yield_intros yields_return | simp add: exchangeBind_valid_def exchangeBind_canon_def)+
qed

subsection \<open>exchangeBindOk\<close>

type_synonym exchangeBindOk = unit

definition exchangeBindOk_id :: "exchangeBindOk \<Rightarrow> u16 \<times> u16" where
  "exchangeBindOk_id msg = (40, 31)"

definition exchangeBindOk_wait :: "exchangeBindOk \<Rightarrow> bool" where
  "exchangeBindOk_wait msg \<longleftrightarrow> True"

definition exchangeBindOk_write :: "exchangeBindOk \<Rightarrow> wresult" where
  "exchangeBindOk_write msg =
    Inr []"

definition exchangeBindOk_read :: "exchangeBindOk rd" where
  "exchangeBindOk_read =
    rreturn ()"

definition exchangeBindOk_valid :: "exchangeBindOk \<Rightarrow> bool" where
  "exchangeBindOk_valid m \<longleftrightarrow>
     True"

definition exchangeBindOk_canon :: "exchangeBindOk \<Rightarrow> exchangeBindOk" where
  "exchangeBindOk_canon m = m"

interpretation exchangeBindOk: message_codec
  exchangeBindOk_read exchangeBindOk_write exchangeBindOk_valid exchangeBindOk_canon
proof
  show "decodes exchangeBindOk_read (exchangeBindOk_write m) (exchangeBindOk_canon m)"
    if "exchangeBindOk_valid m" for m
    unfolding exchangeBindOk_read_def exchangeBindOk_write_def
    by (rule decode_intros | simp add: exchangeBindOk_canon_def that [unfolded exchangeBindOk_valid_def])+
  show "consumes exchangeBindOk_read"
    unfolding exchangeBindOk_read_def by (intro consume_intros)
  show "answers exchangeBindOk_read"
    unfolding exchangeBindOk_read_def by (intro answer_intros)
  show "online exchangeBindOk_read"
    unfolding exchangeBindOk_read_def by (intro online_intros)
  show "yields exchangeBindOk_read (\<lambda>m. exchangeBindOk_valid m \<and> exchangeBindOk_canon m = m)"
    unfolding exchangeBindOk_read_def
    by (rule yield_intros yields_return | simp add: exchangeBindOk_valid_def exchangeBindOk_canon_def)+
qed

subsection \<open>exchangeUnbind\<close>

record exchangeUnbind =
  exchangeUnbind_reserved1 :: u16
  exchangeUnbind_Destination :: gostring
  exchangeUnbind_Source :: gostring
  exchangeUnbind_RoutingKey :: gostring
  exchangeUnbind_NoWait :: bool
  exchangeUnbind_Arguments :: table

definition exchangeUnbind_id :: "exchangeUnbind \<Rightarrow> u16 \<times> u16" where
  "exchangeUnbind_id msg = (40, 40)"

definition exchangeUnbind_wait :: "exchangeUnbind \<Rightarrow> bool" where
  "exchangeUnbind_wait msg \<longleftrightarrow> True \<and> \<not> exchangeUnbind_NoWait msg"

definition exchangeUnbind_write :: "exchangeUnbind \<Rightarrow> wresult" where
  "exchangeUnbind_write msg =
    wthen (writeU16 (exchangeUnbind_reserved1 msg)) (
    wthen (writeShortstr (exchangeUnbind_Destination msg)) (
    wthen (writeShortstr (exchangeUnbind_Source msg)) (
    wthen (writeShortstr (exchangeUnbind_RoutingKey msg)) (
    wthen (writeU8 (setBit 0 0
        (exchangeUnbind_NoWait msg))) (
    wthen (writeTable (exchangeUnbind_Arguments msg)) (Inr []))))))"

definition exchangeUnbind_read :: "exchangeUnbind rd" where
  "exchangeUnbind_read =
    rbind readU16 (\<lambda>v_reserved1.
    rbind readShortstr (\<lambda>v_Destination.
    rbind readShortstr (\<lambda>v_Source.
    rbind readShortstr (\<lambda>v_RoutingKey.
    rbind readU8 (\<lambda>bits.
    rbind readTable (\<lambda>v_Arguments.
    rreturn \<lparr> exchangeUnbind_reserved1 = v_reserved1,
      exchangeUnbind_Destination = v_Destination,
      exchangeUnbind_Source = v_Source,
      exchangeUnbind_RoutingKey = v_RoutingKey,
      exchangeUnbind_NoWait = testBit bits 0,
      exchangeUnbind_Arguments = v_Arguments \<rparr>))))))"

definition exchangeUnbind_valid :: "exchangeUnbind \<Rightarrow> bool" where
  "exchangeUnbind_valid m \<longleftrightarrow>
     length (exchangeUnbind_Destination m) < 256 \<and>
     length (exchangeUnbind_Source m) < 256 \<and>
     length (exchangeUnbind_RoutingKey m) < 256 \<and>
     wfTable (exchangeUnbind_Arguments m)"

definition exchangeUnbind_canon :: "exchangeUnbind \<Rightarrow> exchangeUnbind" where
  "exchangeUnbind_canon m = m\<lparr>exchangeUnbind_Arguments := canonEntries (exchangeUnbind_Arguments m)\<rparr>"

interpretation exchangeUnbind: message_codec
  exchangeUnbind_read exchangeUnbind_write exchangeUnbind_valid exchangeUnbind_canon
proof
  show "decodes exchangeUnbind_read (exchangeUnbind_write m) (exchangeUnbind_canon m)"
    if "exchangeUnbind_valid m" for m
    unfolding exchangeUnbind_read_def exchangeUnbind_write_def
    by (rule decode_intros | simp add: exchangeUnbind_canon_def that [unfolded exchangeUnbind_valid_def])+
  show "consumes exchangeUnbind_read"
    unfolding exchangeUnbind_read_def by (intro consume_intros)
  show "answers exchangeUnbind_read"
    unfolding exchangeUnbind_read_def by (intro answer_intros)
  show "online exchangeUnbind_read"
    unfolding exchangeUnbind_read_def by (intro online_intros)
  show "yields exchangeUnbind_read (\<lambda>m. exchangeUnbind_valid m \<and> exchangeUnbind_canon m = m)"
    unfolding exchangeUnbind_read_def
    by (rule yield_intros yields_return | simp add: exchangeUnbind_valid_def exchangeUnbind_canon_def)+
qed

subsection \<open>exchangeUnbindOk\<close>

type_synonym exchangeUnbindOk = unit

definition exchangeUnbindOk_id :: "exchangeUnbindOk \<Rightarrow> u16 \<times> u16" where
  "exchangeUnbindOk_id msg = (40, 51)"

definition exchangeUnbindOk_wait :: "exchangeUnbindOk \<Rightarrow> bool" where
  "exchangeUnbindOk_wait msg \<longleftrightarrow> True"

definition exchangeUnbindOk_write :: "exchangeUnbindOk \<Rightarrow> wresult" where
  "exchangeUnbindOk_write msg =
    Inr []"

definition exchangeUnbindOk_read :: "exchangeUnbindOk rd" where
  "exchangeUnbindOk_read =
    rreturn ()"

definition exchangeUnbindOk_valid :: "exchangeUnbindOk \<Rightarrow> bool" where
  "exchangeUnbindOk_valid m \<longleftrightarrow>
     True"

definition exchangeUnbindOk_canon :: "exchangeUnbindOk \<Rightarrow> exchangeUnbindOk" where
  "exchangeUnbindOk_canon m = m"

interpretation exchangeUnbindOk: message_codec
  exchangeUnbindOk_read exchangeUnbindOk_write exchangeUnbindOk_valid exchangeUnbindOk_canon
proof
  show "decodes exchangeUnbindOk_read (exchangeUnbindOk_write m) (exchangeUnbindOk_canon m)"
    if "exchangeUnbindOk_valid m" for m
    unfolding exchangeUnbindOk_read_def exchangeUnbindOk_write_def
    by (rule decode_intros | simp add: exchangeUnbindOk_canon_def that [unfolded exchangeUnbindOk_valid_def])+
  show "consumes exchangeUnbindOk_read"
    unfolding exchangeUnbindOk_read_def by (intro consume_intros)
  show "answers exchangeUnbindOk_read"
    unfolding exchangeUnbindOk_read_def by (intro answer_intros)
  show "online exchangeUnbindOk_read"
    unfolding exchangeUnbindOk_read_def by (intro online_intros)
  show "yields exchangeUnbindOk_read (\<lambda>m. exchangeUnbindOk_valid m \<and> exchangeUnbindOk_canon m = m)"
    unfolding exchangeUnbindOk_read_def
    by (rule yield_intros yields_return | simp add: exchangeUnbindOk_valid_def exchangeUnbindOk_canon_def)+
qed

section \<open>The class\<close>

datatype (plugins only: code size) exchange_method =
    ExchangeDeclare exchangeDeclare
  | ExchangeDeclareOk exchangeDeclareOk
  | ExchangeDelete exchangeDelete
  | ExchangeDeleteOk exchangeDeleteOk
  | ExchangeBind exchangeBind
  | ExchangeBindOk exchangeBindOk
  | ExchangeUnbind exchangeUnbind
  | ExchangeUnbindOk exchangeUnbindOk

fun exchange_method_id :: "exchange_method \<Rightarrow> u16 \<times> u16" where
  "exchange_method_id (ExchangeDeclare msg) = exchangeDeclare_id msg"
| "exchange_method_id (ExchangeDeclareOk msg) = exchangeDeclareOk_id msg"
| "exchange_method_id (ExchangeDelete msg) = exchangeDelete_id msg"
| "exchange_method_id (ExchangeDeleteOk msg) = exchangeDeleteOk_id msg"
| "exchange_method_id (ExchangeBind msg) = exchangeBind_id msg"
| "exchange_method_id (ExchangeBindOk msg) = exchangeBindOk_id msg"
| "exchange_method_id (ExchangeUnbind msg) = exchangeUnbind_id msg"
| "exchange_method_id (ExchangeUnbindOk msg) = exchangeUnbindOk_id msg"

fun exchange_method_wait :: "exchange_method \<Rightarrow> bool" where
  "exchange_method_wait (ExchangeDeclare msg) = exchangeDeclare_wait msg"
| "exchange_method_wait (ExchangeDeclareOk msg) = exchangeDeclareOk_wait msg"
| "exchange_method_wait (ExchangeDelete msg) = exchangeDelete_wait msg"
| "exchange_method_wait (ExchangeDeleteOk msg) = exchangeDeleteOk_wait msg"
| "exchange_method_wait (ExchangeBind msg) = exchangeBind_wait msg"
| "exchange_method_wait (ExchangeBindOk msg) = exchangeBindOk_wait msg"
| "exchange_method_wait (ExchangeUnbind msg) = exchangeUnbind_wait msg"
| "exchange_method_wait (ExchangeUnbindOk msg) = exchangeUnbindOk_wait msg"

fun exchange_method_write :: "exchange_method \<Rightarrow> wresult" where
  "exchange_method_write (ExchangeDeclare msg) = exchangeDeclare_write msg"
| "exchange_method_write (ExchangeDeclareOk msg) = exchangeDeclareOk_write msg"
| "exchange_method_write (ExchangeDelete msg) = exchangeDelete_write msg"
| "exchange_method_write (ExchangeDeleteOk msg) = exchangeDeleteOk_write msg"
| "exchange_method_write (ExchangeBind msg) = exchangeBind_write msg"
| "exchange_method_write (ExchangeBindOk msg) = exchangeBindOk_write msg"
| "exchange_method_write (ExchangeUnbind msg) = exchangeUnbind_write msg"
| "exchange_method_write (ExchangeUnbindOk msg) = exchangeUnbindOk_write msg"

definition parse_exchange :: "u16 \<Rightarrow> exchange_method rd" where
  "parse_exchange methodId =
    (if methodId = 10 then rbind exchangeDeclare_read (\<lambda>m. rreturn (ExchangeDeclare m))
     else if methodId = 11 then rbind exchangeDeclareOk_read (\<lambda>m. rreturn (ExchangeDeclareOk m))
     else if methodId = 20 then rbind exchangeDelete_read (\<lambda>m. rreturn (ExchangeDelete m))
     else if methodId = 21 then rbind exchangeDeleteOk_read (\<lambda>m. rreturn (ExchangeDeleteOk m))
     else if methodId = 30 then rbind exchangeBind_read (\<lambda>m. rreturn (ExchangeBind m))
     else if methodId = 31 then rbind exchangeBindOk_read (\<lambda>m. rreturn (ExchangeBindOk m))
     else if methodId = 40 then rbind exchangeUnbind_read (\<lambda>m. rreturn (ExchangeUnbind m))
     else if methodId = 51 then rbind exchangeUnbindOk_read (\<lambda>m. rreturn (ExchangeUnbindOk m))
     else rfail (UnknownMethod methodId 40))"

fun exchange_method_valid :: "exchange_method \<Rightarrow> bool" where
  "exchange_method_valid (ExchangeDeclare m) = exchangeDeclare_valid m"
| "exchange_method_valid (ExchangeDeclareOk m) = exchangeDeclareOk_valid m"
| "exchange_method_valid (ExchangeDelete m) = exchangeDelete_valid m"
| "exchange_method_valid (ExchangeDeleteOk m) = exchangeDeleteOk_valid m"
| "exchange_method_valid (ExchangeBind m) = exchangeBind_valid m"
| "exchange_method_valid (ExchangeBindOk m) = exchangeBindOk_valid m"
| "exchange_method_valid (ExchangeUnbind m) = exchangeUnbind_valid m"
| "exchange_method_valid (ExchangeUnbindOk m) = exchangeUnbindOk_valid m"

fun exchange_method_canon :: "exchange_method \<Rightarrow> exchange_method" where
  "exchange_method_canon (ExchangeDeclare m) = ExchangeDeclare (exchangeDeclare_canon m)"
| "exchange_method_canon (ExchangeDeclareOk m) = ExchangeDeclareOk (exchangeDeclareOk_canon m)"
| "exchange_method_canon (ExchangeDelete m) = ExchangeDelete (exchangeDelete_canon m)"
| "exchange_method_canon (ExchangeDeleteOk m) = ExchangeDeleteOk (exchangeDeleteOk_canon m)"
| "exchange_method_canon (ExchangeBind m) = ExchangeBind (exchangeBind_canon m)"
| "exchange_method_canon (ExchangeBindOk m) = ExchangeBindOk (exchangeBindOk_canon m)"
| "exchange_method_canon (ExchangeUnbind m) = ExchangeUnbind (exchangeUnbind_canon m)"
| "exchange_method_canon (ExchangeUnbindOk m) = ExchangeUnbindOk (exchangeUnbindOk_canon m)"

lemmas exchange_method_ids = exchangeDeclare_id_def exchangeDeclareOk_id_def exchangeDelete_id_def exchangeDeleteOk_id_def exchangeBind_id_def exchangeBindOk_id_def exchangeUnbind_id_def exchangeUnbindOk_id_def

lemma exchange_method_class: "fst (exchange_method_id m) = 40"
  by (cases m) (simp_all add: exchange_method_ids)

lemma decodes_exchange:
  "exchange_method_valid m \<Longrightarrow>
     decodes (parse_exchange (snd (exchange_method_id m))) (exchange_method_write m) (exchange_method_canon m)"
  by (cases m)
    (simp_all add: parse_exchange_def exchange_method_ids exchangeDeclare.codec_bind
      exchangeDeclareOk.codec_bind
      exchangeDelete.codec_bind
      exchangeDeleteOk.codec_bind
      exchangeBind.codec_bind
      exchangeBindOk.codec_bind
      exchangeUnbind.codec_bind
      exchangeUnbindOk.codec_bind)

lemma consumes_parse_exchange [consume_intros]: "consumes (parse_exchange methodId)"
  unfolding parse_exchange_def
  by (intro consume_intros exchangeDeclare.codec_consumes
      exchangeDeclareOk.codec_consumes
      exchangeDelete.codec_consumes
      exchangeDeleteOk.codec_consumes
      exchangeBind.codec_consumes
      exchangeBindOk.codec_consumes
      exchangeUnbind.codec_consumes
      exchangeUnbindOk.codec_consumes)

lemma answers_parse_exchange [answer_intros]: "answers (parse_exchange methodId)"
  unfolding parse_exchange_def
  by (intro answer_intros exchangeDeclare.codec_answers
      exchangeDeclareOk.codec_answers
      exchangeDelete.codec_answers
      exchangeDeleteOk.codec_answers
      exchangeBind.codec_answers
      exchangeBindOk.codec_answers
      exchangeUnbind.codec_answers
      exchangeUnbindOk.codec_answers) simp

lemma online_parse_exchange [online_intros]: "online (parse_exchange methodId)"
  unfolding parse_exchange_def
  by (intro online_intros exchangeDeclare.codec_online
      exchangeDeclareOk.codec_online
      exchangeDelete.codec_online
      exchangeDeleteOk.codec_online
      exchangeBind.codec_online
      exchangeBindOk.codec_online
      exchangeUnbind.codec_online
      exchangeUnbindOk.codec_online)

lemma yields_parse_exchange [yield_intros]:
  "yields (parse_exchange methodId) (\<lambda>m. exchange_method_valid m \<and> exchange_method_canon m = m \<and> exchange_method_id m = (40, methodId))"
  unfolding parse_exchange_def
  by (rule yields_if yield_intros yields_return exchangeDeclare.codec_yields
      exchangeDeclareOk.codec_yields
      exchangeDelete.codec_yields
      exchangeDeleteOk.codec_yields
      exchangeBind.codec_yields
      exchangeBindOk.codec_yields
      exchangeUnbind.codec_yields
      exchangeUnbindOk.codec_yields
      | simp add: exchange_method_ids)+

end
