(* ===== verification/MethodsQueue.thy ===== *)
theory MethodsQueue
  imports Properties
begin

text \<open>
  The methods of the queue class (class id 50) of \<open>spec091.go\<close>: for each struct its record, \<open>id\<close>, \<open>wait\<close>,
  \<open>write\<close> and \<open>read\<close>, and the interpretation of \<open>message_codec\<close> which proves its round trip.  The
  record fields carry the struct's name in front of the field's.  Then the class as a datatype, its
  part of the \<open>message\<close> interface, and its arm of the switch of \<open>parseMethodFrame\<close>.
\<close>

section \<open>Method structs\<close>

subsection \<open>queueDeclare\<close>

record queueDeclare =
  queueDeclare_reserved1 :: u16
  queueDeclare_Queue :: gostring
  queueDeclare_Passive :: bool
  queueDeclare_Durable :: bool
  queueDeclare_Exclusive :: bool
  queueDeclare_AutoDelete :: bool
  queueDeclare_NoWait :: bool
  queueDeclare_Arguments :: table

definition queueDeclare_id :: "queueDeclare \<Rightarrow> u16 \<times> u16" where
  "queueDeclare_id msg = (50, 10)"

definition queueDeclare_wait :: "queueDeclare \<Rightarrow> bool" where
  "queueDeclare_wait msg \<longleftrightarrow> True \<and> \<not> queueDeclare_NoWait msg"

definition queueDeclare_write :: "queueDeclare \<Rightarrow> wresult" where
  "queueDeclare_write msg =
    wthen (writeU16 (queueDeclare_reserved1 msg)) (
    wthen (writeShortstr (queueDeclare_Queue msg)) (
    wthen (writeU8 (setBit (setBit (setBit (setBit (setBit 0 0
        (queueDeclare_Passive msg)) 1
        (queueDeclare_Durable msg)) 2
        (queueDeclare_Exclusive msg)) 3
        (queueDeclare_AutoDelete msg)) 4
        (queueDeclare_NoWait msg))) (
    wthen (writeTable (queueDeclare_Arguments msg)) (Inr []))))"

definition queueDeclare_read :: "queueDeclare rd" where
  "queueDeclare_read =
    rbind readU16 (\<lambda>v_reserved1.
    rbind readShortstr (\<lambda>v_Queue.
    rbind readU8 (\<lambda>bits.
    rbind readTable (\<lambda>v_Arguments.
    rreturn \<lparr> queueDeclare_reserved1 = v_reserved1,
      queueDeclare_Queue = v_Queue,
      queueDeclare_Passive = testBit bits 0,
      queueDeclare_Durable = testBit bits 1,
      queueDeclare_Exclusive = testBit bits 2,
      queueDeclare_AutoDelete = testBit bits 3,
      queueDeclare_NoWait = testBit bits 4,
      queueDeclare_Arguments = v_Arguments \<rparr>))))"

definition queueDeclare_valid :: "queueDeclare \<Rightarrow> bool" where
  "queueDeclare_valid m \<longleftrightarrow>
     length (queueDeclare_Queue m) < 256 \<and>
     wfTable (queueDeclare_Arguments m)"

definition queueDeclare_canon :: "queueDeclare \<Rightarrow> queueDeclare" where
  "queueDeclare_canon m = m\<lparr>queueDeclare_Arguments := canonEntries (queueDeclare_Arguments m)\<rparr>"

interpretation queueDeclare: message_codec
  queueDeclare_read queueDeclare_write queueDeclare_valid queueDeclare_canon
proof
  show "decodes queueDeclare_read (queueDeclare_write m) (queueDeclare_canon m)"
    if "queueDeclare_valid m" for m
    unfolding queueDeclare_read_def queueDeclare_write_def
    by (rule decode_intros | simp add: queueDeclare_canon_def that [unfolded queueDeclare_valid_def])+
  show "consumes queueDeclare_read"
    unfolding queueDeclare_read_def by (intro consume_intros)
  show "answers queueDeclare_read"
    unfolding queueDeclare_read_def by (intro answer_intros)
  show "online queueDeclare_read"
    unfolding queueDeclare_read_def by (intro online_intros)
  show "yields queueDeclare_read (\<lambda>m. queueDeclare_valid m \<and> queueDeclare_canon m = m)"
    unfolding queueDeclare_read_def
    by (rule yield_intros yields_return | simp add: queueDeclare_valid_def queueDeclare_canon_def)+
qed

subsection \<open>queueDeclareOk\<close>

record queueDeclareOk =
  queueDeclareOk_Queue :: gostring
  queueDeclareOk_MessageCount :: u32
  queueDeclareOk_ConsumerCount :: u32

definition queueDeclareOk_id :: "queueDeclareOk \<Rightarrow> u16 \<times> u16" where
  "queueDeclareOk_id msg = (50, 11)"

definition queueDeclareOk_wait :: "queueDeclareOk \<Rightarrow> bool" where
  "queueDeclareOk_wait msg \<longleftrightarrow> True"

definition queueDeclareOk_write :: "queueDeclareOk \<Rightarrow> wresult" where
  "queueDeclareOk_write msg =
    wthen (writeShortstr (queueDeclareOk_Queue msg)) (
    wthen (writeU32 (queueDeclareOk_MessageCount msg)) (
    wthen (writeU32 (queueDeclareOk_ConsumerCount msg)) (Inr [])))"

definition queueDeclareOk_read :: "queueDeclareOk rd" where
  "queueDeclareOk_read =
    rbind readShortstr (\<lambda>v_Queue.
    rbind readU32 (\<lambda>v_MessageCount.
    rbind readU32 (\<lambda>v_ConsumerCount.
    rreturn \<lparr> queueDeclareOk_Queue = v_Queue,
      queueDeclareOk_MessageCount = v_MessageCount,
      queueDeclareOk_ConsumerCount = v_ConsumerCount \<rparr>)))"

definition queueDeclareOk_valid :: "queueDeclareOk \<Rightarrow> bool" where
  "queueDeclareOk_valid m \<longleftrightarrow>
     length (queueDeclareOk_Queue m) < 256"

definition queueDeclareOk_canon :: "queueDeclareOk \<Rightarrow> queueDeclareOk" where
  "queueDeclareOk_canon m = m"

interpretation queueDeclareOk: message_codec
  queueDeclareOk_read queueDeclareOk_write queueDeclareOk_valid queueDeclareOk_canon
proof
  show "decodes queueDeclareOk_read (queueDeclareOk_write m) (queueDeclareOk_canon m)"
    if "queueDeclareOk_valid m" for m
    unfolding queueDeclareOk_read_def queueDeclareOk_write_def
    by (rule decode_intros | simp add: queueDeclareOk_canon_def that [unfolded queueDeclareOk_valid_def])+
  show "consumes queueDeclareOk_read"
    unfolding queueDeclareOk_read_def by (intro consume_intros)
  show "answers queueDeclareOk_read"
    unfolding queueDeclareOk_read_def by (intro answer_intros)
  show "online queueDeclareOk_read"
    unfolding queueDeclareOk_read_def by (intro online_intros)
  show "yields queueDeclareOk_read (\<lambda>m. queueDeclareOk_valid m \<and> queueDeclareOk_canon m = m)"
    unfolding queueDeclareOk_read_def
    by (rule yield_intros yields_return | simp add: queueDeclareOk_valid_def queueDeclareOk_canon_def)+
qed

subsection \<open>queueBind\<close>

record queueBind =
  queueBind_reserved1 :: u16
  queueBind_Queue :: gostring
  queueBind_Exchange :: gostring
  queueBind_RoutingKey :: gostring
  queueBind_NoWait :: bool
  queueBind_Arguments :: table

definition queueBind_id :: "queueBind \<Rightarrow> u16 \<times> u16" where
  "queueBind_id msg = (50, 20)"

definition queueBind_wait :: "queueBind \<Rightarrow> bool" where
  "queueBind_wait msg \<longleftrightarrow> True \<and> \<not> queueBind_NoWait msg"

definition queueBind_write :: "queueBind \<Rightarrow> wresult" where
  "queueBind_write msg =
    wthen (writeU16 (queueBind_reserved1 msg)) (
    wthen (writeShortstr (queueBind_Queue msg)) (
    wthen (writeShortstr (queueBind_Exchange msg)) (
    wthen (writeShortstr (queueBind_RoutingKey msg)) (
    wthen (writeU8 (setBit 0 0
        (queueBind_NoWait msg))) (
    wthen (writeTable (queueBind_Arguments msg)) (Inr []))))))"

definition queueBind_read :: "queueBind rd" where
  "queueBind_read =
    rbind readU16 (\<lambda>v_reserved1.
    rbind readShortstr (\<lambda>v_Queue.
    rbind readShortstr (\<lambda>v_Exchange.
    rbind readShortstr (\<lambda>v_RoutingKey.
    rbind readU8 (\<lambda>bits.
    rbind readTable (\<lambda>v_Arguments.
    rreturn \<lparr> queueBind_reserved1 = v_reserved1,
      queueBind_Queue = v_Queue,
      queueBind_Exchange = v_Exchange,
      queueBind_RoutingKey = v_RoutingKey,
      queueBind_NoWait = testBit bits 0,
      queueBind_Arguments = v_Arguments \<rparr>))))))"

definition queueBind_valid :: "queueBind \<Rightarrow> bool" where
  "queueBind_valid m \<longleftrightarrow>
     length (queueBind_Queue m) < 256 \<and>
     length (queueBind_Exchange m) < 256 \<and>
     length (queueBind_RoutingKey m) < 256 \<and>
     wfTable (queueBind_Arguments m)"

definition queueBind_canon :: "queueBind \<Rightarrow> queueBind" where
  "queueBind_canon m = m\<lparr>queueBind_Arguments := canonEntries (queueBind_Arguments m)\<rparr>"

interpretation queueBind: message_codec
  queueBind_read queueBind_write queueBind_valid queueBind_canon
proof
  show "decodes queueBind_read (queueBind_write m) (queueBind_canon m)"
    if "queueBind_valid m" for m
    unfolding queueBind_read_def queueBind_write_def
    by (rule decode_intros | simp add: queueBind_canon_def that [unfolded queueBind_valid_def])+
  show "consumes queueBind_read"
    unfolding queueBind_read_def by (intro consume_intros)
  show "answers queueBind_read"
    unfolding queueBind_read_def by (intro answer_intros)
  show "online queueBind_read"
    unfolding queueBind_read_def by (intro online_intros)
  show "yields queueBind_read (\<lambda>m. queueBind_valid m \<and> queueBind_canon m = m)"
    unfolding queueBind_read_def
    by (rule yield_intros yields_return | simp add: queueBind_valid_def queueBind_canon_def)+
qed

subsection \<open>queueBindOk\<close>

type_synonym queueBindOk = unit

definition queueBindOk_id :: "queueBindOk \<Rightarrow> u16 \<times> u16" where
  "queueBindOk_id msg = (50, 21)"

definition queueBindOk_wait :: "queueBindOk \<Rightarrow> bool" where
  "queueBindOk_wait msg \<longleftrightarrow> True"

definition queueBindOk_write :: "queueBindOk \<Rightarrow> wresult" where
  "queueBindOk_write msg =
    Inr []"

definition queueBindOk_read :: "queueBindOk rd" where
  "queueBindOk_read =
    rreturn ()"

definition queueBindOk_valid :: "queueBindOk \<Rightarrow> bool" where
  "queueBindOk_valid m \<longleftrightarrow>
     True"

definition queueBindOk_canon :: "queueBindOk \<Rightarrow> queueBindOk" where
  "queueBindOk_canon m = m"

interpretation queueBindOk: message_codec
  queueBindOk_read queueBindOk_write queueBindOk_valid queueBindOk_canon
proof
  show "decodes queueBindOk_read (queueBindOk_write m) (queueBindOk_canon m)"
    if "queueBindOk_valid m" for m
    unfolding queueBindOk_read_def queueBindOk_write_def
    by (rule decode_intros | simp add: queueBindOk_canon_def that [unfolded queueBindOk_valid_def])+
  show "consumes queueBindOk_read"
    unfolding queueBindOk_read_def by (intro consume_intros)
  show "answers queueBindOk_read"
    unfolding queueBindOk_read_def by (intro answer_intros)
  show "online queueBindOk_read"
    unfolding queueBindOk_read_def by (intro online_intros)
  show "yields queueBindOk_read (\<lambda>m. queueBindOk_valid m \<and> queueBindOk_canon m = m)"
    unfolding queueBindOk_read_def
    by (rule yield_intros yields_return | simp add: queueBindOk_valid_def queueBindOk_canon_def)+
qed

subsection \<open>queueUnbind\<close>

record queueUnbind =
  queueUnbind_reserved1 :: u16
  queueUnbind_Queue :: gostring
  queueUnbind_Exchange :: gostring
  queueUnbind_RoutingKey :: gostring
  queueUnbind_Arguments :: table

definition queueUnbind_id :: "queueUnbind \<Rightarrow> u16 \<times> u16" where
  "queueUnbind_id msg = (50, 50)"

definition queueUnbind_wait :: "queueUnbind \<Rightarrow> bool" where
  "queueUnbind_wait msg \<longleftrightarrow> True"

definition queueUnbind_write :: "queueUnbind \<Rightarrow> wresult" where
  "queueUnbind_write msg =
    wthen (writeU16 (queueUnbind_reserved1 msg)) (
    wthen (writeShortstr (queueUnbind_Queue msg)) (
    wthen (writeShortstr (queueUnbind_Exchange msg)) (
    wthen (writeShortstr (queueUnbind_RoutingKey msg)) (
    wthen (writeTable (queueUnbind_Arguments msg)) (Inr [])))))"

definition queueUnbind_read :: "queueUnbind rd" where
  "queueUnbind_read =
    rbind readU16 (\<lambda>v_reserved1.
    rbind readShortstr (\<lambda>v_Queue.
    rbind readShortstr (\<lambda>v_Exchange.
    rbind readShortstr (\<lambda>v_RoutingKey.
    rbind readTable (\<lambda>v_Arguments.
    rreturn \<lparr> queueUnbind_reserved1 = v_reserved1,
      queueUnbind_Queue = v_Queue,
      queueUnbind_Exchange = v_Exchange,
      queueUnbind_RoutingKey = v_RoutingKey,
      queueUnbind_Arguments = v_Arguments \<rparr>)))))"

definition queueUnbind_valid :: "queueUnbind \<Rightarrow> bool" where
  "queueUnbind_valid m \<longleftrightarrow>
     length (queueUnbind_Queue m) < 256 \<and>
     length (queueUnbind_Exchange m) < 256 \<and>
     length (queueUnbind_RoutingKey m) < 256 \<and>
     wfTable (queueUnbind_Arguments m)"

definition queueUnbind_canon :: "queueUnbind \<Rightarrow> queueUnbind" where
  "queueUnbind_canon m = m\<lparr>queueUnbind_Arguments := canonEntries (queueUnbind_Arguments m)\<rparr>"

interpretation queueUnbind: message_codec
  queueUnbind_read queueUnbind_write queueUnbind_valid queueUnbind_canon
proof
  show "decodes queueUnbind_read (queueUnbind_write m) (queueUnbind_canon m)"
    if "queueUnbind_valid m" for m
    unfolding queueUnbind_read_def queueUnbind_write_def
    by (rule decode_intros | simp add: queueUnbind_canon_def that [unfolded queueUnbind_valid_def])+
  show "consumes queueUnbind_read"
    unfolding queueUnbind_read_def by (intro consume_intros)
  show "answers queueUnbind_read"
    unfolding queueUnbind_read_def by (intro answer_intros)
  show "online queueUnbind_read"
    unfolding queueUnbind_read_def by (intro online_intros)
  show "yields queueUnbind_read (\<lambda>m. queueUnbind_valid m \<and> queueUnbind_canon m = m)"
    unfolding queueUnbind_read_def
    by (rule yield_intros yields_return | simp add: queueUnbind_valid_def queueUnbind_canon_def)+
qed

subsection \<open>queueUnbindOk\<close>

type_synonym queueUnbindOk = unit

definition queueUnbindOk_id :: "queueUnbindOk \<Rightarrow> u16 \<times> u16" where
  "queueUnbindOk_id msg = (50, 51)"

definition queueUnbindOk_wait :: "queueUnbindOk \<Rightarrow> bool" where
  "queueUnbindOk_wait msg \<longleftrightarrow> True"

definition queueUnbindOk_write :: "queueUnbindOk \<Rightarrow> wresult" where
  "queueUnbindOk_write msg =
    Inr []"

definition queueUnbindOk_read :: "queueUnbindOk rd" where
  "queueUnbindOk_read =
    rreturn ()"

definition queueUnbindOk_valid :: "queueUnbindOk \<Rightarrow> bool" where
  "queueUnbindOk_valid m \<longleftrightarrow>
     True"

definition queueUnbindOk_canon :: "queueUnbindOk \<Rightarrow> queueUnbindOk" where
  "queueUnbindOk_canon m = m"

interpretation queueUnbindOk: message_codec
  queueUnbindOk_read queueUnbindOk_write queueUnbindOk_valid queueUnbindOk_canon
proof
  show "decodes queueUnbindOk_read (queueUnbindOk_write m) (queueUnbindOk_canon m)"
    if "queueUnbindOk_valid m" for m
    unfolding queueUnbindOk_read_def queueUnbindOk_write_def
    by (rule decode_intros | simp add: queueUnbindOk_canon_def that [unfolded queueUnbindOk_valid_def])+
  show "consumes queueUnbindOk_read"
    unfolding queueUnbindOk_read_def by (intro consume_intros)
  show "answers queueUnbindOk_read"
    unfolding queueUnbindOk_read_def by (intro answer_intros)
  show "online queueUnbindOk_read"
    unfolding queueUnbindOk_read_def by (intro online_intros)
  show "yields queueUnbindOk_read (\<lambda>m. queueUnbindOk_valid m \<and> queueUnbindOk_canon m = m)"
    unfolding queueUnbindOk_read_def
    by (rule yield_intros yields_return | simp add: queueUnbindOk_valid_def queueUnbindOk_canon_def)+
qed

subsection \<open>queuePurge\<close>

record queuePurge =
  queuePurge_reserved1 :: u16
  queuePurge_Queue :: gostring
  queuePurge_NoWait :: bool

definition queuePurge_id :: "queuePurge \<Rightarrow> u16 \<times> u16" where
  "queuePurge_id msg = (50, 30)"

definition queuePurge_wait :: "queuePurge \<Rightarrow> bool" where
  "queuePurge_wait msg \<longleftrightarrow> True \<and> \<not> queuePurge_NoWait msg"

definition queuePurge_write :: "queuePurge \<Rightarrow> wresult" where
  "queuePurge_write msg =
    wthen (writeU16 (queuePurge_reserved1 msg)) (
    wthen (writeShortstr (queuePurge_Queue msg)) (
    wthen (writeU8 (setBit 0 0
        (queuePurge_NoWait msg))) (Inr [])))"

definition queuePurge_read :: "queuePurge rd" where
  "queuePurge_read =
    rbind readU16 (\<lambda>v_reserved1.
    rbind readShortstr (\<lambda>v_Queue.
    rbind readU8 (\<lambda>bits.
    rreturn \<lparr> queuePurge_reserved1 = v_reserved1,
      queuePurge_Queue = v_Queue,
      queuePurge_NoWait = testBit bits 0 \<rparr>)))"

definition queuePurge_valid :: "queuePurge \<Rightarrow> bool" where
  "queuePurge_valid m \<longleftrightarrow>
     length (queuePurge_Queue m) < 256"

definition queuePurge_canon :: "queuePurge \<Rightarrow> queuePurge" where
  "queuePurge_canon m = m"

interpretation queuePurge: message_codec
  queuePurge_read queuePurge_write queuePurge_valid queuePurge_canon
proof
  show "decodes queuePurge_read (queuePurge_write m) (queuePurge_canon m)"
    if "queuePurge_valid m" for m
    unfolding queuePurge_read_def queuePurge_write_def
    by (rule decode_intros | simp add: queuePurge_canon_def that [unfolded queuePurge_valid_def])+
  show "consumes queuePurge_read"
    unfolding queuePurge_read_def by (intro consume_intros)
  show "answers queuePurge_read"
    unfolding queuePurge_read_def by (intro answer_intros)
  show "online queuePurge_read"
    unfolding queuePurge_read_def by (intro online_intros)
  show "yields queuePurge_read (\<lambda>m. queuePurge_valid m \<and> queuePurge_canon m = m)"
    unfolding queuePurge_read_def
    by (rule yield_intros yields_return | simp add: queuePurge_valid_def queuePurge_canon_def)+
qed

subsection \<open>queuePurgeOk\<close>

record queuePurgeOk =
  queuePurgeOk_MessageCount :: u32

definition queuePurgeOk_id :: "queuePurgeOk \<Rightarrow> u16 \<times> u16" where
  "queuePurgeOk_id msg = (50, 31)"

definition queuePurgeOk_wait :: "queuePurgeOk \<Rightarrow> bool" where
  "queuePurgeOk_wait msg \<longleftrightarrow> True"

definition queuePurgeOk_write :: "queuePurgeOk \<Rightarrow> wresult" where
  "queuePurgeOk_write msg =
    wthen (writeU32 (queuePurgeOk_MessageCount msg)) (Inr [])"

definition queuePurgeOk_read :: "queuePurgeOk rd" where
  "queuePurgeOk_read =
    rbind readU32 (\<lambda>v_MessageCount.
    rreturn \<lparr> queuePurgeOk_MessageCount = v_MessageCount \<rparr>)"

definition queuePurgeOk_valid :: "queuePurgeOk \<Rightarrow> bool" where
  "queuePurgeOk_valid m \<longleftrightarrow>
     True"

definition queuePurgeOk_canon :: "queuePurgeOk \<Rightarrow> queuePurgeOk" where
  "queuePurgeOk_canon m = m"

interpretation queuePurgeOk: message_codec
  queuePurgeOk_read queuePurgeOk_write queuePurgeOk_valid queuePurgeOk_canon
proof
  show "decodes queuePurgeOk_read (queuePurgeOk_write m) (queuePurgeOk_canon m)"
    if "queuePurgeOk_valid m" for m
    unfolding queuePurgeOk_read_def queuePurgeOk_write_def
    by (rule decode_intros | simp add: queuePurgeOk_canon_def that [unfolded queuePurgeOk_valid_def])+
  show "consumes queuePurgeOk_read"
    unfolding queuePurgeOk_read_def by (intro consume_intros)
  show "answers queuePurgeOk_read"
    unfolding queuePurgeOk_read_def by (intro answer_intros)
  show "online queuePurgeOk_read"
    unfolding queuePurgeOk_read_def by (intro online_intros)
  show "yields queuePurgeOk_read (\<lambda>m. queuePurgeOk_valid m \<and> queuePurgeOk_canon m = m)"
    unfolding queuePurgeOk_read_def
    by (rule yield_intros yields_return | simp add: queuePurgeOk_valid_def queuePurgeOk_canon_def)+
qed

subsection \<open>queueDelete\<close>

record queueDelete =
  queueDelete_reserved1 :: u16
  queueDelete_Queue :: gostring
  queueDelete_IfUnused :: bool
  queueDelete_IfEmpty :: bool
  queueDelete_NoWait :: bool

definition queueDelete_id :: "queueDelete \<Rightarrow> u16 \<times> u16" where
  "queueDelete_id msg = (50, 40)"

definition queueDelete_wait :: "queueDelete \<Rightarrow> bool" where
  "queueDelete_wait msg \<longleftrightarrow> True \<and> \<not> queueDelete_NoWait msg"

definition queueDelete_write :: "queueDelete \<Rightarrow> wresult" where
  "queueDelete_write msg =
    wthen (writeU16 (queueDelete_reserved1 msg)) (
    wthen (writeShortstr (queueDelete_Queue msg)) (
    wthen (writeU8 (setBit (setBit (setBit 0 0
        (queueDelete_IfUnused msg)) 1
        (queueDelete_IfEmpty msg)) 2
        (queueDelete_NoWait msg))) (Inr [])))"

definition queueDelete_read :: "queueDelete rd" where
  "queueDelete_read =
    rbind readU16 (\<lambda>v_reserved1.
    rbind readShortstr (\<lambda>v_Queue.
    rbind readU8 (\<lambda>bits.
    rreturn \<lparr> queueDelete_reserved1 = v_reserved1,
      queueDelete_Queue = v_Queue,
      queueDelete_IfUnused = testBit bits 0,
      queueDelete_IfEmpty = testBit bits 1,
      queueDelete_NoWait = testBit bits 2 \<rparr>)))"

definition queueDelete_valid :: "queueDelete \<Rightarrow> bool" where
  "queueDelete_valid m \<longleftrightarrow>
     length (queueDelete_Queue m) < 256"

definition queueDelete_canon :: "queueDelete \<Rightarrow> queueDelete" where
  "queueDelete_canon m = m"

interpretation queueDelete: message_codec
  queueDelete_read queueDelete_write queueDelete_valid queueDelete_canon
proof
  show "decodes queueDelete_read (queueDelete_write m) (queueDelete_canon m)"
    if "queueDelete_valid m" for m
    unfolding queueDelete_read_def queueDelete_write_def
    by (rule decode_intros | simp add: queueDelete_canon_def that [unfolded queueDelete_valid_def])+
  show "consumes queueDelete_read"
    unfolding queueDelete_read_def by (intro consume_intros)
  show "answers queueDelete_read"
    unfolding queueDelete_read_def by (intro answer_intros)
  show "online queueDelete_read"
    unfolding queueDelete_read_def by (intro online_intros)
  show "yields queueDelete_read (\<lambda>m. queueDelete_valid m \<and> queueDelete_canon m = m)"
    unfolding queueDelete_read_def
    by (rule yield_intros yields_return | simp add: queueDelete_valid_def queueDelete_canon_def)+
qed

subsection \<open>queueDeleteOk\<close>

record queueDeleteOk =
  queueDeleteOk_MessageCount :: u32

definition queueDeleteOk_id :: "queueDeleteOk \<Rightarrow> u16 \<times> u16" where
  "queueDeleteOk_id msg = (50, 41)"

definition queueDeleteOk_wait :: "queueDeleteOk \<Rightarrow> bool" where
  "queueDeleteOk_wait msg \<longleftrightarrow> True"

definition queueDeleteOk_write :: "queueDeleteOk \<Rightarrow> wresult" where
  "queueDeleteOk_write msg =
    wthen (writeU32 (queueDeleteOk_MessageCount msg)) (Inr [])"

definition queueDeleteOk_read :: "queueDeleteOk rd" where
  "queueDeleteOk_read =
    rbind readU32 (\<lambda>v_MessageCount.
    rreturn \<lparr> queueDeleteOk_MessageCount = v_MessageCount \<rparr>)"

definition queueDeleteOk_valid :: "queueDeleteOk \<Rightarrow> bool" where
  "queueDeleteOk_valid m \<longleftrightarrow>
     True"

definition queueDeleteOk_canon :: "queueDeleteOk \<Rightarrow> queueDeleteOk" where
  "queueDeleteOk_canon m = m"

interpretation queueDeleteOk: message_codec
  queueDeleteOk_read queueDeleteOk_write queueDeleteOk_valid queueDeleteOk_canon
proof
  show "decodes queueDeleteOk_read (queueDeleteOk_write m) (queueDeleteOk_canon m)"
    if "queueDeleteOk_valid m" for m
    unfolding queueDeleteOk_read_def queueDeleteOk_write_def
    by (rule decode_intros | simp add: queueDeleteOk_canon_def that [unfolded queueDeleteOk_valid_def])+
  show "consumes queueDeleteOk_read"
    unfolding queueDeleteOk_read_def by (intro consume_intros)
  show "answers queueDeleteOk_read"
    unfolding queueDeleteOk_read_def by (intro answer_intros)
  show "online queueDeleteOk_read"
    unfolding queueDeleteOk_read_def by (intro online_intros)
  show "yields queueDeleteOk_read (\<lambda>m. queueDeleteOk_valid m \<and> queueDeleteOk_canon m = m)"
    unfolding queueDeleteOk_read_def
    by (rule yield_intros yields_return | simp add: queueDeleteOk_valid_def queueDeleteOk_canon_def)+
qed

section \<open>The class\<close>

datatype (plugins only: code size) queue_method =
    QueueDeclare queueDeclare
  | QueueDeclareOk queueDeclareOk
  | QueueBind queueBind
  | QueueBindOk queueBindOk
  | QueueUnbind queueUnbind
  | QueueUnbindOk queueUnbindOk
  | QueuePurge queuePurge
  | QueuePurgeOk queuePurgeOk
  | QueueDelete queueDelete
  | QueueDeleteOk queueDeleteOk

fun queue_method_id :: "queue_method \<Rightarrow> u16 \<times> u16" where
  "queue_method_id (QueueDeclare msg) = queueDeclare_id msg"
| "queue_method_id (QueueDeclareOk msg) = queueDeclareOk_id msg"
| "queue_method_id (QueueBind msg) = queueBind_id msg"
| "queue_method_id (QueueBindOk msg) = queueBindOk_id msg"
| "queue_method_id (QueueUnbind msg) = queueUnbind_id msg"
| "queue_method_id (QueueUnbindOk msg) = queueUnbindOk_id msg"
| "queue_method_id (QueuePurge msg) = queuePurge_id msg"
| "queue_method_id (QueuePurgeOk msg) = queuePurgeOk_id msg"
| "queue_method_id (QueueDelete msg) = queueDelete_id msg"
| "queue_method_id (QueueDeleteOk msg) = queueDeleteOk_id msg"

fun queue_method_wait :: "queue_method \<Rightarrow> bool" where
  "queue_method_wait (QueueDeclare msg) = queueDeclare_wait msg"
| "queue_method_wait (QueueDeclareOk msg) = queueDeclareOk_wait msg"
| "queue_method_wait (QueueBind msg) = queueBind_wait msg"
| "queue_method_wait (QueueBindOk msg) = queueBindOk_wait msg"
| "queue_method_wait (QueueUnbind msg) = queueUnbind_wait msg"
| "queue_method_wait (QueueUnbindOk msg) = queueUnbindOk_wait msg"
| "queue_method_wait (QueuePurge msg) = queuePurge_wait msg"
| "queue_method_wait (QueuePurgeOk msg) = queuePurgeOk_wait msg"
| "queue_method_wait (QueueDelete msg) = queueDelete_wait msg"
| "queue_method_wait (QueueDeleteOk msg) = queueDeleteOk_wait msg"

fun queue_method_write :: "queue_method \<Rightarrow> wresult" where
  "queue_method_write (QueueDeclare msg) = queueDeclare_write msg"
| "queue_method_write (QueueDeclareOk msg) = queueDeclareOk_write msg"
| "queue_method_write (QueueBind msg) = queueBind_write msg"
| "queue_method_write (QueueBindOk msg) = queueBindOk_write msg"
| "queue_method_write (QueueUnbind msg) = queueUnbind_write msg"
| "queue_method_write (QueueUnbindOk msg) = queueUnbindOk_write msg"
| "queue_method_write (QueuePurge msg) = queuePurge_write msg"
| "queue_method_write (QueuePurgeOk msg) = queuePurgeOk_write msg"
| "queue_method_write (QueueDelete msg) = queueDelete_write msg"
| "queue_method_write (QueueDeleteOk msg) = queueDeleteOk_write msg"

definition parse_queue :: "u16 \<Rightarrow> queue_method rd" where
  "parse_queue methodId =
    (if methodId = 10 then rbind queueDeclare_read (\<lambda>m. rreturn (QueueDeclare m))
     else if methodId = 11 then rbind queueDeclareOk_read (\<lambda>m. rreturn (QueueDeclareOk m))
     else if methodId = 20 then rbind queueBind_read (\<lambda>m. rreturn (QueueBind m))
     else if methodId = 21 then rbind queueBindOk_read (\<lambda>m. rreturn (QueueBindOk m))
     else if methodId = 50 then rbind queueUnbind_read (\<lambda>m. rreturn (QueueUnbind m))
     else if methodId = 51 then rbind queueUnbindOk_read (\<lambda>m. rreturn (QueueUnbindOk m))
     else if methodId = 30 then rbind queuePurge_read (\<lambda>m. rreturn (QueuePurge m))
     else if methodId = 31 then rbind queuePurgeOk_read (\<lambda>m. rreturn (QueuePurgeOk m))
     else if methodId = 40 then rbind queueDelete_read (\<lambda>m. rreturn (QueueDelete m))
     else if methodId = 41 then rbind queueDeleteOk_read (\<lambda>m. rreturn (QueueDeleteOk m))
     else rfail (UnknownMethod methodId 50))"

fun queue_method_valid :: "queue_method \<Rightarrow> bool" where
  "queue_method_valid (QueueDeclare m) = queueDeclare_valid m"
| "queue_method_valid (QueueDeclareOk m) = queueDeclareOk_valid m"
| "queue_method_valid (QueueBind m) = queueBind_valid m"
| "queue_method_valid (QueueBindOk m) = queueBindOk_valid m"
| "queue_method_valid (QueueUnbind m) = queueUnbind_valid m"
| "queue_method_valid (QueueUnbindOk m) = queueUnbindOk_valid m"
| "queue_method_valid (QueuePurge m) = queuePurge_valid m"
| "queue_method_valid (QueuePurgeOk m) = queuePurgeOk_valid m"
| "queue_method_valid (QueueDelete m) = queueDelete_valid m"
| "queue_method_valid (QueueDeleteOk m) = queueDeleteOk_valid m"

fun queue_method_canon :: "queue_method \<Rightarrow> queue_method" where
  "queue_method_canon (QueueDeclare m) = QueueDeclare (queueDeclare_canon m)"
| "queue_method_canon (QueueDeclareOk m) = QueueDeclareOk (queueDeclareOk_canon m)"
| "queue_method_canon (QueueBind m) = QueueBind (queueBind_canon m)"
| "queue_method_canon (QueueBindOk m) = QueueBindOk (queueBindOk_canon m)"
| "queue_method_canon (QueueUnbind m) = QueueUnbind (queueUnbind_canon m)"
| "queue_method_canon (QueueUnbindOk m) = QueueUnbindOk (queueUnbindOk_canon m)"
| "queue_method_canon (QueuePurge m) = QueuePurge (queuePurge_canon m)"
| "queue_method_canon (QueuePurgeOk m) = QueuePurgeOk (queuePurgeOk_canon m)"
| "queue_method_canon (QueueDelete m) = QueueDelete (queueDelete_canon m)"
| "queue_method_canon (QueueDeleteOk m) = QueueDeleteOk (queueDeleteOk_canon m)"

lemmas queue_method_ids = queueDeclare_id_def queueDeclareOk_id_def queueBind_id_def queueBindOk_id_def queueUnbind_id_def queueUnbindOk_id_def queuePurge_id_def queuePurgeOk_id_def queueDelete_id_def queueDeleteOk_id_def

lemma queue_method_class: "fst (queue_method_id m) = 50"
  by (cases m) (simp_all add: queue_method_ids)

lemma decodes_queue:
  "queue_method_valid m \<Longrightarrow>
     decodes (parse_queue (snd (queue_method_id m))) (queue_method_write m) (queue_method_canon m)"
  by (cases m)
    (simp_all add: parse_queue_def queue_method_ids queueDeclare.codec_bind
      queueDeclareOk.codec_bind
      queueBind.codec_bind
      queueBindOk.codec_bind
      queueUnbind.codec_bind
      queueUnbindOk.codec_bind
      queuePurge.codec_bind
      queuePurgeOk.codec_bind
      queueDelete.codec_bind
      queueDeleteOk.codec_bind)

lemma consumes_parse_queue [consume_intros]: "consumes (parse_queue methodId)"
  unfolding parse_queue_def
  by (intro consume_intros queueDeclare.codec_consumes
      queueDeclareOk.codec_consumes
      queueBind.codec_consumes
      queueBindOk.codec_consumes
      queueUnbind.codec_consumes
      queueUnbindOk.codec_consumes
      queuePurge.codec_consumes
      queuePurgeOk.codec_consumes
      queueDelete.codec_consumes
      queueDeleteOk.codec_consumes)

lemma answers_parse_queue [answer_intros]: "answers (parse_queue methodId)"
  unfolding parse_queue_def
  by (intro answer_intros queueDeclare.codec_answers
      queueDeclareOk.codec_answers
      queueBind.codec_answers
      queueBindOk.codec_answers
      queueUnbind.codec_answers
      queueUnbindOk.codec_answers
      queuePurge.codec_answers
      queuePurgeOk.codec_answers
      queueDelete.codec_answers
      queueDeleteOk.codec_answers) simp

lemma online_parse_queue [online_intros]: "online (parse_queue methodId)"
  unfolding parse_queue_def
  by (intro online_intros queueDeclare.codec_online
      queueDeclareOk.codec_online
      queueBind.codec_online
      queueBindOk.codec_online
      queueUnbind.codec_online
      queueUnbindOk.codec_online
      queuePurge.codec_online
      queuePurgeOk.codec_online
      queueDelete.codec_online
      queueDeleteOk.codec_online)

lemma yields_parse_queue [yield_intros]:
  "yields (parse_queue methodId) (\<lambda>m. queue_method_valid m \<and> queue_method_canon m = m \<and> queue_method_id m = (50, methodId))"
  unfolding parse_queue_def
  by (rule yields_if yield_intros yields_return queueDeclare.codec_yields
      queueDeclareOk.codec_yields
      queueBind.codec_yields
      queueBindOk.codec_yields
      queueUnbind.codec_yields
      queueUnbindOk.codec_yields
      queuePurge.codec_yields
      queuePurgeOk.codec_yields
      queueDelete.codec_yields
      queueDeleteOk.codec_yields
      | simp add: queue_method_ids)+

end
