(* ===== verification/MethodsBasic.thy ===== *)
theory MethodsBasic
  imports Properties
begin

text \<open>
  The methods of the basic class (class id 60) of \<open>spec091.go\<close>: for each struct its record, \<open>id\<close>, \<open>wait\<close>,
  \<open>write\<close> and \<open>read\<close>, and the interpretation of \<open>message_codec\<close> which proves its round trip.  The
  record fields carry the struct's name in front of the field's.  Then the class as a datatype, its
  part of the \<open>message\<close> interface, and its arm of the switch of \<open>parseMethodFrame\<close>.
\<close>

section \<open>Method structs\<close>

subsection \<open>basicQos\<close>

record basicQos =
  basicQos_PrefetchSize :: u32
  basicQos_PrefetchCount :: u16
  basicQos_Global :: bool

definition basicQos_id :: "basicQos \<Rightarrow> u16 \<times> u16" where
  "basicQos_id msg = (60, 10)"

definition basicQos_wait :: "basicQos \<Rightarrow> bool" where
  "basicQos_wait msg \<longleftrightarrow> True"

definition basicQos_write :: "basicQos \<Rightarrow> wresult" where
  "basicQos_write msg =
    wthen (writeU32 (basicQos_PrefetchSize msg)) (
    wthen (writeU16 (basicQos_PrefetchCount msg)) (
    wthen (writeU8 (setBit 0 0
        (basicQos_Global msg))) (Inr [])))"

definition basicQos_read :: "basicQos rd" where
  "basicQos_read =
    rbind readU32 (\<lambda>v_PrefetchSize.
    rbind readU16 (\<lambda>v_PrefetchCount.
    rbind readU8 (\<lambda>bits.
    rreturn \<lparr> basicQos_PrefetchSize = v_PrefetchSize,
      basicQos_PrefetchCount = v_PrefetchCount,
      basicQos_Global = testBit bits 0 \<rparr>)))"

definition basicQos_valid :: "basicQos \<Rightarrow> bool" where
  "basicQos_valid m \<longleftrightarrow>
     True"

definition basicQos_canon :: "basicQos \<Rightarrow> basicQos" where
  "basicQos_canon m = m"

interpretation basicQos: message_codec
  basicQos_read basicQos_write basicQos_valid basicQos_canon
proof
  show "decodes basicQos_read (basicQos_write m) (basicQos_canon m)"
    if "basicQos_valid m" for m
    unfolding basicQos_read_def basicQos_write_def
    by (rule decode_intros | simp add: basicQos_canon_def that [unfolded basicQos_valid_def])+
  show "consumes basicQos_read"
    unfolding basicQos_read_def by (intro consume_intros)
  show "answers basicQos_read"
    unfolding basicQos_read_def by (intro answer_intros)
  show "online basicQos_read"
    unfolding basicQos_read_def by (intro online_intros)
  show "yields basicQos_read (\<lambda>m. basicQos_valid m \<and> basicQos_canon m = m)"
    unfolding basicQos_read_def
    by (rule yield_intros yields_return | simp add: basicQos_valid_def basicQos_canon_def)+
qed

subsection \<open>basicQosOk\<close>

type_synonym basicQosOk = unit

definition basicQosOk_id :: "basicQosOk \<Rightarrow> u16 \<times> u16" where
  "basicQosOk_id msg = (60, 11)"

definition basicQosOk_wait :: "basicQosOk \<Rightarrow> bool" where
  "basicQosOk_wait msg \<longleftrightarrow> True"

definition basicQosOk_write :: "basicQosOk \<Rightarrow> wresult" where
  "basicQosOk_write msg =
    Inr []"

definition basicQosOk_read :: "basicQosOk rd" where
  "basicQosOk_read =
    rreturn ()"

definition basicQosOk_valid :: "basicQosOk \<Rightarrow> bool" where
  "basicQosOk_valid m \<longleftrightarrow>
     True"

definition basicQosOk_canon :: "basicQosOk \<Rightarrow> basicQosOk" where
  "basicQosOk_canon m = m"

interpretation basicQosOk: message_codec
  basicQosOk_read basicQosOk_write basicQosOk_valid basicQosOk_canon
proof
  show "decodes basicQosOk_read (basicQosOk_write m) (basicQosOk_canon m)"
    if "basicQosOk_valid m" for m
    unfolding basicQosOk_read_def basicQosOk_write_def
    by (rule decode_intros | simp add: basicQosOk_canon_def that [unfolded basicQosOk_valid_def])+
  show "consumes basicQosOk_read"
    unfolding basicQosOk_read_def by (intro consume_intros)
  show "answers basicQosOk_read"
    unfolding basicQosOk_read_def by (intro answer_intros)
  show "online basicQosOk_read"
    unfolding basicQosOk_read_def by (intro online_intros)
  show "yields basicQosOk_read (\<lambda>m. basicQosOk_valid m \<and> basicQosOk_canon m = m)"
    unfolding basicQosOk_read_def
    by (rule yield_intros yields_return | simp add: basicQosOk_valid_def basicQosOk_canon_def)+
qed

subsection \<open>basicConsume\<close>

record basicConsume =
  basicConsume_reserved1 :: u16
  basicConsume_Queue :: gostring
  basicConsume_ConsumerTag :: gostring
  basicConsume_NoLocal :: bool
  basicConsume_NoAck :: bool
  basicConsume_Exclusive :: bool
  basicConsume_NoWait :: bool
  basicConsume_Arguments :: table

definition basicConsume_id :: "basicConsume \<Rightarrow> u16 \<times> u16" where
  "basicConsume_id msg = (60, 20)"

definition basicConsume_wait :: "basicConsume \<Rightarrow> bool" where
  "basicConsume_wait msg \<longleftrightarrow> True \<and> \<not> basicConsume_NoWait msg"

definition basicConsume_write :: "basicConsume \<Rightarrow> wresult" where
  "basicConsume_write msg =
    wthen (writeU16 (basicConsume_reserved1 msg)) (
    wthen (writeShortstr (basicConsume_Queue msg)) (
    wthen (writeShortstr (basicConsume_ConsumerTag msg)) (
    wthen (writeU8 (setBit (setBit (setBit (setBit 0 0
        (basicConsume_NoLocal msg)) 1
        (basicConsume_NoAck msg)) 2
        (basicConsume_Exclusive msg)) 3
        (basicConsume_NoWait msg))) (
    wthen (writeTable (basicConsume_Arguments msg)) (Inr [])))))"

definition basicConsume_read :: "basicConsume rd" where
  "basicConsume_read =
    rbind readU16 (\<lambda>v_reserved1.
    rbind readShortstr (\<lambda>v_Queue.
    rbind readShortstr (\<lambda>v_ConsumerTag.
    rbind readU8 (\<lambda>bits.
    rbind readTable (\<lambda>v_Arguments.
    rreturn \<lparr> basicConsume_reserved1 = v_reserved1,
      basicConsume_Queue = v_Queue,
      basicConsume_ConsumerTag = v_ConsumerTag,
      basicConsume_NoLocal = testBit bits 0,
      basicConsume_NoAck = testBit bits 1,
      basicConsume_Exclusive = testBit bits 2,
      basicConsume_NoWait = testBit bits 3,
      basicConsume_Arguments = v_Arguments \<rparr>)))))"

definition basicConsume_valid :: "basicConsume \<Rightarrow> bool" where
  "basicConsume_valid m \<longleftrightarrow>
     length (basicConsume_Queue m) < 256 \<and>
     length (basicConsume_ConsumerTag m) < 256 \<and>
     wfTable (basicConsume_Arguments m)"

definition basicConsume_canon :: "basicConsume \<Rightarrow> basicConsume" where
  "basicConsume_canon m = m\<lparr>basicConsume_Arguments := canonEntries (basicConsume_Arguments m)\<rparr>"

interpretation basicConsume: message_codec
  basicConsume_read basicConsume_write basicConsume_valid basicConsume_canon
proof
  show "decodes basicConsume_read (basicConsume_write m) (basicConsume_canon m)"
    if "basicConsume_valid m" for m
    unfolding basicConsume_read_def basicConsume_write_def
    by (rule decode_intros | simp add: basicConsume_canon_def that [unfolded basicConsume_valid_def])+
  show "consumes basicConsume_read"
    unfolding basicConsume_read_def by (intro consume_intros)
  show "answers basicConsume_read"
    unfolding basicConsume_read_def by (intro answer_intros)
  show "online basicConsume_read"
    unfolding basicConsume_read_def by (intro online_intros)
  show "yields basicConsume_read (\<lambda>m. basicConsume_valid m \<and> basicConsume_canon m = m)"
    unfolding basicConsume_read_def
    by (rule yield_intros yields_return | simp add: basicConsume_valid_def basicConsume_canon_def)+
qed

subsection \<open>basicConsumeOk\<close>

record basicConsumeOk =
  basicConsumeOk_ConsumerTag :: gostring

definition basicConsumeOk_id :: "basicConsumeOk \<Rightarrow> u16 \<times> u16" where
  "basicConsumeOk_id msg = (60, 21)"

definition basicConsumeOk_wait :: "basicConsumeOk \<Rightarrow> bool" where
  "basicConsumeOk_wait msg \<longleftrightarrow> True"

definition basicConsumeOk_write :: "basicConsumeOk \<Rightarrow> wresult" where
  "basicConsumeOk_write msg =
    wthen (writeShortstr (basicConsumeOk_ConsumerTag msg)) (Inr [])"

definition basicConsumeOk_read :: "basicConsumeOk rd" where
  "basicConsumeOk_read =
    rbind readShortstr (\<lambda>v_ConsumerTag.
    rreturn \<lparr> basicConsumeOk_ConsumerTag = v_ConsumerTag \<rparr>)"

definition basicConsumeOk_valid :: "basicConsumeOk \<Rightarrow> bool" where
  "basicConsumeOk_valid m \<longleftrightarrow>
     length (basicConsumeOk_ConsumerTag m) < 256"

definition basicConsumeOk_canon :: "basicConsumeOk \<Rightarrow> basicConsumeOk" where
  "basicConsumeOk_canon m = m"

interpretation basicConsumeOk: message_codec
  basicConsumeOk_read basicConsumeOk_write basicConsumeOk_valid basicConsumeOk_canon
proof
  show "decodes basicConsumeOk_read (basicConsumeOk_write m) (basicConsumeOk_canon m)"
    if "basicConsumeOk_valid m" for m
    unfolding basicConsumeOk_read_def basicConsumeOk_write_def
    by (rule decode_intros | simp add: basicConsumeOk_canon_def that [unfolded basicConsumeOk_valid_def])+
  show "consumes basicConsumeOk_read"
    unfolding basicConsumeOk_read_def by (intro consume_intros)
  show "answers basicConsumeOk_read"
    unfolding basicConsumeOk_read_def by (intro answer_intros)
  show "online basicConsumeOk_read"
    unfolding basicConsumeOk_read_def by (intro online_intros)
  show "yields basicConsumeOk_read (\<lambda>m. basicConsumeOk_valid m \<and> basicConsumeOk_canon m = m)"
    unfolding basicConsumeOk_read_def
    by (rule yield_intros yields_return | simp add: basicConsumeOk_valid_def basicConsumeOk_canon_def)+
qed

subsection \<open>basicCancel\<close>

record basicCancel =
  basicCancel_ConsumerTag :: gostring
  basicCancel_NoWait :: bool

definition basicCancel_id :: "basicCancel \<Rightarrow> u16 \<times> u16" where
  "basicCancel_id msg = (60, 30)"

definition basicCancel_wait :: "basicCancel \<Rightarrow> bool" where
  "basicCancel_wait msg \<longleftrightarrow> True \<and> \<not> basicCancel_NoWait msg"

definition basicCancel_write :: "basicCancel \<Rightarrow> wresult" where
  "basicCancel_write msg =
    wthen (writeShortstr (basicCancel_ConsumerTag msg)) (
    wthen (writeU8 (setBit 0 0
        (basicCancel_NoWait msg))) (Inr []))"

definition basicCancel_read :: "basicCancel rd" where
  "basicCancel_read =
    rbind readShortstr (\<lambda>v_ConsumerTag.
    rbind readU8 (\<lambda>bits.
    rreturn \<lparr> basicCancel_ConsumerTag = v_ConsumerTag,
      basicCancel_NoWait = testBit bits 0 \<rparr>))"

definition basicCancel_valid :: "basicCancel \<Rightarrow> bool" where
  "basicCancel_valid m \<longleftrightarrow>
     length (basicCancel_ConsumerTag m) < 256"

definition basicCancel_canon :: "basicCancel \<Rightarrow> basicCancel" where
  "basicCancel_canon m = m"

interpretation basicCancel: message_codec
  basicCancel_read basicCancel_write basicCancel_valid basicCancel_canon
proof
  show "decodes basicCancel_read (basicCancel_write m) (basicCancel_canon m)"
    if "basicCancel_valid m" for m
    unfolding basicCancel_read_def basicCancel_write_def
    by (rule decode_intros | simp add: basicCancel_canon_def that [unfolded basicCancel_valid_def])+
  show "consumes basicCancel_read"
    unfolding basicCancel_read_def by (intro consume_intros)
  show "answers basicCancel_read"
    unfolding basicCancel_read_def by (intro answer_intros)
  show "online basicCancel_read"
    unfolding basicCancel_read_def by (intro online_intros)
  show "yields basicCancel_read (\<lambda>m. basicCancel_valid m \<and> basicCancel_canon m = m)"
    unfolding basicCancel_read_def
    by (rule yield_intros yields_return | simp add: basicCancel_valid_def basicCancel_canon_def)+
qed

subsection \<open>basicCancelOk\<close>

record basicCancelOk =
  basicCancelOk_ConsumerTag :: gostring

definition basicCancelOk_id :: "basicCancelOk \<Rightarrow> u16 \<times> u16" where
  "basicCancelOk_id msg = (60, 31)"

definition basicCancelOk_wait :: "basicCancelOk \<Rightarrow> bool" where
  "basicCancelOk_wait msg \<longleftrightarrow> True"

definition basicCancelOk_write :: "basicCancelOk \<Rightarrow> wresult" where
  "basicCancelOk_write msg =
    wthen (writeShortstr (basicCancelOk_ConsumerTag msg)) (Inr [])"

definition basicCancelOk_read :: "basicCancelOk rd" where
  "basicCancelOk_read =
    rbind readShortstr (\<lambda>v_ConsumerTag.
    rreturn \<lparr> basicCancelOk_ConsumerTag = v_ConsumerTag \<rparr>)"

definition basicCancelOk_valid :: "basicCancelOk \<Rightarrow> bool" where
  "basicCancelOk_valid m \<longleftrightarrow>
     length (basicCancelOk_ConsumerTag m) < 256"

definition basicCancelOk_canon :: "basicCancelOk \<Rightarrow> basicCancelOk" where
  "basicCancelOk_canon m = m"

interpretation basicCancelOk: message_codec
  basicCancelOk_read basicCancelOk_write basicCancelOk_valid basicCancelOk_canon
proof
  show "decodes basicCancelOk_read (basicCancelOk_write m) (basicCancelOk_canon m)"
    if "basicCancelOk_valid m" for m
    unfolding basicCancelOk_read_def basicCancelOk_write_def
    by (rule decode_intros | simp add: basicCancelOk_canon_def that [unfolded basicCancelOk_valid_def])+
  show "consumes basicCancelOk_read"
    unfolding basicCancelOk_read_def by (intro consume_intros)
  show "answers basicCancelOk_read"
    unfolding basicCancelOk_read_def by (intro answer_intros)
  show "online basicCancelOk_read"
    unfolding basicCancelOk_read_def by (intro online_intros)
  show "yields basicCancelOk_read (\<lambda>m. basicCancelOk_valid m \<and> basicCancelOk_canon m = m)"
    unfolding basicCancelOk_read_def
    by (rule yield_intros yields_return | simp add: basicCancelOk_valid_def basicCancelOk_canon_def)+
qed

subsection \<open>basicPublish\<close>

record basicPublish =
  basicPublish_reserved1 :: u16
  basicPublish_Exchange :: gostring
  basicPublish_RoutingKey :: gostring
  basicPublish_Mandatory :: bool
  basicPublish_Immediate :: bool
  basicPublish_Properties :: properties
  basicPublish_Body :: bytes

definition basicPublish_id :: "basicPublish \<Rightarrow> u16 \<times> u16" where
  "basicPublish_id msg = (60, 40)"

definition basicPublish_wait :: "basicPublish \<Rightarrow> bool" where
  "basicPublish_wait msg \<longleftrightarrow> False"

definition basicPublish_write :: "basicPublish \<Rightarrow> wresult" where
  "basicPublish_write msg =
    wthen (writeU16 (basicPublish_reserved1 msg)) (
    wthen (writeShortstr (basicPublish_Exchange msg)) (
    wthen (writeShortstr (basicPublish_RoutingKey msg)) (
    wthen (writeU8 (setBit (setBit 0 0
        (basicPublish_Mandatory msg)) 1
        (basicPublish_Immediate msg))) (Inr []))))"

definition basicPublish_read :: "basicPublish rd" where
  "basicPublish_read =
    rbind readU16 (\<lambda>v_reserved1.
    rbind readShortstr (\<lambda>v_Exchange.
    rbind readShortstr (\<lambda>v_RoutingKey.
    rbind readU8 (\<lambda>bits.
    rreturn \<lparr> basicPublish_reserved1 = v_reserved1,
      basicPublish_Exchange = v_Exchange,
      basicPublish_RoutingKey = v_RoutingKey,
      basicPublish_Mandatory = testBit bits 0,
      basicPublish_Immediate = testBit bits 1,
      basicPublish_Properties = noProperties,
      basicPublish_Body = [] \<rparr>))))"

definition basicPublish_valid :: "basicPublish \<Rightarrow> bool" where
  "basicPublish_valid m \<longleftrightarrow>
     length (basicPublish_Exchange m) < 256 \<and>
     length (basicPublish_RoutingKey m) < 256"

definition basicPublish_canon :: "basicPublish \<Rightarrow> basicPublish" where
  "basicPublish_canon m = m\<lparr>basicPublish_Properties := noProperties,
      basicPublish_Body := []\<rparr>"

interpretation basicPublish: message_codec
  basicPublish_read basicPublish_write basicPublish_valid basicPublish_canon
proof
  show "decodes basicPublish_read (basicPublish_write m) (basicPublish_canon m)"
    if "basicPublish_valid m" for m
    unfolding basicPublish_read_def basicPublish_write_def
    by (rule decode_intros | simp add: basicPublish_canon_def that [unfolded basicPublish_valid_def])+
  show "consumes basicPublish_read"
    unfolding basicPublish_read_def by (intro consume_intros)
  show "answers basicPublish_read"
    unfolding basicPublish_read_def by (intro answer_intros)
  show "online basicPublish_read"
    unfolding basicPublish_read_def by (intro online_intros)
  show "yields basicPublish_read (\<lambda>m. basicPublish_valid m \<and> basicPublish_canon m = m)"
    unfolding basicPublish_read_def
    by (rule yield_intros yields_return | simp add: basicPublish_valid_def basicPublish_canon_def)+
qed

subsection \<open>basicReturn\<close>

record basicReturn =
  basicReturn_ReplyCode :: u16
  basicReturn_ReplyText :: gostring
  basicReturn_Exchange :: gostring
  basicReturn_RoutingKey :: gostring
  basicReturn_Properties :: properties
  basicReturn_Body :: bytes

definition basicReturn_id :: "basicReturn \<Rightarrow> u16 \<times> u16" where
  "basicReturn_id msg = (60, 50)"

definition basicReturn_wait :: "basicReturn \<Rightarrow> bool" where
  "basicReturn_wait msg \<longleftrightarrow> False"

definition basicReturn_write :: "basicReturn \<Rightarrow> wresult" where
  "basicReturn_write msg =
    wthen (writeU16 (basicReturn_ReplyCode msg)) (
    wthen (writeShortstr (basicReturn_ReplyText msg)) (
    wthen (writeShortstr (basicReturn_Exchange msg)) (
    wthen (writeShortstr (basicReturn_RoutingKey msg)) (Inr []))))"

definition basicReturn_read :: "basicReturn rd" where
  "basicReturn_read =
    rbind readU16 (\<lambda>v_ReplyCode.
    rbind readShortstr (\<lambda>v_ReplyText.
    rbind readShortstr (\<lambda>v_Exchange.
    rbind readShortstr (\<lambda>v_RoutingKey.
    rreturn \<lparr> basicReturn_ReplyCode = v_ReplyCode,
      basicReturn_ReplyText = v_ReplyText,
      basicReturn_Exchange = v_Exchange,
      basicReturn_RoutingKey = v_RoutingKey,
      basicReturn_Properties = noProperties,
      basicReturn_Body = [] \<rparr>))))"

definition basicReturn_valid :: "basicReturn \<Rightarrow> bool" where
  "basicReturn_valid m \<longleftrightarrow>
     length (basicReturn_ReplyText m) < 256 \<and>
     length (basicReturn_Exchange m) < 256 \<and>
     length (basicReturn_RoutingKey m) < 256"

definition basicReturn_canon :: "basicReturn \<Rightarrow> basicReturn" where
  "basicReturn_canon m = m\<lparr>basicReturn_Properties := noProperties,
      basicReturn_Body := []\<rparr>"

interpretation basicReturn: message_codec
  basicReturn_read basicReturn_write basicReturn_valid basicReturn_canon
proof
  show "decodes basicReturn_read (basicReturn_write m) (basicReturn_canon m)"
    if "basicReturn_valid m" for m
    unfolding basicReturn_read_def basicReturn_write_def
    by (rule decode_intros | simp add: basicReturn_canon_def that [unfolded basicReturn_valid_def])+
  show "consumes basicReturn_read"
    unfolding basicReturn_read_def by (intro consume_intros)
  show "answers basicReturn_read"
    unfolding basicReturn_read_def by (intro answer_intros)
  show "online basicReturn_read"
    unfolding basicReturn_read_def by (intro online_intros)
  show "yields basicReturn_read (\<lambda>m. basicReturn_valid m \<and> basicReturn_canon m = m)"
    unfolding basicReturn_read_def
    by (rule yield_intros yields_return | simp add: basicReturn_valid_def basicReturn_canon_def)+
qed

subsection \<open>basicDeliver\<close>

record basicDeliver =
  basicDeliver_ConsumerTag :: gostring
  basicDeliver_DeliveryTag :: u64
  basicDeliver_Redelivered :: bool
  basicDeliver_Exchange :: gostring
  basicDeliver_RoutingKey :: gostring
  basicDeliver_Properties :: properties
  basicDeliver_Body :: bytes

definition basicDeliver_id :: "basicDeliver \<Rightarrow> u16 \<times> u16" where
  "basicDeliver_id msg = (60, 60)"

definition basicDeliver_wait :: "basicDeliver \<Rightarrow> bool" where
  "basicDeliver_wait msg \<longleftrightarrow> False"

definition basicDeliver_write :: "basicDeliver \<Rightarrow> wresult" where
  "basicDeliver_write msg =
    wthen (writeShortstr (basicDeliver_ConsumerTag msg)) (
    wthen (writeU64 (basicDeliver_DeliveryTag msg)) (
    wthen (writeU8 (setBit 0 0
        (basicDeliver_Redelivered msg))) (
    wthen (writeShortstr (basicDeliver_Exchange msg)) (
    wthen (writeShortstr (basicDeliver_RoutingKey msg)) (Inr [])))))"

definition basicDeliver_read :: "basicDeliver rd" where
  "basicDeliver_read =
    rbind readShortstr (\<lambda>v_ConsumerTag.
    rbind readU64 (\<lambda>v_DeliveryTag.
    rbind readU8 (\<lambda>bits.
    rbind readShortstr (\<lambda>v_Exchange.
    rbind readShortstr (\<lambda>v_RoutingKey.
    rreturn \<lparr> basicDeliver_ConsumerTag = v_ConsumerTag,
      basicDeliver_DeliveryTag = v_DeliveryTag,
      basicDeliver_Redelivered = testBit bits 0,
      basicDeliver_Exchange = v_Exchange,
      basicDeliver_RoutingKey = v_RoutingKey,
      basicDeliver_Properties = noProperties,
      basicDeliver_Body = [] \<rparr>)))))"

definition basicDeliver_valid :: "basicDeliver \<Rightarrow> bool" where
  "basicDeliver_valid m \<longleftrightarrow>
     length (basicDeliver_ConsumerTag m) < 256 \<and>
     length (basicDeliver_Exchange m) < 256 \<and>
     length (basicDeliver_RoutingKey m) < 256"

definition basicDeliver_canon :: "basicDeliver \<Rightarrow> basicDeliver" where
  "basicDeliver_canon m = m\<lparr>basicDeliver_Properties := noProperties,
      basicDeliver_Body := []\<rparr>"

interpretation basicDeliver: message_codec
  basicDeliver_read basicDeliver_write basicDeliver_valid basicDeliver_canon
proof
  show "decodes basicDeliver_read (basicDeliver_write m) (basicDeliver_canon m)"
    if "basicDeliver_valid m" for m
    unfolding basicDeliver_read_def basicDeliver_write_def
    by (rule decode_intros | simp add: basicDeliver_canon_def that [unfolded basicDeliver_valid_def])+
  show "consumes basicDeliver_read"
    unfolding basicDeliver_read_def by (intro consume_intros)
  show "answers basicDeliver_read"
    unfolding basicDeliver_read_def by (intro answer_intros)
  show "online basicDeliver_read"
    unfolding basicDeliver_read_def by (intro online_intros)
  show "yields basicDeliver_read (\<lambda>m. basicDeliver_valid m \<and> basicDeliver_canon m = m)"
    unfolding basicDeliver_read_def
    by (rule yield_intros yields_return | simp add: basicDeliver_valid_def basicDeliver_canon_def)+
qed

subsection \<open>basicGet\<close>

record basicGet =
  basicGet_reserved1 :: u16
  basicGet_Queue :: gostring
  basicGet_NoAck :: bool

definition basicGet_id :: "basicGet \<Rightarrow> u16 \<times> u16" where
  "basicGet_id msg = (60, 70)"

definition basicGet_wait :: "basicGet \<Rightarrow> bool" where
  "basicGet_wait msg \<longleftrightarrow> True"

definition basicGet_write :: "basicGet \<Rightarrow> wresult" where
  "basicGet_write msg =
    wthen (writeU16 (basicGet_reserved1 msg)) (
    wthen (writeShortstr (basicGet_Queue msg)) (
    wthen (writeU8 (setBit 0 0
        (basicGet_NoAck msg))) (Inr [])))"

definition basicGet_read :: "basicGet rd" where
  "basicGet_read =
    rbind readU16 (\<lambda>v_reserved1.
    rbind readShortstr (\<lambda>v_Queue.
    rbind readU8 (\<lambda>bits.
    rreturn \<lparr> basicGet_reserved1 = v_reserved1,
      basicGet_Queue = v_Queue,
      basicGet_NoAck = testBit bits 0 \<rparr>)))"

definition basicGet_valid :: "basicGet \<Rightarrow> bool" where
  "basicGet_valid m \<longleftrightarrow>
     length (basicGet_Queue m) < 256"

definition basicGet_canon :: "basicGet \<Rightarrow> basicGet" where
  "basicGet_canon m = m"

interpretation basicGet: message_codec
  basicGet_read basicGet_write basicGet_valid basicGet_canon
proof
  show "decodes basicGet_read (basicGet_write m) (basicGet_canon m)"
    if "basicGet_valid m" for m
    unfolding basicGet_read_def basicGet_write_def
    by (rule decode_intros | simp add: basicGet_canon_def that [unfolded basicGet_valid_def])+
  show "consumes basicGet_read"
    unfolding basicGet_read_def by (intro consume_intros)
  show "answers basicGet_read"
    unfolding basicGet_read_def by (intro answer_intros)
  show "online basicGet_read"
    unfolding basicGet_read_def by (intro online_intros)
  show "yields basicGet_read (\<lambda>m. basicGet_valid m \<and> basicGet_canon m = m)"
    unfolding basicGet_read_def
    by (rule yield_intros yields_return | simp add: basicGet_valid_def basicGet_canon_def)+
qed

subsection \<open>basicGetOk\<close>

record basicGetOk =
  basicGetOk_DeliveryTag :: u64
  basicGetOk_Redelivered :: bool
  basicGetOk_Exchange :: gostring
  basicGetOk_RoutingKey :: gostring
  basicGetOk_MessageCount :: u32
  basicGetOk_Properties :: properties
  basicGetOk_Body :: bytes

definition basicGetOk_id :: "basicGetOk \<Rightarrow> u16 \<times> u16" where
  "basicGetOk_id msg = (60, 71)"

definition basicGetOk_wait :: "basicGetOk \<Rightarrow> bool" where
  "basicGetOk_wait msg \<longleftrightarrow> True"

definition basicGetOk_write :: "basicGetOk \<Rightarrow> wresult" where
  "basicGetOk_write msg =
    wthen (writeU64 (basicGetOk_DeliveryTag msg)) (
    wthen (writeU8 (setBit 0 0
        (basicGetOk_Redelivered msg))) (
    wthen (writeShortstr (basicGetOk_Exchange msg)) (
    wthen (writeShortstr (basicGetOk_RoutingKey msg)) (
    wthen (writeU32 (basicGetOk_MessageCount msg)) (Inr [])))))"

definition basicGetOk_read :: "basicGetOk rd" where
  "basicGetOk_read =
    rbind readU64 (\<lambda>v_DeliveryTag.
    rbind readU8 (\<lambda>bits.
    rbind readShortstr (\<lambda>v_Exchange.
    rbind readShortstr (\<lambda>v_RoutingKey.
    rbind readU32 (\<lambda>v_MessageCount.
    rreturn \<lparr> basicGetOk_DeliveryTag = v_DeliveryTag,
      basicGetOk_Redelivered = testBit bits 0,
      basicGetOk_Exchange = v_Exchange,
      basicGetOk_RoutingKey = v_RoutingKey,
      basicGetOk_MessageCount = v_MessageCount,
      basicGetOk_Properties = noProperties,
      basicGetOk_Body = [] \<rparr>)))))"

definition basicGetOk_valid :: "basicGetOk \<Rightarrow> bool" where
  "basicGetOk_valid m \<longleftrightarrow>
     length (basicGetOk_Exchange m) < 256 \<and>
     length (basicGetOk_RoutingKey m) < 256"

definition basicGetOk_canon :: "basicGetOk \<Rightarrow> basicGetOk" where
  "basicGetOk_canon m = m\<lparr>basicGetOk_Properties := noProperties,
      basicGetOk_Body := []\<rparr>"

interpretation basicGetOk: message_codec
  basicGetOk_read basicGetOk_write basicGetOk_valid basicGetOk_canon
proof
  show "decodes basicGetOk_read (basicGetOk_write m) (basicGetOk_canon m)"
    if "basicGetOk_valid m" for m
    unfolding basicGetOk_read_def basicGetOk_write_def
    by (rule decode_intros | simp add: basicGetOk_canon_def that [unfolded basicGetOk_valid_def])+
  show "consumes basicGetOk_read"
    unfolding basicGetOk_read_def by (intro consume_intros)
  show "answers basicGetOk_read"
    unfolding basicGetOk_read_def by (intro answer_intros)
  show "online basicGetOk_read"
    unfolding basicGetOk_read_def by (intro online_intros)
  show "yields basicGetOk_read (\<lambda>m. basicGetOk_valid m \<and> basicGetOk_canon m = m)"
    unfolding basicGetOk_read_def
    by (rule yield_intros yields_return | simp add: basicGetOk_valid_def basicGetOk_canon_def)+
qed

subsection \<open>basicGetEmpty\<close>

record basicGetEmpty =
  basicGetEmpty_reserved1 :: gostring

definition basicGetEmpty_id :: "basicGetEmpty \<Rightarrow> u16 \<times> u16" where
  "basicGetEmpty_id msg = (60, 72)"

definition basicGetEmpty_wait :: "basicGetEmpty \<Rightarrow> bool" where
  "basicGetEmpty_wait msg \<longleftrightarrow> True"

definition basicGetEmpty_write :: "basicGetEmpty \<Rightarrow> wresult" where
  "basicGetEmpty_write msg =
    wthen (writeShortstr (basicGetEmpty_reserved1 msg)) (Inr [])"

definition basicGetEmpty_read :: "basicGetEmpty rd" where
  "basicGetEmpty_read =
    rbind readShortstr (\<lambda>v_reserved1.
    rreturn \<lparr> basicGetEmpty_reserved1 = v_reserved1 \<rparr>)"

definition basicGetEmpty_valid :: "basicGetEmpty \<Rightarrow> bool" where
  "basicGetEmpty_valid m \<longleftrightarrow>
     length (basicGetEmpty_reserved1 m) < 256"

definition basicGetEmpty_canon :: "basicGetEmpty \<Rightarrow> basicGetEmpty" where
  "basicGetEmpty_canon m = m"

interpretation basicGetEmpty: message_codec
  basicGetEmpty_read basicGetEmpty_write basicGetEmpty_valid basicGetEmpty_canon
proof
  show "decodes basicGetEmpty_read (basicGetEmpty_write m) (basicGetEmpty_canon m)"
    if "basicGetEmpty_valid m" for m
    unfolding basicGetEmpty_read_def basicGetEmpty_write_def
    by (rule decode_intros | simp add: basicGetEmpty_canon_def that [unfolded basicGetEmpty_valid_def])+
  show "consumes basicGetEmpty_read"
    unfolding basicGetEmpty_read_def by (intro consume_intros)
  show "answers basicGetEmpty_read"
    unfolding basicGetEmpty_read_def by (intro answer_intros)
  show "online basicGetEmpty_read"
    unfolding basicGetEmpty_read_def by (intro online_intros)
  show "yields basicGetEmpty_read (\<lambda>m. basicGetEmpty_valid m \<and> basicGetEmpty_canon m = m)"
    unfolding basicGetEmpty_read_def
    by (rule yield_intros yields_return | simp add: basicGetEmpty_valid_def basicGetEmpty_canon_def)+
qed

subsection \<open>basicAck\<close>

record basicAck =
  basicAck_DeliveryTag :: u64
  basicAck_Multiple :: bool

definition basicAck_id :: "basicAck \<Rightarrow> u16 \<times> u16" where
  "basicAck_id msg = (60, 80)"

definition basicAck_wait :: "basicAck \<Rightarrow> bool" where
  "basicAck_wait msg \<longleftrightarrow> False"

definition basicAck_write :: "basicAck \<Rightarrow> wresult" where
  "basicAck_write msg =
    wthen (writeU64 (basicAck_DeliveryTag msg)) (
    wthen (writeU8 (setBit 0 0
        (basicAck_Multiple msg))) (Inr []))"

definition basicAck_read :: "basicAck rd" where
  "basicAck_read =
    rbind readU64 (\<lambda>v_DeliveryTag.
    rbind readU8 (\<lambda>bits.
    rreturn \<lparr> basicAck_DeliveryTag = v_DeliveryTag,
      basicAck_Multiple = testBit bits 0 \<rparr>))"

definition basicAck_valid :: "basicAck \<Rightarrow> bool" where
  "basicAck_valid m \<longleftrightarrow>
     True"

definition basicAck_canon :: "basicAck \<Rightarrow> basicAck" where
  "basicAck_canon m = m"

interpretation basicAck: message_codec
  basicAck_read basicAck_write basicAck_valid basicAck_canon
proof
  show "decodes basicAck_read (basicAck_write m) (basicAck_canon m)"
    if "basicAck_valid m" for m
    unfolding basicAck_read_def basicAck_write_def
    by (rule decode_intros | simp add: basicAck_canon_def that [unfolded basicAck_valid_def])+
  show "consumes basicAck_read"
    unfolding basicAck_read_def by (intro consume_intros)
  show "answers basicAck_read"
    unfolding basicAck_read_def by (intro answer_intros)
  show "online basicAck_read"
    unfolding basicAck_read_def by (intro online_intros)
  show "yields basicAck_read (\<lambda>m. basicAck_valid m \<and> basicAck_canon m = m)"
    unfolding basicAck_read_def
    by (rule yield_intros yields_return | simp add: basicAck_valid_def basicAck_canon_def)+
qed

subsection \<open>basicReject\<close>

record basicReject =
  basicReject_DeliveryTag :: u64
  basicReject_Requeue :: bool

definition basicReject_id :: "basicReject \<Rightarrow> u16 \<times> u16" where
  "basicReject_id msg = (60, 90)"

definition basicReject_wait :: "basicReject \<Rightarrow> bool" where
  "basicReject_wait msg \<longleftrightarrow> False"

definition basicReject_write :: "basicReject \<Rightarrow> wresult" where
  "basicReject_write msg =
    wthen (writeU64 (basicReject_DeliveryTag msg)) (
    wthen (writeU8 (setBit 0 0
        (basicReject_Requeue msg))) (Inr []))"

definition basicReject_read :: "basicReject rd" where
  "basicReject_read =
    rbind readU64 (\<lambda>v_DeliveryTag.
    rbind readU8 (\<lambda>bits.
    rreturn \<lparr> basicReject_DeliveryTag = v_DeliveryTag,
      basicReject_Requeue = testBit bits 0 \<rparr>))"

definition basicReject_valid :: "basicReject \<Rightarrow> bool" where
  "basicReject_valid m \<longleftrightarrow>
     True"

definition basicReject_canon :: "basicReject \<Rightarrow> basicReject" where
  "basicReject_canon m = m"

interpretation basicReject: message_codec
  basicReject_read basicReject_write basicReject_valid basicReject_canon
proof
  show "decodes basicReject_read (basicReject_write m) (basicReject_canon m)"
    if "basicReject_valid m" for m
    unfolding basicReject_read_def basicReject_write_def
    by (rule decode_intros | simp add: basicReject_canon_def that [unfolded basicReject_valid_def])+
  show "consumes basicReject_read"
    unfolding basicReject_read_def by (intro consume_intros)
  show "answers basicReject_read"
    unfolding basicReject_read_def by (intro answer_intros)
  show "online basicReject_read"
    unfolding basicReject_read_def by (intro online_intros)
  show "yields basicReject_read (\<lambda>m. basicReject_valid m \<and> basicReject_canon m = m)"
    unfolding basicReject_read_def
    by (rule yield_intros yields_return | simp add: basicReject_valid_def basicReject_canon_def)+
qed

subsection \<open>basicRecoverAsync\<close>

record basicRecoverAsync =
  basicRecoverAsync_Requeue :: bool

definition basicRecoverAsync_id :: "basicRecoverAsync \<Rightarrow> u16 \<times> u16" where
  "basicRecoverAsync_id msg = (60, 100)"

definition basicRecoverAsync_wait :: "basicRecoverAsync \<Rightarrow> bool" where
  "basicRecoverAsync_wait msg \<longleftrightarrow> False"

definition basicRecoverAsync_write :: "basicRecoverAsync \<Rightarrow> wresult" where
  "basicRecoverAsync_write msg =
    wthen (writeU8 (setBit 0 0
        (basicRecoverAsync_Requeue msg))) (Inr [])"

definition basicRecoverAsync_read :: "basicRecoverAsync rd" where
  "basicRecoverAsync_read =
    rbind readU8 (\<lambda>bits.
    rreturn \<lparr> basicRecoverAsync_Requeue = testBit bits 0 \<rparr>)"

definition basicRecoverAsync_valid :: "basicRecoverAsync \<Rightarrow> bool" where
  "basicRecoverAsync_valid m \<longleftrightarrow>
     True"

definition basicRecoverAsync_canon :: "basicRecoverAsync \<Rightarrow> basicRecoverAsync" where
  "basicRecoverAsync_canon m = m"

interpretation basicRecoverAsync: message_codec
  basicRecoverAsync_read basicRecoverAsync_write basicRecoverAsync_valid basicRecoverAsync_canon
proof
  show "decodes basicRecoverAsync_read (basicRecoverAsync_write m) (basicRecoverAsync_canon m)"
    if "basicRecoverAsync_valid m" for m
    unfolding basicRecoverAsync_read_def basicRecoverAsync_write_def
    by (rule decode_intros | simp add: basicRecoverAsync_canon_def that [unfolded basicRecoverAsync_valid_def])+
  show "consumes basicRecoverAsync_read"
    unfolding basicRecoverAsync_read_def by (intro consume_intros)
  show "answers basicRecoverAsync_read"
    unfolding basicRecoverAsync_read_def by (intro answer_intros)
  show "online basicRecoverAsync_read"
    unfolding basicRecoverAsync_read_def by (intro online_intros)
  show "yields basicRecoverAsync_read (\<lambda>m. basicRecoverAsync_valid m \<and> basicRecoverAsync_canon m = m)"
    unfolding basicRecoverAsync_read_def
    by (rule yield_intros yields_return | simp add: basicRecoverAsync_valid_def basicRecoverAsync_canon_def)+
qed

subsection \<open>basicRecover\<close>

record basicRecover =
  basicRecover_Requeue :: bool

definition basicRecover_id :: "basicRecover \<Rightarrow> u16 \<times> u16" where
  "basicRecover_id msg = (60, 110)"

definition basicRecover_wait :: "basicRecover \<Rightarrow> bool" where
  "basicRecover_wait msg \<longleftrightarrow> True"

definition basicRecover_write :: "basicRecover \<Rightarrow> wresult" where
  "basicRecover_write msg =
    wthen (writeU8 (setBit 0 0
        (basicRecover_Requeue msg))) (Inr [])"

definition basicRecover_read :: "basicRecover rd" where
  "basicRecover_read =
    rbind readU8 (\<lambda>bits.
    rreturn \<lparr> basicRecover_Requeue = testBit bits 0 \<rparr>)"

definition basicRecover_valid :: "basicRecover \<Rightarrow> bool" where
  "basicRecover_valid m \<longleftrightarrow>
     True"

definition basicRecover_canon :: "basicRecover \<Rightarrow> basicRecover" where
  "basicRecover_canon m = m"

interpretation basicRecover: message_codec
  basicRecover_read basicRecover_write basicRecover_valid basicRecover_canon
proof
  show "decodes basicRecover_read (basicRecover_write m) (basicRecover_canon m)"
    if "basicRecover_valid m" for m
    unfolding basicRecover_read_def basicRecover_write_def
    by (rule decode_intros | simp add: basicRecover_canon_def that [unfolded basicRecover_valid_def])+
  show "consumes basicRecover_read"
    unfolding basicRecover_read_def by (intro consume_intros)
  show "answers basicRecover_read"
    unfolding basicRecover_read_def by (intro answer_intros)
  show "online basicRecover_read"
    unfolding basicRecover_read_def by (intro online_intros)
  show "yields basicRecover_read (\<lambda>m. basicRecover_valid m \<and> basicRecover_canon m = m)"
    unfolding basicRecover_read_def
    by (rule yield_intros yields_return | simp add: basicRecover_valid_def basicRecover_canon_def)+
qed

subsection \<open>basicRecoverOk\<close>

type_synonym basicRecoverOk = unit

definition basicRecoverOk_id :: "basicRecoverOk \<Rightarrow> u16 \<times> u16" where
  "basicRecoverOk_id msg = (60, 111)"

definition basicRecoverOk_wait :: "basicRecoverOk \<Rightarrow> bool" where
  "basicRecoverOk_wait msg \<longleftrightarrow> True"

definition basicRecoverOk_write :: "basicRecoverOk \<Rightarrow> wresult" where
  "basicRecoverOk_write msg =
    Inr []"

definition basicRecoverOk_read :: "basicRecoverOk rd" where
  "basicRecoverOk_read =
    rreturn ()"

definition basicRecoverOk_valid :: "basicRecoverOk \<Rightarrow> bool" where
  "basicRecoverOk_valid m \<longleftrightarrow>
     True"

definition basicRecoverOk_canon :: "basicRecoverOk \<Rightarrow> basicRecoverOk" where
  "basicRecoverOk_canon m = m"

interpretation basicRecoverOk: message_codec
  basicRecoverOk_read basicRecoverOk_write basicRecoverOk_valid basicRecoverOk_canon
proof
  show "decodes basicRecoverOk_read (basicRecoverOk_write m) (basicRecoverOk_canon m)"
    if "basicRecoverOk_valid m" for m
    unfolding basicRecoverOk_read_def basicRecoverOk_write_def
    by (rule decode_intros | simp add: basicRecoverOk_canon_def that [unfolded basicRecoverOk_valid_def])+
  show "consumes basicRecoverOk_read"
    unfolding basicRecoverOk_read_def by (intro consume_intros)
  show "answers basicRecoverOk_read"
    unfolding basicRecoverOk_read_def by (intro answer_intros)
  show "online basicRecoverOk_read"
    unfolding basicRecoverOk_read_def by (intro online_intros)
  show "yields basicRecoverOk_read (\<lambda>m. basicRecoverOk_valid m \<and> basicRecoverOk_canon m = m)"
    unfolding basicRecoverOk_read_def
    by (rule yield_intros yields_return | simp add: basicRecoverOk_valid_def basicRecoverOk_canon_def)+
qed

subsection \<open>basicNack\<close>

record basicNack =
  basicNack_DeliveryTag :: u64
  basicNack_Multiple :: bool
  basicNack_Requeue :: bool

definition basicNack_id :: "basicNack \<Rightarrow> u16 \<times> u16" where
  "basicNack_id msg = (60, 120)"

definition basicNack_wait :: "basicNack \<Rightarrow> bool" where
  "basicNack_wait msg \<longleftrightarrow> False"

definition basicNack_write :: "basicNack \<Rightarrow> wresult" where
  "basicNack_write msg =
    wthen (writeU64 (basicNack_DeliveryTag msg)) (
    wthen (writeU8 (setBit (setBit 0 0
        (basicNack_Multiple msg)) 1
        (basicNack_Requeue msg))) (Inr []))"

definition basicNack_read :: "basicNack rd" where
  "basicNack_read =
    rbind readU64 (\<lambda>v_DeliveryTag.
    rbind readU8 (\<lambda>bits.
    rreturn \<lparr> basicNack_DeliveryTag = v_DeliveryTag,
      basicNack_Multiple = testBit bits 0,
      basicNack_Requeue = testBit bits 1 \<rparr>))"

definition basicNack_valid :: "basicNack \<Rightarrow> bool" where
  "basicNack_valid m \<longleftrightarrow>
     True"

definition basicNack_canon :: "basicNack \<Rightarrow> basicNack" where
  "basicNack_canon m = m"

interpretation basicNack: message_codec
  basicNack_read basicNack_write basicNack_valid basicNack_canon
proof
  show "decodes basicNack_read (basicNack_write m) (basicNack_canon m)"
    if "basicNack_valid m" for m
    unfolding basicNack_read_def basicNack_write_def
    by (rule decode_intros | simp add: basicNack_canon_def that [unfolded basicNack_valid_def])+
  show "consumes basicNack_read"
    unfolding basicNack_read_def by (intro consume_intros)
  show "answers basicNack_read"
    unfolding basicNack_read_def by (intro answer_intros)
  show "online basicNack_read"
    unfolding basicNack_read_def by (intro online_intros)
  show "yields basicNack_read (\<lambda>m. basicNack_valid m \<and> basicNack_canon m = m)"
    unfolding basicNack_read_def
    by (rule yield_intros yields_return | simp add: basicNack_valid_def basicNack_canon_def)+
qed

section \<open>The class\<close>

datatype (plugins only: code size) basic_method =
    BasicQos basicQos
  | BasicQosOk basicQosOk
  | BasicConsume basicConsume
  | BasicConsumeOk basicConsumeOk
  | BasicCancel basicCancel
  | BasicCancelOk basicCancelOk
  | BasicPublish basicPublish
  | BasicReturn basicReturn
  | BasicDeliver basicDeliver
  | BasicGet basicGet
  | BasicGetOk basicGetOk
  | BasicGetEmpty basicGetEmpty
  | BasicAck basicAck
  | BasicReject basicReject
  | BasicRecoverAsync basicRecoverAsync
  | BasicRecover basicRecover
  | BasicRecoverOk basicRecoverOk
  | BasicNack basicNack

fun basic_method_id :: "basic_method \<Rightarrow> u16 \<times> u16" where
  "basic_method_id (BasicQos msg) = basicQos_id msg"
| "basic_method_id (BasicQosOk msg) = basicQosOk_id msg"
| "basic_method_id (BasicConsume msg) = basicConsume_id msg"
| "basic_method_id (BasicConsumeOk msg) = basicConsumeOk_id msg"
| "basic_method_id (BasicCancel msg) = basicCancel_id msg"
| "basic_method_id (BasicCancelOk msg) = basicCancelOk_id msg"
| "basic_method_id (BasicPublish msg) = basicPublish_id msg"
| "basic_method_id (BasicReturn msg) = basicReturn_id msg"
| "basic_method_id (BasicDeliver msg) = basicDeliver_id msg"
| "basic_method_id (BasicGet msg) = basicGet_id msg"
| "basic_method_id (BasicGetOk msg) = basicGetOk_id msg"
| "basic_method_id (BasicGetEmpty msg) = basicGetEmpty_id msg"
| "basic_method_id (BasicAck msg) = basicAck_id msg"
| "basic_method_id (BasicReject msg) = basicReject_id msg"
| "basic_method_id (BasicRecoverAsync msg) = basicRecoverAsync_id msg"
| "basic_method_id (BasicRecover msg) = basicRecover_id msg"
| "basic_method_id (BasicRecoverOk msg) = basicRecoverOk_id msg"
| "basic_method_id (BasicNack msg) = basicNack_id msg"

fun basic_method_wait :: "basic_method \<Rightarrow> bool" where
  "basic_method_wait (BasicQos msg) = basicQos_wait msg"
| "basic_method_wait (BasicQosOk msg) = basicQosOk_wait msg"
| "basic_method_wait (BasicConsume msg) = basicConsume_wait msg"
| "basic_method_wait (BasicConsumeOk msg) = basicConsumeOk_wait msg"
| "basic_method_wait (BasicCancel msg) = basicCancel_wait msg"
| "basic_method_wait (BasicCancelOk msg) = basicCancelOk_wait msg"
| "basic_method_wait (BasicPublish msg) = basicPublish_wait msg"
| "basic_method_wait (BasicReturn msg) = basicReturn_wait msg"
| "basic_method_wait (BasicDeliver msg) = basicDeliver_wait msg"
| "basic_method_wait (BasicGet msg) = basicGet_wait msg"
| "basic_method_wait (BasicGetOk msg) = basicGetOk_wait msg"
| "basic_method_wait (BasicGetEmpty msg) = basicGetEmpty_wait msg"
| "basic_method_wait (BasicAck msg) = basicAck_wait msg"
| "basic_method_wait (BasicReject msg) = basicReject_wait msg"
| "basic_method_wait (BasicRecoverAsync msg) = basicRecoverAsync_wait msg"
| "basic_method_wait (BasicRecover msg) = basicRecover_wait msg"
| "basic_method_wait (BasicRecoverOk msg) = basicRecoverOk_wait msg"
| "basic_method_wait (BasicNack msg) = basicNack_wait msg"

fun basic_method_write :: "basic_method \<Rightarrow> wresult" where
  "basic_method_write (BasicQos msg) = basicQos_write msg"
| "basic_method_write (BasicQosOk msg) = basicQosOk_write msg"
| "basic_method_write (BasicConsume msg) = basicConsume_write msg"
| "basic_method_write (BasicConsumeOk msg) = basicConsumeOk_write msg"
| "basic_method_write (BasicCancel msg) = basicCancel_write msg"
| "basic_method_write (BasicCancelOk msg) = basicCancelOk_write msg"
| "basic_method_write (BasicPublish msg) = basicPublish_write msg"
| "basic_method_write (BasicReturn msg) = basicReturn_write msg"
| "basic_method_write (BasicDeliver msg) = basicDeliver_write msg"
| "basic_method_write (BasicGet msg) = basicGet_write msg"
| "basic_method_write (BasicGetOk msg) = basicGetOk_write msg"
| "basic_method_write (BasicGetEmpty msg) = basicGetEmpty_write msg"
| "basic_method_write (BasicAck msg) = basicAck_write msg"
| "basic_method_write (BasicReject msg) = basicReject_write msg"
| "basic_method_write (BasicRecoverAsync msg) = basicRecoverAsync_write msg"
| "basic_method_write (BasicRecover msg) = basicRecover_write msg"
| "basic_method_write (BasicRecoverOk msg) = basicRecoverOk_write msg"
| "basic_method_write (BasicNack msg) = basicNack_write msg"

definition parse_basic :: "u16 \<Rightarrow> basic_method rd" where
  "parse_basic methodId =
    (if methodId = 10 then rbind basicQos_read (\<lambda>m. rreturn (BasicQos m))
     else if methodId = 11 then rbind basicQosOk_read (\<lambda>m. rreturn (BasicQosOk m))
     else if methodId = 20 then rbind basicConsume_read (\<lambda>m. rreturn (BasicConsume m))
     else if methodId = 21 then rbind basicConsumeOk_read (\<lambda>m. rreturn (BasicConsumeOk m))
     else if methodId = 30 then rbind basicCancel_read (\<lambda>m. rreturn (BasicCancel m))
     else if methodId = 31 then rbind basicCancelOk_read (\<lambda>m. rreturn (BasicCancelOk m))
     else if methodId = 40 then rbind basicPublish_read (\<lambda>m. rreturn (BasicPublish m))
     else if methodId = 50 then rbind basicReturn_read (\<lambda>m. rreturn (BasicReturn m))
     else if methodId = 60 then rbind basicDeliver_read (\<lambda>m. rreturn (BasicDeliver m))
     else if methodId = 70 then rbind basicGet_read (\<lambda>m. rreturn (BasicGet m))
     else if methodId = 71 then rbind basicGetOk_read (\<lambda>m. rreturn (BasicGetOk m))
     else if methodId = 72 then rbind basicGetEmpty_read (\<lambda>m. rreturn (BasicGetEmpty m))
     else if methodId = 80 then rbind basicAck_read (\<lambda>m. rreturn (BasicAck m))
     else if methodId = 90 then rbind basicReject_read (\<lambda>m. rreturn (BasicReject m))
     else if methodId = 100 then rbind basicRecoverAsync_read (\<lambda>m. rreturn (BasicRecoverAsync m))
     else if methodId = 110 then rbind basicRecover_read (\<lambda>m. rreturn (BasicRecover m))
     else if methodId = 111 then rbind basicRecoverOk_read (\<lambda>m. rreturn (BasicRecoverOk m))
     else if methodId = 120 then rbind basicNack_read (\<lambda>m. rreturn (BasicNack m))
     else rfail (UnknownMethod methodId 60))"

fun basic_method_valid :: "basic_method \<Rightarrow> bool" where
  "basic_method_valid (BasicQos m) = basicQos_valid m"
| "basic_method_valid (BasicQosOk m) = basicQosOk_valid m"
| "basic_method_valid (BasicConsume m) = basicConsume_valid m"
| "basic_method_valid (BasicConsumeOk m) = basicConsumeOk_valid m"
| "basic_method_valid (BasicCancel m) = basicCancel_valid m"
| "basic_method_valid (BasicCancelOk m) = basicCancelOk_valid m"
| "basic_method_valid (BasicPublish m) = basicPublish_valid m"
| "basic_method_valid (BasicReturn m) = basicReturn_valid m"
| "basic_method_valid (BasicDeliver m) = basicDeliver_valid m"
| "basic_method_valid (BasicGet m) = basicGet_valid m"
| "basic_method_valid (BasicGetOk m) = basicGetOk_valid m"
| "basic_method_valid (BasicGetEmpty m) = basicGetEmpty_valid m"
| "basic_method_valid (BasicAck m) = basicAck_valid m"
| "basic_method_valid (BasicReject m) = basicReject_valid m"
| "basic_method_valid (BasicRecoverAsync m) = basicRecoverAsync_valid m"
| "basic_method_valid (BasicRecover m) = basicRecover_valid m"
| "basic_method_valid (BasicRecoverOk m) = basicRecoverOk_valid m"
| "basic_method_valid (BasicNack m) = basicNack_valid m"

fun basic_method_canon :: "basic_method \<Rightarrow> basic_method" where
  "basic_method_canon (BasicQos m) = BasicQos (basicQos_canon m)"
| "basic_method_canon (BasicQosOk m) = BasicQosOk (basicQosOk_canon m)"
| "basic_method_canon (BasicConsume m) = BasicConsume (basicConsume_canon m)"
| "basic_method_canon (BasicConsumeOk m) = BasicConsumeOk (basicConsumeOk_canon m)"
| "basic_method_canon (BasicCancel m) = BasicCancel (basicCancel_canon m)"
| "basic_method_canon (BasicCancelOk m) = BasicCancelOk (basicCancelOk_canon m)"
| "basic_method_canon (BasicPublish m) = BasicPublish (basicPublish_canon m)"
| "basic_method_canon (BasicReturn m) = BasicReturn (basicReturn_canon m)"
| "basic_method_canon (BasicDeliver m) = BasicDeliver (basicDeliver_canon m)"
| "basic_method_canon (BasicGet m) = BasicGet (basicGet_canon m)"
| "basic_method_canon (BasicGetOk m) = BasicGetOk (basicGetOk_canon m)"
| "basic_method_canon (BasicGetEmpty m) = BasicGetEmpty (basicGetEmpty_canon m)"
| "basic_method_canon (BasicAck m) = BasicAck (basicAck_canon m)"
| "basic_method_canon (BasicReject m) = BasicReject (basicReject_canon m)"
| "basic_method_canon (BasicRecoverAsync m) = BasicRecoverAsync (basicRecoverAsync_canon m)"
| "basic_method_canon (BasicRecover m) = BasicRecover (basicRecover_canon m)"
| "basic_method_canon (BasicRecoverOk m) = BasicRecoverOk (basicRecoverOk_canon m)"
| "basic_method_canon (BasicNack m) = BasicNack (basicNack_canon m)"

lemmas basic_method_ids = basicQos_id_def basicQosOk_id_def basicConsume_id_def basicConsumeOk_id_def basicCancel_id_def basicCancelOk_id_def basicPublish_id_def basicReturn_id_def basicDeliver_id_def basicGet_id_def basicGetOk_id_def basicGetEmpty_id_def basicAck_id_def basicReject_id_def basicRecoverAsync_id_def basicRecover_id_def basicRecoverOk_id_def basicNack_id_def

lemma basic_method_class: "fst (basic_method_id m) = 60"
  by (cases m) (simp_all add: basic_method_ids)

lemma decodes_basic:
  "basic_method_valid m \<Longrightarrow>
     decodes (parse_basic (snd (basic_method_id m))) (basic_method_write m) (basic_method_canon m)"
  by (cases m)
    (simp_all add: parse_basic_def basic_method_ids basicQos.codec_bind
      basicQosOk.codec_bind
      basicConsume.codec_bind
      basicConsumeOk.codec_bind
      basicCancel.codec_bind
      basicCancelOk.codec_bind
      basicPublish.codec_bind
      basicReturn.codec_bind
      basicDeliver.codec_bind
      basicGet.codec_bind
      basicGetOk.codec_bind
      basicGetEmpty.codec_bind
      basicAck.codec_bind
      basicReject.codec_bind
      basicRecoverAsync.codec_bind
      basicRecover.codec_bind
      basicRecoverOk.codec_bind
      basicNack.codec_bind)

lemma consumes_parse_basic [consume_intros]: "consumes (parse_basic methodId)"
  unfolding parse_basic_def
  by (intro consume_intros basicQos.codec_consumes
      basicQosOk.codec_consumes
      basicConsume.codec_consumes
      basicConsumeOk.codec_consumes
      basicCancel.codec_consumes
      basicCancelOk.codec_consumes
      basicPublish.codec_consumes
      basicReturn.codec_consumes
      basicDeliver.codec_consumes
      basicGet.codec_consumes
      basicGetOk.codec_consumes
      basicGetEmpty.codec_consumes
      basicAck.codec_consumes
      basicReject.codec_consumes
      basicRecoverAsync.codec_consumes
      basicRecover.codec_consumes
      basicRecoverOk.codec_consumes
      basicNack.codec_consumes)

lemma answers_parse_basic [answer_intros]: "answers (parse_basic methodId)"
  unfolding parse_basic_def
  by (intro answer_intros basicQos.codec_answers
      basicQosOk.codec_answers
      basicConsume.codec_answers
      basicConsumeOk.codec_answers
      basicCancel.codec_answers
      basicCancelOk.codec_answers
      basicPublish.codec_answers
      basicReturn.codec_answers
      basicDeliver.codec_answers
      basicGet.codec_answers
      basicGetOk.codec_answers
      basicGetEmpty.codec_answers
      basicAck.codec_answers
      basicReject.codec_answers
      basicRecoverAsync.codec_answers
      basicRecover.codec_answers
      basicRecoverOk.codec_answers
      basicNack.codec_answers) simp

lemma online_parse_basic [online_intros]: "online (parse_basic methodId)"
  unfolding parse_basic_def
  by (intro online_intros basicQos.codec_online
      basicQosOk.codec_online
      basicConsume.codec_online
      basicConsumeOk.codec_online
      basicCancel.codec_online
      basicCancelOk.codec_online
      basicPublish.codec_online
      basicReturn.codec_online
      basicDeliver.codec_online
      basicGet.codec_online
      basicGetOk.codec_online
      basicGetEmpty.codec_online
      basicAck.codec_online
      basicReject.codec_online
      basicRecoverAsync.codec_online
      basicRecover.codec_online
      basicRecoverOk.codec_online
      basicNack.codec_online)

lemma yields_parse_basic [yield_intros]:
  "yields (parse_basic methodId) (\<lambda>m. basic_method_valid m \<and> basic_method_canon m = m \<and> basic_method_id m = (60, methodId))"
  unfolding parse_basic_def
  by (rule yields_if yield_intros yields_return basicQos.codec_yields
      basicQosOk.codec_yields
      basicConsume.codec_yields
      basicConsumeOk.codec_yields
      basicCancel.codec_yields
      basicCancelOk.codec_yields
      basicPublish.codec_yields
      basicReturn.codec_yields
      basicDeliver.codec_yields
      basicGet.codec_yields
      basicGetOk.codec_yields
      basicGetEmpty.codec_yields
      basicAck.codec_yields
      basicReject.codec_yields
      basicRecoverAsync.codec_yields
      basicRecover.codec_yields
      basicRecoverOk.codec_yields
      basicNack.codec_yields
      | simp add: basic_method_ids)+

end
