(* ===== verification/MethodsTx.thy ===== *)
theory MethodsTx
  imports Properties
begin

text \<open>
  The methods of the tx class (class id 90) of \<open>spec091.go\<close>: for each struct its record, \<open>id\<close>, \<open>wait\<close>,
  \<open>write\<close> and \<open>read\<close>, and the interpretation of \<open>message_codec\<close> which proves its round trip.  The
  record fields carry the struct's name in front of the field's.  Then the class as a datatype, its
  part of the \<open>message\<close> interface, and its arm of the switch of \<open>parseMethodFrame\<close>.
\<close>

section \<open>Method structs\<close>

subsection \<open>txSelect\<close>

type_synonym txSelect = unit

definition txSelect_id :: "txSelect \<Rightarrow> u16 \<times> u16" where
  "txSelect_id msg = (90, 10)"

definition txSelect_wait :: "txSelect \<Rightarrow> bool" where
  "txSelect_wait msg \<longleftrightarrow> True"

definition txSelect_write :: "txSelect \<Rightarrow> wresult" where
  "txSelect_write msg =
    Inr []"

definition txSelect_read :: "txSelect rd" where
  "txSelect_read =
    rreturn ()"

definition txSelect_valid :: "txSelect \<Rightarrow> bool" where
  "txSelect_valid m \<longleftrightarrow>
     True"

definition txSelect_canon :: "txSelect \<Rightarrow> txSelect" where
  "txSelect_canon m = m"

interpretation txSelect: message_codec
  txSelect_read txSelect_write txSelect_valid txSelect_canon
proof
  show "decodes txSelect_read (txSelect_write m) (txSelect_canon m)"
    if "txSelect_valid m" for m
    unfolding txSelect_read_def txSelect_write_def
    by (rule decode_intros | simp add: txSelect_canon_def that [unfolded txSelect_valid_def])+
  show "consumes txSelect_read"
    unfolding txSelect_read_def by (intro consume_intros)
  show "answers txSelect_read"
    unfolding txSelect_read_def by (intro answer_intros)
  show "online txSelect_read"
    unfolding txSelect_read_def by (intro online_intros)
  show "yields txSelect_read (\<lambda>m. txSelect_valid m \<and> txSelect_canon m = m)"
    unfolding txSelect_read_def
    by (rule yield_intros yields_return | simp add: txSelect_valid_def txSelect_canon_def)+
qed

subsection \<open>txSelectOk\<close>

type_synonym txSelectOk = unit

definition txSelectOk_id :: "txSelectOk \<Rightarrow> u16 \<times> u16" where
  "txSelectOk_id msg = (90, 11)"

definition txSelectOk_wait :: "txSelectOk \<Rightarrow> bool" where
  "txSelectOk_wait msg \<longleftrightarrow> True"

definition txSelectOk_write :: "txSelectOk \<Rightarrow> wresult" where
  "txSelectOk_write msg =
    Inr []"

definition txSelectOk_read :: "txSelectOk rd" where
  "txSelectOk_read =
    rreturn ()"

definition txSelectOk_valid :: "txSelectOk \<Rightarrow> bool" where
  "txSelectOk_valid m \<longleftrightarrow>
     True"

definition txSelectOk_canon :: "txSelectOk \<Rightarrow> txSelectOk" where
  "txSelectOk_canon m = m"

interpretation txSelectOk: message_codec
  txSelectOk_read txSelectOk_write txSelectOk_valid txSelectOk_canon
proof
  show "decodes txSelectOk_read (txSelectOk_write m) (txSelectOk_canon m)"
    if "txSelectOk_valid m" for m
    unfolding txSelectOk_read_def txSelectOk_write_def
    by (rule decode_intros | simp add: txSelectOk_canon_def that [unfolded txSelectOk_valid_def])+
  show "consumes txSelectOk_read"
    unfolding txSelectOk_read_def by (intro consume_intros)
  show "answers txSelectOk_read"
    unfolding txSelectOk_read_def by (intro answer_intros)
  show "online txSelectOk_read"
    unfolding txSelectOk_read_def by (intro online_intros)
  show "yields txSelectOk_read (\<lambda>m. txSelectOk_valid m \<and> txSelectOk_canon m = m)"
    unfolding txSelectOk_read_def
    by (rule yield_intros yields_return | simp add: txSelectOk_valid_def txSelectOk_canon_def)+
qed

subsection \<open>txCommit\<close>

type_synonym txCommit = unit

definition txCommit_id :: "txCommit \<Rightarrow> u16 \<times> u16" where
  "txCommit_id msg = (90, 20)"

definition txCommit_wait :: "txCommit \<Rightarrow> bool" where
  "txCommit_wait msg \<longleftrightarrow> True"

definition txCommit_write :: "txCommit \<Rightarrow> wresult" where
  "txCommit_write msg =
    Inr []"

definition txCommit_read :: "txCommit rd" where
  "txCommit_read =
    rreturn ()"

definition txCommit_valid :: "txCommit \<Rightarrow> bool" where
  "txCommit_valid m \<longleftrightarrow>
     True"

definition txCommit_canon :: "txCommit \<Rightarrow> txCommit" where
  "txCommit_canon m = m"

interpretation txCommit: message_codec
  txCommit_read txCommit_write txCommit_valid txCommit_canon
proof
  show "decodes txCommit_read (txCommit_write m) (txCommit_canon m)"
    if "txCommit_valid m" for m
    unfolding txCommit_read_def txCommit_write_def
    by (rule decode_intros | simp add: txCommit_canon_def that [unfolded txCommit_valid_def])+
  show "consumes txCommit_read"
    unfolding txCommit_read_def by (intro consume_intros)
  show "answers txCommit_read"
    unfolding txCommit_read_def by (intro answer_intros)
  show "online txCommit_read"
    unfolding txCommit_read_def by (intro online_intros)
  show "yields txCommit_read (\<lambda>m. txCommit_valid m \<and> txCommit_canon m = m)"
    unfolding txCommit_read_def
    by (rule yield_intros yields_return | simp add: txCommit_valid_def txCommit_canon_def)+
qed

subsection \<open>txCommitOk\<close>

type_synonym txCommitOk = unit

definition txCommitOk_id :: "txCommitOk \<Rightarrow> u16 \<times> u16" where
  "txCommitOk_id msg = (90, 21)"

definition txCommitOk_wait :: "txCommitOk \<Rightarrow> bool" where
  "txCommitOk_wait msg \<longleftrightarrow> True"

definition txCommitOk_write :: "txCommitOk \<Rightarrow> wresult" where
  "txCommitOk_write msg =
    Inr []"

definition txCommitOk_read :: "txCommitOk rd" where
  "txCommitOk_read =
    rreturn ()"

definition txCommitOk_valid :: "txCommitOk \<Rightarrow> bool" where
  "txCommitOk_valid m \<longleftrightarrow>
     True"

definition txCommitOk_canon :: "txCommitOk \<Rightarrow> txCommitOk" where
  "txCommitOk_canon m = m"

interpretation txCommitOk: message_codec
  txCommitOk_read txCommitOk_write txCommitOk_valid txCommitOk_canon
proof
  show "decodes txCommitOk_read (txCommitOk_write m) (txCommitOk_canon m)"
    if "txCommitOk_valid m" for m
    unfolding txCommitOk_read_def txCommitOk_write_def
    by (rule decode_intros | simp add: txCommitOk_canon_def that [unfolded txCommitOk_valid_def])+
  show "consumes txCommitOk_read"
    unfolding txCommitOk_read_def by (intro consume_intros)
  show "answers txCommitOk_read"
    unfolding txCommitOk_read_def by (intro answer_intros)
  show "online txCommitOk_read"
    unfolding txCommitOk_read_def by (intro online_intros)
  show "yields txCommitOk_read (\<lambda>m. txCommitOk_valid m \<and> txCommitOk_canon m = m)"
    unfolding txCommitOk_read_def
    by (rule yield_intros yields_return | simp add: txCommitOk_valid_def txCommitOk_canon_def)+
qed

subsection \<open>txRollback\<close>

type_synonym txRollback = unit

definition txRollback_id :: "txRollback \<Rightarrow> u16 \<times> u16" where
  "txRollback_id msg = (90, 30)"

definition txRollback_wait :: "txRollback \<Rightarrow> bool" where
  "txRollback_wait msg \<longleftrightarrow> True"

definition txRollback_write :: "txRollback \<Rightarrow> wresult" where
  "txRollback_write msg =
    Inr []"

definition txRollback_read :: "txRollback rd" where
  "txRollback_read =
    rreturn ()"

definition txRollback_valid :: "txRollback \<Rightarrow> bool" where
  "txRollback_valid m \<longleftrightarrow>
     True"

definition txRollback_canon :: "txRollback \<Rightarrow> txRollback" where
  "txRollback_canon m = m"

interpretation txRollback: message_codec
  txRollback_read txRollback_write txRollback_valid txRollback_canon
proof
  show "decodes txRollback_read (txRollback_write m) (txRollback_canon m)"
    if "txRollback_valid m" for m
    unfolding txRollback_read_def txRollback_write_def
    by (rule decode_intros | simp add: txRollback_canon_def that [unfolded txRollback_valid_def])+
  show "consumes txRollback_read"
    unfolding txRollback_read_def by (intro consume_intros)
  show "answers txRollback_read"
    unfolding txRollback_read_def by (intro answer_intros)
  show "online txRollback_read"
    unfolding txRollback_read_def by (intro online_intros)
  show "yields txRollback_read (\<lambda>m. txRollback_valid m \<and> txRollback_canon m = m)"
    unfolding txRollback_read_def
    by (rule yield_intros yields_return | simp add: txRollback_valid_def txRollback_canon_def)+
qed

subsection \<open>txRollbackOk\<close>

type_synonym txRollbackOk = unit

definition txRollbackOk_id :: "txRollbackOk \<Rightarrow> u16 \<times> u16" where
  "txRollbackOk_id msg = (90, 31)"

definition txRollbackOk_wait :: "txRollbackOk \<Rightarrow> bool" where
  "txRollbackOk_wait msg \<longleftrightarrow> True"

definition txRollbackOk_write :: "txRollbackOk \<Rightarrow> wresult" where
  "txRollbackOk_write msg =
    Inr []"

definition txRollbackOk_read :: "txRollbackOk rd" where
  "txRollbackOk_read =
    rreturn ()"

definition txRollbackOk_valid :: "txRollbackOk \<Rightarrow> bool" where
  "txRollbackOk_valid m \<longleftrightarrow>
     True"

definition txRollbackOk_canon :: "txRollbackOk \<Rightarrow> txRollbackOk" where
  "txRollbackOk_canon m = m"

interpretation txRollbackOk: message_codec
  txRollbackOk_read txRollbackOk_write txRollbackOk_valid txRollbackOk_canon
proof
  show "decodes txRollbackOk_read (txRollbackOk_write m) (txRollbackOk_canon m)"
    if "txRollbackOk_valid m" for m
    unfolding txRollbackOk_read_def txRollbackOk_write_def
    by (rule decode_intros | simp add: txRollbackOk_canon_def that [unfolded txRollbackOk_valid_def])+
  show "consumes txRollbackOk_read"
    unfolding txRollbackOk_read_def by (intro consume_intros)
  show "answers txRollbackOk_read"
    unfolding txRollbackOk_read_def by (intro answer_intros)
  show "online txRollbackOk_read"
    unfolding txRollbackOk_read_def by (intro online_intros)
  show "yields txRollbackOk_read (\<lambda>m. txRollbackOk_valid m \<and> txRollbackOk_canon m = m)"
    unfolding txRollbackOk_read_def
    by (rule yield_intros yields_return | simp add: txRollbackOk_valid_def txRollbackOk_canon_def)+
qed

section \<open>The class\<close>

datatype (plugins only: code size) tx_method =
    TxSelect txSelect
  | TxSelectOk txSelectOk
  | TxCommit txCommit
  | TxCommitOk txCommitOk
  | TxRollback txRollback
  | TxRollbackOk txRollbackOk

fun tx_method_id :: "tx_method \<Rightarrow> u16 \<times> u16" where
  "tx_method_id (TxSelect msg) = txSelect_id msg"
| "tx_method_id (TxSelectOk msg) = txSelectOk_id msg"
| "tx_method_id (TxCommit msg) = txCommit_id msg"
| "tx_method_id (TxCommitOk msg) = txCommitOk_id msg"
| "tx_method_id (TxRollback msg) = txRollback_id msg"
| "tx_method_id (TxRollbackOk msg) = txRollbackOk_id msg"

fun tx_method_wait :: "tx_method \<Rightarrow> bool" where
  "tx_method_wait (TxSelect msg) = txSelect_wait msg"
| "tx_method_wait (TxSelectOk msg) = txSelectOk_wait msg"
| "tx_method_wait (TxCommit msg) = txCommit_wait msg"
| "tx_method_wait (TxCommitOk msg) = txCommitOk_wait msg"
| "tx_method_wait (TxRollback msg) = txRollback_wait msg"
| "tx_method_wait (TxRollbackOk msg) = txRollbackOk_wait msg"

fun tx_method_write :: "tx_method \<Rightarrow> wresult" where
  "tx_method_write (TxSelect msg) = txSelect_write msg"
| "tx_method_write (TxSelectOk msg) = txSelectOk_write msg"
| "tx_method_write (TxCommit msg) = txCommit_write msg"
| "tx_method_write (TxCommitOk msg) = txCommitOk_write msg"
| "tx_method_write (TxRollback msg) = txRollback_write msg"
| "tx_method_write (TxRollbackOk msg) = txRollbackOk_write msg"

definition parse_tx :: "u16 \<Rightarrow> tx_method rd" where
  "parse_tx methodId =
    (if methodId = 10 then rbind txSelect_read (\<lambda>m. rreturn (TxSelect m))
     else if methodId = 11 then rbind txSelectOk_read (\<lambda>m. rreturn (TxSelectOk m))
     else if methodId = 20 then rbind txCommit_read (\<lambda>m. rreturn (TxCommit m))
     else if methodId = 21 then rbind txCommitOk_read (\<lambda>m. rreturn (TxCommitOk m))
     else if methodId = 30 then rbind txRollback_read (\<lambda>m. rreturn (TxRollback m))
     else if methodId = 31 then rbind txRollbackOk_read (\<lambda>m. rreturn (TxRollbackOk m))
     else rfail (UnknownMethod methodId 90))"

fun tx_method_valid :: "tx_method \<Rightarrow> bool" where
  "tx_method_valid (TxSelect m) = txSelect_valid m"
| "tx_method_valid (TxSelectOk m) = txSelectOk_valid m"
| "tx_method_valid (TxCommit m) = txCommit_valid m"
| "tx_method_valid (TxCommitOk m) = txCommitOk_valid m"
| "tx_method_valid (TxRollback m) = txRollback_valid m"
| "tx_method_valid (TxRollbackOk m) = txRollbackOk_valid m"

fun tx_method_canon :: "tx_method \<Rightarrow> tx_method" where
  "tx_method_canon (TxSelect m) = TxSelect (txSelect_canon m)"
| "tx_method_canon (TxSelectOk m) = TxSelectOk (txSelectOk_canon m)"
| "tx_method_canon (TxCommit m) = TxCommit (txCommit_canon m)"
| "tx_method_canon (TxCommitOk m) = TxCommitOk (txCommitOk_canon m)"
| "tx_method_canon (TxRollback m) = TxRollback (txRollback_canon m)"
| "tx_method_canon (TxRollbackOk m) = TxRollbackOk (txRollbackOk_canon m)"

lemmas tx_method_ids = txSelect_id_def txSelectOk_id_def txCommit_id_def txCommitOk_id_def txRollback_id_def txRollbackOk_id_def

lemma tx_method_class: "fst (tx_method_id m) = 90"
  by (cases m) (simp_all add: tx_method_ids)

lemma decodes_tx:
  "tx_method_valid m \<Longrightarrow>
     decodes (parse_tx (snd (tx_method_id m))) (tx_method_write m) (tx_method_canon m)"
  by (cases m)
    (simp_all add: parse_tx_def tx_method_ids txSelect.codec_bind
      txSelectOk.codec_bind
      txCommit.codec_bind
      txCommitOk.codec_bind
      txRollback.codec_bind
      txRollbackOk.codec_bind)

lemma consumes_parse_tx [consume_intros]: "consumes (parse_tx methodId)"
  unfolding parse_tx_def
  by (intro consume_intros txSelect.codec_consumes
      txSelectOk.codec_consumes
      txCommit.codec_consumes
      txCommitOk.codec_consumes
      txRollback.codec_consumes
      txRollbackOk.codec_consumes)

lemma answers_parse_tx [answer_intros]: "answers (parse_tx methodId)"
  unfolding parse_tx_def
  by (intro answer_intros txSelect.codec_answers
      txSelectOk.codec_answers
      txCommit.codec_answers
      txCommitOk.codec_answers
      txRollback.codec_answers
      txRollbackOk.codec_answers) simp

lemma online_parse_tx [online_intros]: "online (parse_tx methodId)"
  unfolding parse_tx_def
  by (intro online_intros txSelect.codec_online
      txSelectOk.codec_online
      txCommit.codec_online
      txCommitOk.codec_online
      txRollback.codec_online
      txRollbackOk.codec_online)

lemma yields_parse_tx [yield_intros]:
  "yields (parse_tx methodId) (\<lambda>m. tx_method_valid m \<and> tx_method_canon m = m \<and> tx_method_id m = (90, methodId))"
  unfolding parse_tx_def
  by (rule yields_if yield_intros yields_return txSelect.codec_yields
      txSelectOk.codec_yields
      txCommit.codec_yields
      txCommitOk.codec_yields
      txRollback.codec_yields
      txRollbackOk.codec_yields
      | simp add: tx_method_ids)+

end
