(* ===== verification/MethodsConfirm.thy ===== *)
theory MethodsConfirm
  imports Properties
begin

text \<open>
  The methods of the confirm class (class id 85) of \<open>spec091.go\<close>: for each struct its record, \<open>id\<close>, \<open>wait\<close>,
  \<open>write\<close> and \<open>read\<close>, and the interpretation of \<open>message_codec\<close> which proves its round trip.  The
  record fields carry the struct's name in front of the field's.  Then the class as a datatype, its
  part of the \<open>message\<close> interface, and its arm of the switch of \<open>parseMethodFrame\<close>.
\<close>

section \<open>Method structs\<close>

subsection \<open>confirmSelect\<close>

record confirmSelect =
  confirmSelect_Nowait :: bool

definition confirmSelect_id :: "confirmSelect \<Rightarrow> u16 \<times> u16" where
  "confirmSelect_id msg = (85, 10)"

definition confirmSelect_wait :: "confirmSelect \<Rightarrow> bool" where
  "confirmSelect_wait msg \<longleftrightarrow> True"

definition confirmSelect_write :: "confirmSelect \<Rightarrow> wresult" where
  "confirmSelect_write msg =
    wthen (writeU8 (setBit 0 0
        (confirmSelect_Nowait msg))) (Inr [])"

definition confirmSelect_read :: "confirmSelect rd" where
  "confirmSelect_read =
    rbind readU8 (\<lambda>bits.
    rreturn \<lparr> confirmSelect_Nowait = testBit bits 0 \<rparr>)"

definition confirmSelect_valid :: "confirmSelect \<Rightarrow> bool" where
  "confirmSelect_valid m \<longleftrightarrow>
     True"

definition confirmSelect_canon :: "confirmSelect \<Rightarrow> confirmSelect" where
  "confirmSelect_canon m = m"

interpretation confirmSelect: message_codec
  confirmSelect_read confirmSelect_write confirmSelect_valid confirmSelect_canon
proof
  show "decodes confirmSelect_read (confirmSelect_write m) (confirmSelect_canon m)"
    if "confirmSelect_valid m" for m
    unfolding confirmSelect_read_def confirmSelect_write_def
    by (rule decode_intros | simp add: confirmSelect_canon_def that [unfolded confirmSelect_valid_def])+
  show "consumes confirmSelect_read"
    unfolding confirmSelect_read_def by (intro consume_intros)
  show "answers confirmSelect_read"
    unfolding confirmSelect_read_def by (intro answer_intros)
  show "online confirmSelect_read"
    unfolding confirmSelect_read_def by (intro online_intros)
  show "yields confirmSelect_read (\<lambda>m. confirmSelect_valid m \<and> confirmSelect_canon m = m)"
    unfolding confirmSelect_read_def
    by (rule yield_intros yields_return | simp add: confirmSelect_valid_def confirmSelect_canon_def)+
qed

subsection \<open>confirmSelectOk\<close>

type_synonym confirmSelectOk = unit

definition confirmSelectOk_id :: "confirmSelectOk \<Rightarrow> u16 \<times> u16" where
  "confirmSelectOk_id msg = (85, 11)"

definition confirmSelectOk_wait :: "confirmSelectOk \<Rightarrow> bool" where
  "confirmSelectOk_wait msg \<longleftrightarrow> True"

definition confirmSelectOk_write :: "confirmSelectOk \<Rightarrow> wresult" where
  "confirmSelectOk_write msg =
    Inr []"

definition confirmSelectOk_read :: "confirmSelectOk rd" where
  "confirmSelectOk_read =
    rreturn ()"

definition confirmSelectOk_valid :: "confirmSelectOk \<Rightarrow> bool" where
  "confirmSelectOk_valid m \<longleftrightarrow>
     True"

definition confirmSelectOk_canon :: "confirmSelectOk \<Rightarrow> confirmSelectOk" where
  "confirmSelectOk_canon m = m"

interpretation confirmSelectOk: message_codec
  confirmSelectOk_read confirmSelectOk_write confirmSelectOk_valid confirmSelectOk_canon
proof
  show "decodes confirmSelectOk_read (confirmSelectOk_write m) (confirmSelectOk_canon m)"
    if "confirmSelectOk_valid m" for m
    unfolding confirmSelectOk_read_def confirmSelectOk_write_def
    by (rule decode_intros | simp add: confirmSelectOk_canon_def that [unfolded confirmSelectOk_valid_def])+
  show "consumes confirmSelectOk_read"
    unfolding confirmSelectOk_read_def by (intro consume_intros)
  show "answers confirmSelectOk_read"
    unfolding confirmSelectOk_read_def by (intro answer_intros)
  show "online confirmSelectOk_read"
    unfolding confirmSelectOk_read_def by (intro online_intros)
  show "yields confirmSelectOk_read (\<lambda>m. confirmSelectOk_valid m \<and> confirmSelectOk_canon m = m)"
    unfolding confirmSelectOk_read_def
    by (rule yield_intros yields_return | simp add: confirmSelectOk_valid_def confirmSelectOk_canon_def)+
qed

section \<open>The class\<close>

datatype (plugins only: code size) confirm_method =
    ConfirmSelect confirmSelect
  | ConfirmSelectOk confirmSelectOk

fun confirm_method_id :: "confirm_method \<Rightarrow> u16 \<times> u16" where
  "confirm_method_id (ConfirmSelect msg) = confirmSelect_id msg"
| "confirm_method_id (ConfirmSelectOk msg) = confirmSelectOk_id msg"

fun confirm_method_wait :: "confirm_method \<Rightarrow> bool" where
  "confirm_method_wait (ConfirmSelect msg) = confirmSelect_wait msg"
| "confirm_method_wait (ConfirmSelectOk msg) = confirmSelectOk_wait msg"

fun confirm_method_write :: "confirm_method \<Rightarrow> wresult" where
  "confirm_method_write (ConfirmSelect msg) = confirmSelect_write msg"
| "confirm_method_write (ConfirmSelectOk msg) = confirmSelectOk_write msg"

definition parse_confirm :: "u16 \<Rightarrow> confirm_method rd" where
  "parse_confirm methodId =
    (if methodId = 10 then rbind confirmSelect_read (\<lambda>m. rreturn (ConfirmSelect m))
     else if methodId = 11 then rbind confirmSelectOk_read (\<lambda>m. rreturn (ConfirmSelectOk m))
     else rfail (UnknownMethod methodId 85))"

fun confirm_method_valid :: "confirm_method \<Rightarrow> bool" where
  "confirm_method_valid (ConfirmSelect m) = confirmSelect_valid m"
| "confirm_method_valid (ConfirmSelectOk m) = confirmSelectOk_valid m"

fun confirm_method_canon :: "confirm_method \<Rightarrow> confirm_method" where
  "confirm_method_canon (ConfirmSelect m) = ConfirmSelect (confirmSelect_canon m)"
| "confirm_method_canon (ConfirmSelectOk m) = ConfirmSelectOk (confirmSelectOk_canon m)"

lemmas confirm_method_ids = confirmSelect_id_def confirmSelectOk_id_def

lemma confirm_method_class: "fst (confirm_method_id m) = 85"
  by (cases m) (simp_all add: confirm_method_ids)

lemma decodes_confirm:
  "confirm_method_valid m \<Longrightarrow>
     decodes (parse_confirm (snd (confirm_method_id m))) (confirm_method_write m) (confirm_method_canon m)"
  by (cases m)
    (simp_all add: parse_confirm_def confirm_method_ids confirmSelect.codec_bind
      confirmSelectOk.codec_bind)

lemma consumes_parse_confirm [consume_intros]: "consumes (parse_confirm methodId)"
  unfolding parse_confirm_def
  by (intro consume_intros confirmSelect.codec_consumes
      confirmSelectOk.codec_consumes)

lemma answers_parse_confirm [answer_intros]: "answers (parse_confirm methodId)"
  unfolding parse_confirm_def
  by (intro answer_intros confirmSelect.codec_answers
      confirmSelectOk.codec_answers) simp

lemma online_parse_confirm [online_intros]: "online (parse_confirm methodId)"
  unfolding parse_confirm_def
  by (intro online_intros confirmSelect.codec_online
      confirmSelectOk.codec_online)

lemma yields_parse_confirm [yield_intros]:
  "yields (parse_confirm methodId) (\<lambda>m. confirm_method_valid m \<and> confirm_method_canon m = m \<and> confirm_method_id m = (85, methodId))"
  unfolding parse_confirm_def
  by (rule yields_if yield_intros yields_return confirmSelect.codec_yields
      confirmSelectOk.codec_yields
      | simp add: confirm_method_ids)+

end
