(* ===== verification/Messages.thy ===== *)
theory Messages
  imports MethodsConnection MethodsChannel MethodsExchange MethodsQueue MethodsBasic MethodsTx
    MethodsConfirm
begin

text \<open>
  The \<open>message\<close> and \<open>messageWithContent\<close> interfaces of \<open>types.go\<close> over all seven classes, and
  \<open>parseMethodFrame\<close> of \<open>spec091.go\<close>.
\<close>

section \<open>The message interface\<close>

datatype (plugins only: code size) message =
    ConnectionMsg connection_method
  | ChannelMsg channel_method
  | ExchangeMsg exchange_method
  | QueueMsg queue_method
  | BasicMsg basic_method
  | TxMsg tx_method
  | ConfirmMsg confirm_method

fun message_id :: "message \<Rightarrow> u16 \<times> u16" where
  "message_id (ConnectionMsg m) = connection_method_id m"
| "message_id (ChannelMsg m) = channel_method_id m"
| "message_id (ExchangeMsg m) = exchange_method_id m"
| "message_id (QueueMsg m) = queue_method_id m"
| "message_id (BasicMsg m) = basic_method_id m"
| "message_id (TxMsg m) = tx_method_id m"
| "message_id (ConfirmMsg m) = confirm_method_id m"

fun message_wait :: "message \<Rightarrow> bool" where
  "message_wait (ConnectionMsg m) = connection_method_wait m"
| "message_wait (ChannelMsg m) = channel_method_wait m"
| "message_wait (ExchangeMsg m) = exchange_method_wait m"
| "message_wait (QueueMsg m) = queue_method_wait m"
| "message_wait (BasicMsg m) = basic_method_wait m"
| "message_wait (TxMsg m) = tx_method_wait m"
| "message_wait (ConfirmMsg m) = confirm_method_wait m"

fun message_write :: "message \<Rightarrow> wresult" where
  "message_write (ConnectionMsg m) = connection_method_write m"
| "message_write (ChannelMsg m) = channel_method_write m"
| "message_write (ExchangeMsg m) = exchange_method_write m"
| "message_write (QueueMsg m) = queue_method_write m"
| "message_write (BasicMsg m) = basic_method_write m"
| "message_write (TxMsg m) = tx_method_write m"
| "message_write (ConfirmMsg m) = confirm_method_write m"

text \<open>The messages with a faithful encoding, and what is read back.\<close>

fun message_valid :: "message \<Rightarrow> bool" where
  "message_valid (ConnectionMsg m) = connection_method_valid m"
| "message_valid (ChannelMsg m) = channel_method_valid m"
| "message_valid (ExchangeMsg m) = exchange_method_valid m"
| "message_valid (QueueMsg m) = queue_method_valid m"
| "message_valid (BasicMsg m) = basic_method_valid m"
| "message_valid (TxMsg m) = tx_method_valid m"
| "message_valid (ConfirmMsg m) = confirm_method_valid m"

fun message_canon :: "message \<Rightarrow> message" where
  "message_canon (ConnectionMsg m) = ConnectionMsg (connection_method_canon m)"
| "message_canon (ChannelMsg m) = ChannelMsg (channel_method_canon m)"
| "message_canon (ExchangeMsg m) = ExchangeMsg (exchange_method_canon m)"
| "message_canon (QueueMsg m) = QueueMsg (queue_method_canon m)"
| "message_canon (BasicMsg m) = BasicMsg (basic_method_canon m)"
| "message_canon (TxMsg m) = TxMsg (tx_method_canon m)"
| "message_canon (ConfirmMsg m) = ConfirmMsg (confirm_method_canon m)"

section \<open>Messages with content\<close>

text \<open>
  \<open>msg.(messageWithContent)\<close> succeeds for the four structs with \<open>getContent\<close> and \<open>setContent\<close>.
\<close>

definition basicPublish_getContent :: "basicPublish \<Rightarrow> properties \<times> bytes" where
  "basicPublish_getContent msg = (basicPublish_Properties msg, basicPublish_Body msg)"

definition basicPublish_setContent :: "properties \<Rightarrow> bytes \<Rightarrow> basicPublish \<Rightarrow> basicPublish" where
  "basicPublish_setContent props body msg =
     msg\<lparr> basicPublish_Properties := props, basicPublish_Body := body \<rparr>"

definition basicReturn_getContent :: "basicReturn \<Rightarrow> properties \<times> bytes" where
  "basicReturn_getContent msg = (basicReturn_Properties msg, basicReturn_Body msg)"

definition basicReturn_setContent :: "properties \<Rightarrow> bytes \<Rightarrow> basicReturn \<Rightarrow> basicReturn" where
  "basicReturn_setContent props body msg =
     msg\<lparr> basicReturn_Properties := props, basicReturn_Body := body \<rparr>"

definition basicDeliver_getContent :: "basicDeliver \<Rightarrow> properties \<times> bytes" where
  "basicDeliver_getContent msg = (basicDeliver_Properties msg, basicDeliver_Body msg)"

definition basicDeliver_setContent :: "properties \<Rightarrow> bytes \<Rightarrow> basicDeliver \<Rightarrow> basicDeliver" where
  "basicDeliver_setContent props body msg =
     msg\<lparr> basicDeliver_Properties := props, basicDeliver_Body := body \<rparr>"

definition basicGetOk_getContent :: "basicGetOk \<Rightarrow> properties \<times> bytes" where
  "basicGetOk_getContent msg = (basicGetOk_Properties msg, basicGetOk_Body msg)"

definition basicGetOk_setContent :: "properties \<Rightarrow> bytes \<Rightarrow> basicGetOk \<Rightarrow> basicGetOk" where
  "basicGetOk_setContent props body msg =
     msg\<lparr> basicGetOk_Properties := props, basicGetOk_Body := body \<rparr>"

fun hasContent :: "message \<Rightarrow> bool" where
  "hasContent (BasicMsg (BasicPublish m)) = True"
| "hasContent (BasicMsg (BasicReturn m)) = True"
| "hasContent (BasicMsg (BasicDeliver m)) = True"
| "hasContent (BasicMsg (BasicGetOk m)) = True"
| "hasContent _ = False"

fun getContent :: "message \<Rightarrow> properties \<times> bytes" where
  "getContent (BasicMsg (BasicPublish m)) = basicPublish_getContent m"
| "getContent (BasicMsg (BasicReturn m)) = basicReturn_getContent m"
| "getContent (BasicMsg (BasicDeliver m)) = basicDeliver_getContent m"
| "getContent (BasicMsg (BasicGetOk m)) = basicGetOk_getContent m"
| "getContent _ = (noProperties, [])"

fun setContent :: "properties \<Rightarrow> bytes \<Rightarrow> message \<Rightarrow> message" where
  "setContent props body (BasicMsg (BasicPublish m)) =
     BasicMsg (BasicPublish (basicPublish_setContent props body m))"
| "setContent props body (BasicMsg (BasicReturn m)) =
     BasicMsg (BasicReturn (basicReturn_setContent props body m))"
| "setContent props body (BasicMsg (BasicDeliver m)) =
     BasicMsg (BasicDeliver (basicDeliver_setContent props body m))"
| "setContent props body (BasicMsg (BasicGetOk m)) =
     BasicMsg (BasicGetOk (basicGetOk_setContent props body m))"
| "setContent props body m = m"

lemmas content_defs = basicPublish_getContent_def basicPublish_setContent_def basicReturn_getContent_def basicReturn_setContent_def basicDeliver_getContent_def basicDeliver_setContent_def basicGetOk_getContent_def basicGetOk_setContent_def

lemma getContent_setContent [simp]:
  "hasContent m \<Longrightarrow> getContent (setContent props body m) = (props, body)"
  by (cases m rule: hasContent.cases) (simp_all add: content_defs)

lemma hasContent_setContent [simp]: "hasContent (setContent props body m) = hasContent m"
  by (cases m rule: hasContent.cases) simp_all

lemma message_id_setContent [simp]: "message_id (setContent props body m) = message_id m"
  by (cases m rule: hasContent.cases) (simp_all add: basic_method_ids)

lemma hasContent_canon [simp]: "hasContent (message_canon m) = hasContent m"
proof (cases m)
  case (BasicMsg b)
  then show ?thesis by (cases b) simp_all
qed simp_all

section \<open>parseMethodFrame\<close>

record methodFrame =
  mf_ChannelId :: u16
  mf_ClassId :: u16
  mf_MethodId :: u16
  mf_Method :: "message option"

text \<open>The \<open>switch mf.ClassId\<close>; the inner switches are the \<open>parse_\<close> functions of the classes.\<close>

definition parseMethod :: "u16 \<Rightarrow> u16 \<Rightarrow> message rd" where
  "parseMethod classId methodId =
    (if classId = 10 then rbind (parse_connection methodId) (\<lambda>m. rreturn (ConnectionMsg m))
     else if classId = 20 then rbind (parse_channel methodId) (\<lambda>m. rreturn (ChannelMsg m))
     else if classId = 40 then rbind (parse_exchange methodId) (\<lambda>m. rreturn (ExchangeMsg m))
     else if classId = 50 then rbind (parse_queue methodId) (\<lambda>m. rreturn (QueueMsg m))
     else if classId = 60 then rbind (parse_basic methodId) (\<lambda>m. rreturn (BasicMsg m))
     else if classId = 90 then rbind (parse_tx methodId) (\<lambda>m. rreturn (TxMsg m))
     else if classId = 85 then rbind (parse_confirm methodId) (\<lambda>m. rreturn (ConfirmMsg m))
     else rfail (UnknownClass classId))"

definition parseMethodFrame :: "u16 \<Rightarrow> u32 \<Rightarrow> methodFrame rd" where
  "parseMethodFrame ch sz =
     rbind readU16 (\<lambda>classId.
     rbind readU16 (\<lambda>methodId.
     rbind (parseMethod classId methodId) (\<lambda>m.
     rreturn \<lparr> mf_ChannelId = ch, mf_ClassId = classId, mf_MethodId = methodId,
               mf_Method = Some m \<rparr>)))"

lemmas method_class = connection_method_class channel_method_class exchange_method_class queue_method_class basic_method_class tx_method_class confirm_method_class

lemma decodes_map:
  "decodes r w a \<Longrightarrow> f a = b \<Longrightarrow> decodes (rbind r (\<lambda>x. rreturn (f x))) w b"
  by (auto simp: decodes_def)

lemma decodes_method:
  assumes "message_valid m"
  shows "decodes (parseMethod (fst (message_id m)) (snd (message_id m)))
           (message_write m) (message_canon m)"
  using assms
  by (cases m)
    (auto simp: parseMethod_def method_class intro!: decodes_map
      decodes_connection decodes_channel decodes_exchange decodes_queue decodes_basic decodes_tx decodes_confirm)

lemma consumes_parseMethod [consume_intros]: "consumes (parseMethod classId methodId)"
  unfolding parseMethod_def by (intro consume_intros)

lemma answers_parseMethod [answer_intros]: "answers (parseMethod classId methodId)"
  unfolding parseMethod_def by (intro answer_intros) simp

lemma answers_parseMethodFrame [answer_intros]: "answers (parseMethodFrame ch sz)"
  unfolding parseMethodFrame_def by (intro answer_intros)

lemma online_parseMethod [online_intros]: "online (parseMethod classId methodId)"
  unfolding parseMethod_def by (intro online_intros)

lemma online_parseMethodFrame [online_intros]: "online (parseMethodFrame ch sz)"
  unfolding parseMethodFrame_def by (intro online_intros)

lemma yields_parseMethod [yield_intros]:
  "yields (parseMethod classId methodId)
     (\<lambda>m. message_valid m \<and> message_canon m = m \<and> message_id m = (classId, methodId))"
  unfolding parseMethod_def by (rule yields_if yield_intros yields_return | simp)+

lemma consumes_parseMethodFrame [consume_intros]: "consumes (parseMethodFrame ch sz)"
  unfolding parseMethodFrame_def by (intro consume_intros)

text \<open>Two deliveries whose encodings begin the same input agree in all their arguments.\<close>

lemma deliver_prefix_free:
  assumes "basicDeliver_valid m" "basicDeliver_write m = Inr bs"
    and "basicDeliver_valid m'" "basicDeliver_write m' = Inr bs'"
    and "bs @ rest = bs' @ rest'"
  shows "basicDeliver_canon m = basicDeliver_canon m' \<and> rest = rest'"
  using basicDeliver.codec_prefix_free [OF assms] .

end
