(* ===== verification/Delivery.thy ===== *)
theory Delivery
  imports Messages Consumers
begin

text \<open>
  \<open>delivery.go\<close>, \<open>return.go\<close>, the \<open>Endpoint\<close>, \<open>ConnectionInfo\<close> and \<open>WrappedMessage\<close> structs of
  \<open>parser.go\<close>, and the \<open>Acknowledger\<close> side of a channel (\<open>Ack\<close>, \<open>Nack\<close>, \<open>Reject\<close> and \<open>send\<close> of
  \<open>channel.go\<close>).
\<close>

section \<open>Endpoints\<close>

record endpoint =
  ep_Host :: gostring
  ep_Port :: gostring

record connectionInfo =
  ServerEP :: endpoint
  ClientEP :: endpoint

record wrappedMessage =
  wm_ConnectionInfo :: connectionInfo
  wm_ChannelID :: u16
  wm_ConsumerTag :: gostring
  wm_Body :: bytes

section \<open>Channels as acknowledgers\<close>

text \<open>
  What a \<open>*Channel\<close> gives whoever holds it in an \<open>Acknowledger\<close>: the fields that never change after
  \<open>newChannel\<close>.  \<open>ref_connection\<close> is \<open>None\<close> for a channel without a connection, and \<open>ref_sink\<close> says
  whether the connection's \<open>chMsg\<close> is not \<open>nil\<close>.
\<close>

record channelRef =
  ref_connection :: "connectionInfo option"
  ref_sink :: bool
  ref_id :: u16

text \<open>The interface; the result is the \<open>error\<close>, \<open>None\<close> for \<open>nil\<close>.\<close>

record 'ch acknowledger =
  ackOp :: "'ch \<Rightarrow> u64 \<Rightarrow> bool \<Rightarrow> go_error option"
  nackOp :: "'ch \<Rightarrow> u64 \<Rightarrow> bool \<Rightarrow> bool \<Rightarrow> go_error option"
  rejectOp :: "'ch \<Rightarrow> u64 \<Rightarrow> bool \<Rightarrow> go_error option"

text \<open>\<open>Channel.send\<close> has an empty body: a sniffer never talks back.\<close>

definition Channel_send :: "channelRef \<Rightarrow> message \<Rightarrow> go_error option" where
  "Channel_send ch msg = None"

definition Channel_Ack :: "channelRef \<Rightarrow> u64 \<Rightarrow> bool \<Rightarrow> go_error option" where
  "Channel_Ack ch tag multiple =
     Channel_send ch (BasicMsg (BasicAck
       \<lparr> basicAck_DeliveryTag = tag, basicAck_Multiple = multiple \<rparr>))"

definition Channel_Nack :: "channelRef \<Rightarrow> u64 \<Rightarrow> bool \<Rightarrow> bool \<Rightarrow> go_error option" where
  "Channel_Nack ch tag multiple requeue =
     Channel_send ch (BasicMsg (BasicNack
       \<lparr> basicNack_DeliveryTag = tag, basicNack_Multiple = multiple, basicNack_Requeue = requeue \<rparr>))"

definition Channel_Reject :: "channelRef \<Rightarrow> u64 \<Rightarrow> bool \<Rightarrow> go_error option" where
  "Channel_Reject ch tag requeue =
     Channel_send ch (BasicMsg (BasicReject
       \<lparr> basicReject_DeliveryTag = tag, basicReject_Requeue = requeue \<rparr>))"

definition channelAcknowledger :: "channelRef acknowledger" where
  "channelAcknowledger = \<lparr> ackOp = Channel_Ack, nackOp = Channel_Nack, rejectOp = Channel_Reject \<rparr>"

section \<open>Deliveries\<close>

record 'ch delivery =
  dl_Acknowledger :: "'ch option"
  dl_Headers :: table
  dl_ContentType :: gostring
  dl_ContentEncoding :: gostring
  dl_DeliveryMode :: u8
  dl_Priority :: u8
  dl_CorrelationId :: gostring
  dl_ReplyTo :: gostring
  dl_Expiration :: gostring
  dl_MessageId :: gostring
  dl_Timestamp :: gotime
  dl_Type :: gostring
  dl_UserId :: gostring
  dl_AppId :: gostring
  dl_ConsumerTag :: gostring
  dl_MessageCount :: u32
  dl_DeliveryTag :: u64
  dl_Redelivered :: bool
  dl_Exchange :: gostring
  dl_RoutingKey :: gostring
  dl_Body :: bytes

text \<open>The composite literal of \<open>newDelivery\<close>, and the fields set by its type switch.\<close>

definition deliveryLit :: "'ch \<Rightarrow> properties \<Rightarrow> bytes \<Rightarrow> 'ch delivery" where
  "deliveryLit ch props body =
     \<lparr> dl_Acknowledger = Some ch,
       dl_Headers = Headers props,
       dl_ContentType = ContentType props,
       dl_ContentEncoding = ContentEncoding props,
       dl_DeliveryMode = DeliveryMode props,
       dl_Priority = Priority props,
       dl_CorrelationId = CorrelationId props,
       dl_ReplyTo = ReplyTo props,
       dl_Expiration = Expiration props,
       dl_MessageId = MessageId props,
       dl_Timestamp = Timestamp props,
       dl_Type = Type props,
       dl_UserId = UserId props,
       dl_AppId = AppId props,
       dl_ConsumerTag = [], dl_MessageCount = 0, dl_DeliveryTag = 0, dl_Redelivered = False,
       dl_Exchange = [], dl_RoutingKey = [], dl_Body = body \<rparr>"

fun newDelivery :: "'ch \<Rightarrow> message \<Rightarrow> 'ch delivery" where
  "newDelivery ch (BasicMsg (BasicDeliver m)) =
     (case basicDeliver_getContent m of (props, body) \<Rightarrow>
       (deliveryLit ch props body)
         \<lparr> dl_ConsumerTag := basicDeliver_ConsumerTag m,
           dl_DeliveryTag := basicDeliver_DeliveryTag m,
           dl_Redelivered := basicDeliver_Redelivered m,
           dl_Exchange := basicDeliver_Exchange m,
           dl_RoutingKey := basicDeliver_RoutingKey m \<rparr>)"
| "newDelivery ch (BasicMsg (BasicGetOk m)) =
     (case basicGetOk_getContent m of (props, body) \<Rightarrow>
       (deliveryLit ch props body)
         \<lparr> dl_MessageCount := basicGetOk_MessageCount m,
           dl_DeliveryTag := basicGetOk_DeliveryTag m,
           dl_Redelivered := basicGetOk_Redelivered m,
           dl_Exchange := basicGetOk_Exchange m,
           dl_RoutingKey := basicGetOk_RoutingKey m \<rparr>)"
| "newDelivery ch m = (case getContent m of (props, body) \<Rightarrow> deliveryLit ch props body)"

definition Delivery_Ack :: "'ch acknowledger \<Rightarrow> 'ch delivery \<Rightarrow> bool \<Rightarrow> go_error option" where
  "Delivery_Ack a d multiple =
     (case dl_Acknowledger d of
        None \<Rightarrow> Some DeliveryNotInitialized
      | Some ch \<Rightarrow> ackOp a ch (dl_DeliveryTag d) multiple)"

definition Delivery_Reject :: "'ch acknowledger \<Rightarrow> 'ch delivery \<Rightarrow> bool \<Rightarrow> go_error option" where
  "Delivery_Reject a d requeue =
     (case dl_Acknowledger d of
        None \<Rightarrow> Some DeliveryNotInitialized
      | Some ch \<Rightarrow> rejectOp a ch (dl_DeliveryTag d) requeue)"

definition Delivery_Nack :: "'ch acknowledger \<Rightarrow> 'ch delivery \<Rightarrow> bool \<Rightarrow> bool \<Rightarrow> go_error option" where
  "Delivery_Nack a d multiple requeue =
     (case dl_Acknowledger d of
        None \<Rightarrow> Some DeliveryNotInitialized
      | Some ch \<Rightarrow> nackOp a ch (dl_DeliveryTag d) multiple requeue)"

text \<open>
  The goroutine that \<open>Channel.dispatch\<close> starts for a new consumer, for one delivery: the message it
  sends into \<open>chMsg\<close>, nothing when it only prints, a panic where the type assertion or the
  dereferenced channel fails.
\<close>

definition forwardDelivery :: "channelRef delivery \<Rightarrow> go_error + wrappedMessage option" where
  "forwardDelivery d =
     (case dl_Acknowledger d of
        None \<Rightarrow> Inl Panic
      | Some ch \<Rightarrow>
          (case ref_connection ch of
             Some info \<Rightarrow>
               if ref_sink ch
               then Inr (Some \<lparr> wm_ConnectionInfo = info, wm_ChannelID = ref_id ch,
                                wm_ConsumerTag = dl_ConsumerTag d, wm_Body = dl_Body d \<rparr>)
               else Inr None
           | None \<Rightarrow> Inr None))"

lemma newDelivery_Acknowledger [simp]: "dl_Acknowledger (newDelivery ch m) = Some ch"
  by (cases "(ch, m)" rule: newDelivery.cases) (auto simp: deliveryLit_def split: prod.split)

lemma newDelivery_Body [simp]: "dl_Body (newDelivery ch m) = snd (getContent m)"
  by (cases "(ch, m)" rule: newDelivery.cases) (auto simp: deliveryLit_def split: prod.split)

section \<open>Returns\<close>

record return =
  rt_ReplyCode :: u16
  rt_ReplyText :: gostring
  rt_Exchange :: gostring
  rt_RoutingKey :: gostring
  rt_Headers :: table
  rt_ContentType :: gostring
  rt_ContentEncoding :: gostring
  rt_DeliveryMode :: u8
  rt_Priority :: u8
  rt_CorrelationId :: gostring
  rt_ReplyTo :: gostring
  rt_Expiration :: gostring
  rt_MessageId :: gostring
  rt_Timestamp :: gotime
  rt_Type :: gostring
  rt_UserId :: gostring
  rt_AppId :: gostring
  rt_Body :: bytes

definition newReturn :: "basicReturn \<Rightarrow> return" where
  "newReturn msg =
     (case basicReturn_getContent msg of (props, body) \<Rightarrow>
     \<lparr> rt_ReplyCode = basicReturn_ReplyCode msg, rt_ReplyText = basicReturn_ReplyText msg,
       rt_Exchange = basicReturn_Exchange msg, rt_RoutingKey = basicReturn_RoutingKey msg,
       rt_Headers = Headers props,
       rt_ContentType = ContentType props,
       rt_ContentEncoding = ContentEncoding props,
       rt_DeliveryMode = DeliveryMode props,
       rt_Priority = Priority props,
       rt_CorrelationId = CorrelationId props,
       rt_ReplyTo = ReplyTo props,
       rt_Expiration = Expiration props,
       rt_MessageId = MessageId props,
       rt_Timestamp = Timestamp props,
       rt_Type = Type props,
       rt_UserId = UserId props,
       rt_AppId = AppId props,
       rt_Body = body \<rparr>)"

section \<open>Acknowledging\<close>

text \<open>
  A delivery acknowledges through its channel, which answers without an error and sends nothing; a
  delivery that was not made by \<open>newDelivery\<close> reports that it is not initialized, in each of the three
  operations.
\<close>

lemma delivery_acknowledges:
  "Delivery_Ack channelAcknowledger (newDelivery ch m) b = None \<and>
   Delivery_Nack channelAcknowledger (newDelivery ch m) b r = None \<and>
   Delivery_Reject channelAcknowledger (newDelivery ch m) r = None \<and>
   (let d0 = (newDelivery ch m)\<lparr> dl_Acknowledger := None \<rparr> in
      Delivery_Ack a d0 b = Some DeliveryNotInitialized \<and>
      Delivery_Nack a d0 b r = Some DeliveryNotInitialized \<and>
      Delivery_Reject a d0 r = Some DeliveryNotInitialized)"
  by (simp add: Delivery_Ack_def Delivery_Nack_def Delivery_Reject_def channelAcknowledger_def
      Channel_Ack_def Channel_Nack_def Channel_Reject_def Channel_send_def Let_def)

end
