(* ===== verification/HeaderFrame.thy ===== *)
theory HeaderFrame
  imports Messages
begin

text \<open>
  The content header frame: the \<open>headerFrame\<close> struct of \<open>types.go\<close>, its \<open>write\<close> (\<open>write.go\<close>) and
  \<open>parseHeaderFrame\<close> (\<open>read.go\<close>), and the round trip of the property list.
\<close>

section \<open>Property flags as bits\<close>

lemma hasProperty_bit: "k < 16 \<Longrightarrow> hasProperty m (push_bit k 1) \<longleftrightarrow> bit m k"
proof -
  assume k: "k < 16"
  have "uint m AND uint (push_bit k 1 :: u16) > 0 \<longleftrightarrow> m AND push_bit k 1 \<noteq> 0"
  proof -
    have "uint m AND uint (push_bit k 1 :: u16) = uint (m AND push_bit k 1)"
      by (simp only: uint_and)
    moreover have "0 < uint (m AND push_bit k 1) \<longleftrightarrow> m AND push_bit k 1 \<noteq> 0"
      by (metis uint_0_iff uint_ge_0 order_less_le)
    ultimately show ?thesis by simp
  qed
  also have "\<dots> \<longleftrightarrow> bit m k"
  proof
    assume "m AND push_bit k 1 \<noteq> 0"
    then obtain n where "bit (m AND push_bit k 1) n"
      by (metis bit_eqI bit_0_eq bot_apply bot_bool_def)
    then show "bit m k" by (auto simp: bit_simps)
  next
    assume "bit m k"
    then have "bit (m AND push_bit k 1) k" using k by (simp add: bit_simps)
    then show "m AND push_bit k 1 \<noteq> 0" by auto
  qed
  finally show ?thesis by (simp add: hasProperty_def)
qed

text \<open>The flag of bit \<open>k\<close>, kept folded so that the flags below stay distinct names.\<close>

definition flagBit :: "nat \<Rightarrow> u16" where
  "flagBit k = push_bit k 1"

lemma bit_flagBit: "j < 16 \<Longrightarrow> k < 16 \<Longrightarrow> bit (flagBit j) k \<longleftrightarrow> j = k"
  by (auto simp: flagBit_def bit_exp_iff)

lemma hasProperty_flagBit: "k < 16 \<Longrightarrow> hasProperty m (flagBit k) \<longleftrightarrow> bit m k"
  unfolding flagBit_def by (rule hasProperty_bit)

lemma flag_bits:
  "flagContentType = flagBit 15"
  "flagContentEncoding = flagBit 14"
  "flagHeaders = flagBit 13"
  "flagDeliveryMode = flagBit 12"
  "flagPriority = flagBit 11"
  "flagCorrelationId = flagBit 10"
  "flagReplyTo = flagBit 9"
  "flagExpiration = flagBit 8"
  "flagMessageId = flagBit 7"
  "flagTimestamp = flagBit 6"
  "flagType = flagBit 5"
  "flagUserId = flagBit 4"
  "flagAppId = flagBit 3"
  "flagReserved1 = flagBit 2"
  by (simp_all add: flag_defs flagBit_def)

text \<open>\<open>if c { mask = mask | flag }\<close>.\<close>

definition setFlag :: "u16 \<Rightarrow> bool \<Rightarrow> u16 \<Rightarrow> u16" where
  "setFlag flag c m = (if c then m OR flag else m)"

lemma hasProperty_setFlag:
  "j < 16 \<Longrightarrow> k < 16 \<Longrightarrow> hasProperty (setFlag (flagBit j) c m) (flagBit k) \<longleftrightarrow>
     (c \<and> j = k) \<or> hasProperty m (flagBit k)"
  by (auto simp: hasProperty_flagBit setFlag_def bit_or_iff bit_flagBit)

lemma hasProperty_0 [simp]: "hasProperty 0 f = False"
  by (simp add: hasProperty_def)

section \<open>Optional parts of a frame\<close>

text \<open>\<open>if hasProperty(flags, f) { if v, err = r(); err != nil { return } }\<close>, and its mirror image.\<close>

definition readIf :: "bool \<Rightarrow> 'a rd \<Rightarrow> 'a \<Rightarrow> 'a rd" where
  "readIf c r d = (if c then r else rreturn d)"

definition writeIf :: "bool \<Rightarrow> wresult \<Rightarrow> wresult" where
  "writeIf c w = (if c then w else Inr [])"

lemma decodes_if:
  "(c \<Longrightarrow> decodes r w a) \<Longrightarrow> (\<not> c \<Longrightarrow> a = d) \<Longrightarrow> decodes (readIf c r d) (writeIf c w) a"
  by (auto simp: readIf_def writeIf_def decodes_return)

lemma consumes_readIf [consume_intros]: "consumes r \<Longrightarrow> consumes (readIf c r d)"
  by (simp add: readIf_def consume_intros)

lemma answers_readIf [answer_intros]: "answers r \<Longrightarrow> answers (readIf c r d)"
  by (simp add: readIf_def answer_intros)

lemma online_readIf [online_intros]: "online r \<Longrightarrow> online (readIf c r d)"
  by (simp add: readIf_def online_intros)

lemma yields_readIf [yield_intros]: "yields r P \<Longrightarrow> P d \<Longrightarrow> yields (readIf c r d) P"
  by (simp add: readIf_def yields_return)

section \<open>The frame\<close>

record headerFrame =
  hf_ChannelId :: u16
  hf_ClassId :: u16
  hf_weight :: u16
  hf_Size :: u64
  hf_Properties :: properties

definition propertyMask :: "properties \<Rightarrow> u16" where
  "propertyMask p =
     setFlag flagAppId (length (AppId p) > 0) (
     setFlag flagUserId (length (UserId p) > 0) (
     setFlag flagType (length (Type p) > 0) (
     setFlag flagTimestamp (Timestamp p \<noteq> zeroTime) (
     setFlag flagMessageId (length (MessageId p) > 0) (
     setFlag flagExpiration (length (Expiration p) > 0) (
     setFlag flagReplyTo (length (ReplyTo p) > 0) (
     setFlag flagCorrelationId (length (CorrelationId p) > 0) (
     setFlag flagPriority (Priority p > 0) (
     setFlag flagDeliveryMode (DeliveryMode p > 0) (
     setFlag flagHeaders (length (Headers p) > 0) (
     setFlag flagContentEncoding (length (ContentEncoding p) > 0) (
     setFlag flagContentType (length (ContentType p) > 0) (0)))))))))))))"

definition writeProperties :: "u16 \<Rightarrow> properties \<Rightarrow> wresult" where
  "writeProperties m p =
    wthen (writeIf (hasProperty m flagContentType) (writeShortstr (ContentType p))) (
    wthen (writeIf (hasProperty m flagContentEncoding) (writeShortstr (ContentEncoding p))) (
    wthen (writeIf (hasProperty m flagHeaders) (writeTable (Headers p))) (
    wthen (writeIf (hasProperty m flagDeliveryMode) (writeU8 (DeliveryMode p))) (
    wthen (writeIf (hasProperty m flagPriority) (writeU8 (Priority p))) (
    wthen (writeIf (hasProperty m flagCorrelationId) (writeShortstr (CorrelationId p))) (
    wthen (writeIf (hasProperty m flagReplyTo) (writeShortstr (ReplyTo p))) (
    wthen (writeIf (hasProperty m flagExpiration) (writeShortstr (Expiration p))) (
    wthen (writeIf (hasProperty m flagMessageId) (writeShortstr (MessageId p))) (
    wthen (writeIf (hasProperty m flagTimestamp) (writeTimestamp (Timestamp p))) (
    wthen (writeIf (hasProperty m flagType) (writeShortstr (Type p))) (
    wthen (writeIf (hasProperty m flagUserId) (writeShortstr (UserId p))) (
    wthen (writeIf (hasProperty m flagAppId) (writeShortstr (AppId p))) (Inr [])))))))))))))"

definition readProperties :: "u16 \<Rightarrow> properties rd" where
  "readProperties flags =
    rbind (readIf (hasProperty flags flagContentType) readShortstr []) (\<lambda>v_ContentType.
    rbind (readIf (hasProperty flags flagContentEncoding) readShortstr []) (\<lambda>v_ContentEncoding.
    rbind (readIf (hasProperty flags flagHeaders) readTable []) (\<lambda>v_Headers.
    rbind (readIf (hasProperty flags flagDeliveryMode) readU8 0) (\<lambda>v_DeliveryMode.
    rbind (readIf (hasProperty flags flagPriority) readU8 0) (\<lambda>v_Priority.
    rbind (readIf (hasProperty flags flagCorrelationId) readShortstr []) (\<lambda>v_CorrelationId.
    rbind (readIf (hasProperty flags flagReplyTo) readShortstr []) (\<lambda>v_ReplyTo.
    rbind (readIf (hasProperty flags flagExpiration) readShortstr []) (\<lambda>v_Expiration.
    rbind (readIf (hasProperty flags flagMessageId) readShortstr []) (\<lambda>v_MessageId.
    rbind (readIf (hasProperty flags flagTimestamp) readTimestamp zeroTime) (\<lambda>v_Timestamp.
    rbind (readIf (hasProperty flags flagType) readShortstr []) (\<lambda>v_Type.
    rbind (readIf (hasProperty flags flagUserId) readShortstr []) (\<lambda>v_UserId.
    rbind (readIf (hasProperty flags flagAppId) readShortstr []) (\<lambda>v_AppId.
    rbind (readIf (hasProperty flags flagReserved1) readShortstr []) (\<lambda>v_Reserved1.
    rreturn \<lparr> ContentType = v_ContentType,
      ContentEncoding = v_ContentEncoding,
      Headers = v_Headers,
      DeliveryMode = v_DeliveryMode,
      Priority = v_Priority,
      CorrelationId = v_CorrelationId,
      ReplyTo = v_ReplyTo,
      Expiration = v_Expiration,
      MessageId = v_MessageId,
      Timestamp = v_Timestamp,
      Type = v_Type,
      UserId = v_UserId,
      AppId = v_AppId,
      reserved1 = v_Reserved1 \<rparr>))))))))))))))"

definition headerFrame_payload :: "headerFrame \<Rightarrow> wresult" where
  "headerFrame_payload f =
     wthen (writeU16 (hf_ClassId f)) (
     wthen (writeU16 (hf_weight f)) (
     wthen (writeU64 (hf_Size f)) (
     let msk = propertyMask (hf_Properties f) in
     wthen (writeU16 msk) (writeProperties msk (hf_Properties f)))))"

definition parseHeaderFrame :: "u16 \<Rightarrow> u32 \<Rightarrow> headerFrame rd" where
  "parseHeaderFrame ch sz =
     rbind readU16 (\<lambda>classId.
     rbind readU16 (\<lambda>weight.
     rbind readU64 (\<lambda>bodySize.
     rbind readU16 (\<lambda>flags.
     rbind (readProperties flags) (\<lambda>props.
     rreturn \<lparr> hf_ChannelId = ch, hf_ClassId = classId, hf_weight = weight,
               hf_Size = bodySize, hf_Properties = props \<rparr>)))))"

section \<open>Round trip\<close>

text \<open>
  What comes back of the properties: the headers canonised, a time stamp as local Unix seconds, and
  no \<open>reserved1\<close>, which the writer never sends.
\<close>

definition canonTime :: "gotime \<Rightarrow> gotime" where
  "canonTime t = (if t = zeroTime then zeroTime else timeUnix (t_sec t))"

definition canonProperties :: "properties \<Rightarrow> properties" where
  "canonProperties p = p\<lparr> Headers := canonEntries (Headers p), Timestamp := canonTime (Timestamp p),
     reserved1 := [] \<rparr>"

definition validProperties :: "properties \<Rightarrow> bool" where
  "validProperties p \<longleftrightarrow>
     length (ContentType p) < 256 \<and>
     length (ContentEncoding p) < 256 \<and>
     wfTable (Headers p) \<and>
     length (CorrelationId p) < 256 \<and>
     length (ReplyTo p) < 256 \<and>
     length (Expiration p) < 256 \<and>
     length (MessageId p) < 256 \<and>
     length (Type p) < 256 \<and>
     length (UserId p) < 256 \<and>
     length (AppId p) < 256"

lemma propertyMask_flags:
  "hasProperty (propertyMask p) flagContentType \<longleftrightarrow> length (ContentType p) > 0"
  "hasProperty (propertyMask p) flagContentEncoding \<longleftrightarrow> length (ContentEncoding p) > 0"
  "hasProperty (propertyMask p) flagHeaders \<longleftrightarrow> length (Headers p) > 0"
  "hasProperty (propertyMask p) flagDeliveryMode \<longleftrightarrow> DeliveryMode p > 0"
  "hasProperty (propertyMask p) flagPriority \<longleftrightarrow> Priority p > 0"
  "hasProperty (propertyMask p) flagCorrelationId \<longleftrightarrow> length (CorrelationId p) > 0"
  "hasProperty (propertyMask p) flagReplyTo \<longleftrightarrow> length (ReplyTo p) > 0"
  "hasProperty (propertyMask p) flagExpiration \<longleftrightarrow> length (Expiration p) > 0"
  "hasProperty (propertyMask p) flagMessageId \<longleftrightarrow> length (MessageId p) > 0"
  "hasProperty (propertyMask p) flagTimestamp \<longleftrightarrow> Timestamp p \<noteq> zeroTime"
  "hasProperty (propertyMask p) flagType \<longleftrightarrow> length (Type p) > 0"
  "hasProperty (propertyMask p) flagUserId \<longleftrightarrow> length (UserId p) > 0"
  "hasProperty (propertyMask p) flagAppId \<longleftrightarrow> length (AppId p) > 0"
  "\<not> hasProperty (propertyMask p) flagReserved1"
  unfolding propertyMask_def flag_bits by (simp_all add: hasProperty_setFlag)

text \<open>What is read can be written again, but for \<open>reserved1\<close>.\<close>

lemma yields_properties [yield_intros]:
  "yields (readProperties flags)
     (\<lambda>p. validProperties p \<and> canonProperties p = p\<lparr> reserved1 := [] \<rparr>)"
proof -
  have time: "yields (readIf c readTimestamp zeroTime) (\<lambda>t. canonTime t = t)" for c
    by (rule yields_readIf) (auto simp: yields_def canonTime_def readTimestamp_def rbind_Inr_iff timeUnix_def)
  show ?thesis
    unfolding readProperties_def
    by (rule yields_bind time yields_readIf yield_intros yields_return
        | simp add: validProperties_def canonProperties_def)+
qed

lemma decodes_skip: "\<not> c \<Longrightarrow> decodes (k d) w b \<Longrightarrow> decodes (rbind (readIf c r d) k) w b"
  by (auto simp: decodes_def readIf_def)

lemma decodes_time_if:
  "c \<longleftrightarrow> t \<noteq> zeroTime \<Longrightarrow>
   decodes (readIf c readTimestamp zeroTime) (writeIf c (writeTimestamp t)) (canonTime t)"
  using decodes_timestamp [of t] by (auto simp: readIf_def writeIf_def canonTime_def decodes_return)

lemma decodes_properties:
  assumes "validProperties p"
  shows "decodes (readProperties (propertyMask p)) (writeProperties (propertyMask p) p) (canonProperties p)"
  unfolding readProperties_def writeProperties_def
  by (rule decodes_bind decodes_time_if decodes_if decodes_shortstr decodes_table
        decodes_int decodes_return decodes_skip
      | simp add: propertyMask_flags word_gt_0 canonProperties_def assms [unfolded validProperties_def])+

end
