(* ===== verification/Frame.thy ===== *)
theory Frame
  imports HeaderFrame
begin

text \<open>
  Frames: the frame structs of \<open>types.go\<close>, \<open>WriteFrame\<close> and \<open>writeFrame\<close> of \<open>write.go\<close> over an
  arbitrary \<open>io.Writer\<close>, \<open>ReadFrame\<close> with \<open>parseBodyFrame\<close> and \<open>parseHeartbeatFrame\<close> of \<open>read.go\<close>, and
  the round trip of every frame.
\<close>

section \<open>The frame structs\<close>

record heartbeatFrame =
  hb_ChannelId :: u16

record bodyFrame =
  bf_ChannelId :: u16
  bf_Body :: bytes

text \<open>The implementations of the \<open>frame\<close> interface.\<close>

datatype (plugins only: code size) frame =
    MethodFrame methodFrame
  | HeaderFrame headerFrame
  | BodyFrame bodyFrame
  | HeartbeatFrame heartbeatFrame
  | ProtocolHeader

text \<open>\<open>channel()\<close>; a \<open>protocolHeader\<close> panics.\<close>

fun frame_channel :: "frame \<Rightarrow> go_error + u16" where
  "frame_channel (MethodFrame f) = Inr (mf_ChannelId f)"
| "frame_channel (HeaderFrame f) = Inr (hf_ChannelId f)"
| "frame_channel (BodyFrame f) = Inr (bf_ChannelId f)"
| "frame_channel (HeartbeatFrame f) = Inr (hb_ChannelId f)"
| "frame_channel ProtocolHeader = Inl Panic"

section \<open>Writing a frame\<close>

text \<open>
  The \<open>io.Writer\<close> a frame is written to is a state \<open>'w\<close> with a \<open>Write\<close> operation, which answers an
  error or none.
\<close>

type_synonym 'w write_op = "'w \<Rightarrow> bytes \<Rightarrow> go_error option \<times> 'w"

text \<open>The seven octets in front of the payload, with the masks and shifts of the source.\<close>

definition frameHead :: "u8 \<Rightarrow> u16 \<Rightarrow> u64 \<Rightarrow> bytes" where
  "frameHead ty ch sz =
     [ty,
      ucast (drop_bit 8 (ch AND 0xff00)),
      ucast (drop_bit 0 (ch AND 0x00ff)),
      ucast (drop_bit 24 (sz AND 0xff000000)),
      ucast (drop_bit 16 (sz AND 0x00ff0000)),
      ucast (drop_bit 8 (sz AND 0x0000ff00)),
      ucast (drop_bit 0 (sz AND 0x000000ff))]"

definition writeFrame ::
  "'w write_op \<Rightarrow> 'w \<Rightarrow> u8 \<Rightarrow> u16 \<Rightarrow> bytes \<Rightarrow> go_error option \<times> 'w" where
  "writeFrame wrt w ty ch payload =
     (case wrt w (frameHead ty ch (of_nat (length payload))) of
        (Some e, w1) \<Rightarrow> (Some e, w1)
      | (None, w1) \<Rightarrow>
          (case wrt w1 payload of
             (Some e, w2) \<Rightarrow> (Some e, w2)
           | (None, w2) \<Rightarrow> wrt w2 [frameEnd]))"

definition methodFrame_payload :: "methodFrame \<Rightarrow> wresult" where
  "methodFrame_payload f =
     (case mf_Method f of
        None \<Rightarrow> Inl MissingMethod
      | Some m \<Rightarrow> (case message_id m of (cls, mth) \<Rightarrow>
          wthen (writeU16 cls) (wthen (writeU16 mth) (message_write m))))"

text \<open>The \<open>write\<close> methods: build the payload in a buffer, then write the frame around it.\<close>

definition writePayload ::
  "'w write_op \<Rightarrow> 'w \<Rightarrow> u8 \<Rightarrow> u16 \<Rightarrow> wresult \<Rightarrow> go_error option \<times> 'w" where
  "writePayload wrt w ty ch payload =
     (case payload of Inl e \<Rightarrow> (Some e, w) | Inr bs \<Rightarrow> writeFrame wrt w ty ch bs)"

definition protocolHeader_bytes :: bytes where
  "protocolHeader_bytes = [0x41, 0x4D, 0x51, 0x50, 0, 0, 9, 1]"

definition methodFrame_write :: "'w write_op \<Rightarrow> 'w \<Rightarrow> methodFrame \<Rightarrow> go_error option \<times> 'w" where
  "methodFrame_write wrt w f =
     writePayload wrt w frameMethod (mf_ChannelId f) (methodFrame_payload f)"

definition headerFrame_write :: "'w write_op \<Rightarrow> 'w \<Rightarrow> headerFrame \<Rightarrow> go_error option \<times> 'w" where
  "headerFrame_write wrt w f =
     writePayload wrt w frameHeader (hf_ChannelId f) (headerFrame_payload f)"

definition bodyFrame_write :: "'w write_op \<Rightarrow> 'w \<Rightarrow> bodyFrame \<Rightarrow> go_error option \<times> 'w" where
  "bodyFrame_write wrt w f = writeFrame wrt w frameBody (bf_ChannelId f) (bf_Body f)"

definition heartbeatFrame_write :: "'w write_op \<Rightarrow> 'w \<Rightarrow> heartbeatFrame \<Rightarrow> go_error option \<times> 'w" where
  "heartbeatFrame_write wrt w f = writeFrame wrt w frameHeartbeat (hb_ChannelId f) []"

definition protocolHeader_write :: "'w write_op \<Rightarrow> 'w \<Rightarrow> go_error option \<times> 'w" where
  "protocolHeader_write wrt w = wrt w protocolHeader_bytes"

lemmas frame_write_defs [simp] = methodFrame_write_def headerFrame_write_def bodyFrame_write_def
  heartbeatFrame_write_def protocolHeader_write_def

fun frame_write :: "'w write_op \<Rightarrow> 'w \<Rightarrow> frame \<Rightarrow> go_error option \<times> 'w" where
  "frame_write wrt w (MethodFrame f) = methodFrame_write wrt w f"
| "frame_write wrt w (HeaderFrame f) = headerFrame_write wrt w f"
| "frame_write wrt w (BodyFrame f) = bodyFrame_write wrt w f"
| "frame_write wrt w (HeartbeatFrame f) = heartbeatFrame_write wrt w f"
| "frame_write wrt w ProtocolHeader = protocolHeader_write wrt w"

text \<open>\<open>flush\<close> is the writer's \<open>Flush\<close> when it is a \<open>*bufio.Writer\<close>, and \<open>None\<close> otherwise.\<close>

definition WriteFrame ::
  "'w write_op \<Rightarrow> ('w \<Rightarrow> go_error option \<times> 'w) option \<Rightarrow> 'w \<Rightarrow> frame \<Rightarrow> go_error option \<times> 'w" where
  "WriteFrame wrt flush w f =
     (case frame_write wrt w f of
        (Some e, w') \<Rightarrow> (Some e, w')
      | (None, w') \<Rightarrow> (case flush of None \<Rightarrow> (None, w') | Some fl \<Rightarrow> fl w'))"

section \<open>The bytes of a frame\<close>

definition frameBytes :: "u8 \<Rightarrow> u16 \<Rightarrow> bytes \<Rightarrow> bytes" where
  "frameBytes ty ch payload =
     ty # putU16 ch @ putU32 (of_nat (length payload)) @ payload @ [frameEnd]"

fun frameEncoding :: "frame \<Rightarrow> wresult" where
  "frameEncoding (MethodFrame f) =
     (case methodFrame_payload f of Inl e \<Rightarrow> Inl e
      | Inr p \<Rightarrow> Inr (frameBytes frameMethod (mf_ChannelId f) p))"
| "frameEncoding (HeaderFrame f) =
     (case headerFrame_payload f of Inl e \<Rightarrow> Inl e
      | Inr p \<Rightarrow> Inr (frameBytes frameHeader (hf_ChannelId f) p))"
| "frameEncoding (BodyFrame f) = Inr (frameBytes frameBody (bf_ChannelId f) (bf_Body f))"
| "frameEncoding (HeartbeatFrame f) = Inr (frameBytes frameHeartbeat (hb_ChannelId f) [])"
| "frameEncoding ProtocolHeader = Inr protocolHeader_bytes"

lemma octet_mask:
  fixes x :: "'a::len word"
  assumes "k + 8 \<le> LENGTH('a)"
  shows "(ucast (drop_bit k (x AND push_bit k (mask 8))) :: u8) = ucast (drop_bit k x)"
  using assms by (intro bit_word_eqI) (auto simp: bit_simps)

lemma octet_masks:
  "(0xff00 :: u16) = push_bit 8 (mask 8)" "(0x00ff :: u16) = push_bit 0 (mask 8)"
  "(0xff000000 :: u64) = push_bit 24 (mask 8)" "(0x00ff0000 :: u64) = push_bit 16 (mask 8)"
  "(0x0000ff00 :: u64) = push_bit 8 (mask 8)" "(0x000000ff :: u64) = push_bit 0 (mask 8)"
  by (simp_all add: mask_eq_exp_minus_1)

lemma octet_u32:
  "k + 8 \<le> 32 \<Longrightarrow> (ucast (drop_bit k (ucast (x :: u64) :: u32)) :: u8) = ucast (drop_bit k x)"
  by (intro bit_word_eqI) (auto simp: bit_simps)

lemma frameHead_put: "frameHead ty ch (of_nat n) = ty # putU16 ch @ putU32 (of_nat n)"
proof -
  have n: "(of_nat n :: u32) = ucast (of_nat n :: u64)"
    by (simp add: unsigned_of_nat word_of_nat_eq_iff)
  have d0: "drop_bit 0 x = x" for x :: "'a::len word" by simp
  have "putU32 (of_nat n) = [ucast (drop_bit 24 (of_nat n :: u64)), ucast (drop_bit 16 (of_nat n :: u64)),
      ucast (drop_bit 8 (of_nat n :: u64)), ucast (drop_bit 0 (of_nat n :: u64))]"
    unfolding putU32_def n using octet_u32 [of 0 "of_nat n"] by (simp add: octet_u32)
  moreover have "frameHead ty ch (of_nat n) = ty # [ucast (drop_bit 8 ch), ucast (drop_bit 0 ch),
      ucast (drop_bit 24 (of_nat n :: u64)), ucast (drop_bit 16 (of_nat n :: u64)),
      ucast (drop_bit 8 (of_nat n :: u64)), ucast (drop_bit 0 (of_nat n :: u64))]"
    unfolding frameHead_def octet_masks by (simp only: octet_mask len_of_numeral_defs)
  ultimately show ?thesis by (simp add: putU16_def)
qed

section \<open>What a writer promises\<close>

text \<open>
  The contract of \<open>io.Writer\<close>: \<open>sent w\<close> are the bytes that have reached the writer; a write without
  error appends its argument, and a failed one at most a part of it.
\<close>

locale io_writer =
  fixes wrt :: "'w write_op"
    and sent :: "'w \<Rightarrow> bytes"
  assumes write_ok: "wrt w bs = (None, w') \<Longrightarrow> sent w' = sent w @ bs"
    and write_err: "wrt w bs = (Some e, w') \<Longrightarrow> \<exists>p. prefix p bs \<and> sent w' = sent w @ p"
begin

lemma writeFrame_ok:
  assumes "writeFrame wrt w ty ch payload = (None, w')"
  shows "sent w' = sent w @ frameBytes ty ch payload"
proof -
  from assms obtain w1 w2 where
    "wrt w (frameHead ty ch (of_nat (length payload))) = (None, w1)"
    "wrt w1 payload = (None, w2)" "wrt w2 [frameEnd] = (None, w')"
    by (auto simp: writeFrame_def split: prod.splits option.splits)
  then show ?thesis
    by (simp add: write_ok frameHead_put frameBytes_def)
qed

lemma prefix_then: "prefix p b \<Longrightarrow> \<exists>q. prefix q (a @ b @ c) \<and> s @ a @ p = s @ q"
  by (intro exI [of _ "a @ p"]) (auto simp: prefix_def)

lemma writeFrame_err:
  assumes "writeFrame wrt w ty ch payload = (Some e, w')"
  shows "\<exists>p. prefix p (frameBytes ty ch payload) \<and> sent w' = sent w @ p"
proof -
  let ?h = "frameHead ty ch (of_nat (length payload))"
  have fb: "frameBytes ty ch payload = ?h @ payload @ [frameEnd]"
    by (simp add: frameBytes_def frameHead_put)
  consider (head) "wrt w ?h = (Some e, w')"
    | (body) w1 where "wrt w ?h = (None, w1)" "wrt w1 payload = (Some e, w')"
    | (last) w1 w2 where "wrt w ?h = (None, w1)" "wrt w1 payload = (None, w2)"
        "wrt w2 [frameEnd] = (Some e, w')"
    using assms by (auto simp: writeFrame_def split: prod.splits option.splits)
  then show ?thesis
  proof cases
    case head
    then show ?thesis using write_err [OF head] by (auto simp: fb)
  next
    case body
    then show ?thesis
      using write_err [OF body(2)] prefix_then [of _ payload ?h "[frameEnd]"]
      by (auto simp: fb write_ok)
  next
    case last
    then show ?thesis
      using write_err [OF last(3)] prefix_then [of _ "[frameEnd]" "?h @ payload" "[]"]
      by (auto simp: fb write_ok)
  qed
qed

text \<open>A frame that is written without error has reached the writer whole.\<close>

lemma frame_write_ok:
  "frame_write wrt w f = (None, w') \<Longrightarrow> \<exists>bs. frameEncoding f = Inr bs \<and> sent w' = sent w @ bs"
  by (cases f) (auto simp: writePayload_def write_ok writeFrame_ok split: sum.splits)

lemma frame_write_err:
  "frame_write wrt w f = (Some e, w') \<Longrightarrow>
     (frameEncoding f = Inl e \<and> w' = w) \<or>
     (\<exists>bs p. frameEncoding f = Inr bs \<and> prefix p bs \<and> sent w' = sent w @ p)"
  using write_err [of w protocolHeader_bytes e w']
  by (cases f) (auto simp: writePayload_def split: sum.splits dest: writeFrame_err)

end

section \<open>Reading a frame\<close>

text \<open>\<open>size\<close> counts the payload; it sizes a body, must be zero for a heartbeat and is unused otherwise.\<close>

definition parseBodyFrame :: "u16 \<Rightarrow> u32 \<Rightarrow> bodyFrame rd" where
  "parseBodyFrame ch sz =
     rbind (readFull (unat sz)) (\<lambda>body. rreturn \<lparr> bf_ChannelId = ch, bf_Body = body \<rparr>)"

definition parseHeartbeatFrame :: "u16 \<Rightarrow> u32 \<Rightarrow> heartbeatFrame rd" where
  "parseHeartbeatFrame ch sz =
     (if sz > 0 then rfail HeartbeatPayload else rreturn \<lparr> hb_ChannelId = ch \<rparr>)"

definition parseFrame :: "u8 \<Rightarrow> u16 \<Rightarrow> u32 \<Rightarrow> frame rd" where
  "parseFrame ty ch sz =
     (if ty = frameMethod then rbind (parseMethodFrame ch sz) (\<lambda>f. rreturn (MethodFrame f))
      else if ty = frameHeader then rbind (parseHeaderFrame ch sz) (\<lambda>f. rreturn (HeaderFrame f))
      else if ty = frameBody then rbind (parseBodyFrame ch sz) (\<lambda>f. rreturn (BodyFrame f))
      else if ty = frameHeartbeat
        then rbind (parseHeartbeatFrame ch sz) (\<lambda>f. rreturn (HeartbeatFrame f))
      else rfail ErrFrame)"

definition ReadFrame :: "frame rd" where
  "ReadFrame =
     rbind (readFull 7) (\<lambda>scratch.
     rbind (parseFrame (scratch ! 0) (beU16 (take 2 (drop 1 scratch)))
              (beU32 (take 4 (drop 3 scratch)))) (\<lambda>frame.
     rbind (readFull 1) (\<lambda>scratch.
     if scratch ! 0 \<noteq> frameEnd then rfail ErrFrame else rreturn frame)))"

lemma consumes_parseFrame [consume_intros]: "consumes (parseFrame ty ch sz)"
  unfolding parseFrame_def parseHeaderFrame_def parseBodyFrame_def parseHeartbeatFrame_def
    readProperties_def
  by (intro consume_intros)

lemma consumes_ReadFrame [consume_intros]: "consumes ReadFrame"
  unfolding ReadFrame_def by (intro consume_intros)

lemma answers_ReadFrame: "answers ReadFrame"
  unfolding ReadFrame_def parseFrame_def parseHeaderFrame_def parseBodyFrame_def
    parseHeartbeatFrame_def readProperties_def
  by (intro answer_intros) simp_all

lemma online_ReadFrame: "online ReadFrame"
  unfolding ReadFrame_def parseFrame_def parseHeaderFrame_def parseBodyFrame_def
    parseHeartbeatFrame_def readProperties_def
  by (intro online_intros)

lemma progresses_ReadFrame: "progresses ReadFrame"
  unfolding ReadFrame_def by (intro progresses_bind progresses_readFull consume_intros) simp_all

lemma ReadFrame_nil [simp]: "ReadFrame [] = (Inl EOF, [])"
  by (simp add: ReadFrame_def readFull_def rbind_def)

section \<open>Round trip\<close>

fun frame_valid :: "frame \<Rightarrow> bool" where
  "frame_valid (MethodFrame f) =
     (case mf_Method f of None \<Rightarrow> False | Some m \<Rightarrow> message_valid m)"
| "frame_valid (HeaderFrame f) = validProperties (hf_Properties f)"
| "frame_valid (BodyFrame f) = (length (bf_Body f) < 2 ^ 32)"
| "frame_valid (HeartbeatFrame f) = True"
| "frame_valid ProtocolHeader = False"

text \<open>
  What is read back: class and method number are those of the method, whatever the frame said, and
  method and properties are canonised.
\<close>

fun frame_canon :: "frame \<Rightarrow> frame" where
  "frame_canon (MethodFrame f) =
     (case mf_Method f of None \<Rightarrow> MethodFrame f
      | Some m \<Rightarrow> MethodFrame (f\<lparr> mf_ClassId := fst (message_id m), mf_MethodId := snd (message_id m),
                                mf_Method := Some (message_canon m) \<rparr>))"
| "frame_canon (HeaderFrame f) =
     HeaderFrame (f\<lparr> hf_Properties := canonProperties (hf_Properties f) \<rparr>)"
| "frame_canon f = f"

text \<open>
  What \<open>ReadFrame\<close> returns is a valid frame and its own canonical form, but for the property
  \<open>reserved1\<close>, which is read and never written.
\<close>

fun withoutReserved :: "frame \<Rightarrow> frame" where
  "withoutReserved (HeaderFrame f) =
     HeaderFrame (f\<lparr> hf_Properties := (hf_Properties f)\<lparr> reserved1 := [] \<rparr> \<rparr>)"
| "withoutReserved f = f"

lemma yields_bodyFrame: "yields (parseBodyFrame ch sz) (\<lambda>f. frame_valid (BodyFrame f))"
proof -
  have "unat sz < 2 ^ 32" using unat_bounds(3) [of sz] by simp
  then have "frame_valid (BodyFrame \<lparr> bf_ChannelId = ch, bf_Body = b \<rparr>)" if "length b = unat sz" for b
    using that by simp
  then show ?thesis
    unfolding parseBodyFrame_def by (rule yields_bind [OF yields_readers(9) yields_return])
qed

lemma yields_heartbeatFrame: "yields (parseHeartbeatFrame ch sz) (\<lambda>f. True)"
  by (simp add: yields_def)

lemma yields_methodFrame:
  "yields (parseMethodFrame ch sz)
     (\<lambda>f. frame_valid (MethodFrame f) \<and> frame_canon (MethodFrame f) = MethodFrame f)"
  unfolding parseMethodFrame_def by (rule yield_intros yields_return | simp)+

lemma yields_headerFrame:
  "yields (parseHeaderFrame ch sz)
     (\<lambda>f. frame_valid (HeaderFrame f) \<and> frame_canon (HeaderFrame f) = withoutReserved (HeaderFrame f))"
  unfolding parseHeaderFrame_def by (rule yield_intros yields_return | simp)+

lemma yields_parseFrame:
  "yields (parseFrame ty ch sz) (\<lambda>f. frame_valid f \<and> frame_canon f = withoutReserved f)"
  unfolding parseFrame_def
  by (rule yields_if yields_fail yields_bind [OF yields_methodFrame] yields_bind [OF yields_headerFrame]
      yields_bind [OF yields_bodyFrame] yields_bind [OF yields_heartbeatFrame] yields_return | simp)+

lemma yields_ReadFrame: "yields ReadFrame (\<lambda>f. frame_valid f \<and> frame_canon f = withoutReserved f)"
  unfolding ReadFrame_def
  by (rule yields_bind [OF yields_parseFrame] yields_bind [OF yields_readers(9)] yields_if
      yields_fail yields_return | assumption)+

lemma ReadFrame_bytes:
  assumes "\<And>r. parseFrame ty ch (of_nat (length payload)) (payload @ r) = (Inr f, r)"
  shows "ReadFrame (frameBytes ty ch payload @ rest) = (Inr f, rest)"
proof -
  let ?h = "ty # putU16 ch @ putU32 (of_nat (length payload))"
  have "readFull 7 (?h @ payload @ [frameEnd] @ rest) = (Inr ?h, payload @ [frameEnd] @ rest)"
    by (rule readFull_append) simp
  then have "ReadFrame (?h @ payload @ [frameEnd] @ rest) =
      rbind (parseFrame ty ch (of_nat (length payload))) (\<lambda>frame. rbind (readFull 1) (\<lambda>scratch.
        if scratch ! 0 \<noteq> frameEnd then rfail ErrFrame else rreturn frame))
        (payload @ [frameEnd] @ rest)"
    by (simp add: ReadFrame_def)
  then show ?thesis using assms by (simp add: frameBytes_def readFull_def rbind_def)
qed

lemma decodes_everywhere:
  assumes "\<And>z. decodes (r z) w a"
  obtains p where "w = Inr p" "\<And>z t. r z (p @ t) = (Inr a, t)"
proof -
  obtain p where "w = Inr p" using assms by (auto simp: decodes_def)
  moreover from this have "r z (p @ t) = (Inr a, t)" for z t
    using assms [of z] by (auto intro: decodes_apply)
  ultimately show thesis by (rule that)
qed

lemma decodes_methodFrame:
  assumes "mf_Method f = Some m" "message_valid m" "frame_canon (MethodFrame f) = MethodFrame g"
  shows "decodes (parseMethodFrame (mf_ChannelId f) sz) (methodFrame_payload f) g"
proof -
  have g: "g = f\<lparr> mf_ClassId := fst (message_id m), mf_MethodId := snd (message_id m),
             mf_Method := Some (message_canon m) \<rparr>"
    using assms by simp
  show ?thesis
    using decodes_method [OF assms(2)]
    by (auto simp: decodes_def parseMethodFrame_def methodFrame_payload_def assms(1) g writeU16_def
        split: prod.splits)
qed

lemma decodes_headerFrame:
  assumes "validProperties (hf_Properties f)"
  shows "decodes (parseHeaderFrame (hf_ChannelId f) sz) (headerFrame_payload f)
           (f\<lparr> hf_Properties := canonProperties (hf_Properties f) \<rparr>)"
  using decodes_properties [OF assms]
  by (auto simp: decodes_def parseHeaderFrame_def headerFrame_payload_def writeU16_def writeU64_def
      Let_def)

lemma decodes_frame:
  assumes "frame_valid f"
  shows "decodes ReadFrame (frameEncoding f) (frame_canon f)"
proof (cases f)
  case (MethodFrame mf)
  then obtain m where m: "mf_Method mf = Some m" "message_valid m"
    using assms by (auto split: option.splits)
  then obtain g where g: "frame_canon f = MethodFrame g"
    using MethodFrame by simp
  have "decodes (parseMethodFrame (mf_ChannelId mf) sz) (methodFrame_payload mf) g" for sz
    using m g MethodFrame by (intro decodes_methodFrame) simp_all
  then obtain p where p: "methodFrame_payload mf = Inr p"
      "\<And>sz r. parseMethodFrame (mf_ChannelId mf) sz (p @ r) = (Inr g, r)"
    by (rule decodes_everywhere [where r = "parseMethodFrame (mf_ChannelId mf)"]) blast
  then show ?thesis
    using MethodFrame g
    by (auto intro!: decodesI ReadFrame_bytes simp: parseFrame_def frame_codes)
next
  case (HeaderFrame hf)
  then have "decodes (parseHeaderFrame (hf_ChannelId hf) sz) (headerFrame_payload hf)
      (hf\<lparr> hf_Properties := canonProperties (hf_Properties hf) \<rparr>)" for sz
    using assms by (intro decodes_headerFrame) simp
  then obtain p where p: "headerFrame_payload hf = Inr p"
      "\<And>sz r. parseHeaderFrame (hf_ChannelId hf) sz (p @ r) =
         (Inr (hf\<lparr> hf_Properties := canonProperties (hf_Properties hf) \<rparr>), r)"
    by (rule decodes_everywhere [where r = "parseHeaderFrame (hf_ChannelId hf)"]) blast
  then show ?thesis
    using HeaderFrame by (auto intro!: decodesI ReadFrame_bytes simp: parseFrame_def frame_codes)
next
  case (BodyFrame bf)
  then show ?thesis
    using assms
    by (auto intro!: decodesI ReadFrame_bytes simp: parseFrame_def parseBodyFrame_def frame_codes)
next
  case (HeartbeatFrame hb)
  then show ?thesis
    by (auto intro!: decodesI ReadFrame_bytes simp: parseFrame_def parseHeartbeatFrame_def frame_codes)
next
  case ProtocolHeader
  then show ?thesis using assms by simp
qed

section \<open>Writers\<close>

text \<open>\<open>bytes.Buffer\<close>: a write appends and never fails.\<close>

definition bufferWrite :: "bytes write_op" where
  "bufferWrite w bs = (None, w @ bs)"

interpretation buffer: io_writer bufferWrite "\<lambda>w. w"
  by unfold_locales (auto simp: bufferWrite_def)

text \<open>
  A connection that takes \<open>n\<close> more bytes and then fails: the writer on which the error paths of
  \<open>writeFrame\<close> run.
\<close>

definition cappedWrite :: "(nat \<times> bytes) write_op" where
  "cappedWrite w bs =
     (case w of (n, out) \<Rightarrow>
        if length bs \<le> n then (None, (n - length bs, out @ bs))
        else (Some WriteError, (0, out @ take n bs)))"

interpretation capped: io_writer cappedWrite snd
  by unfold_locales (auto simp: cappedWrite_def take_is_prefix split: prod.splits if_splits)

lemma buffer_frame_write:
  "frame_write bufferWrite w f =
     (case frameEncoding f of Inl e \<Rightarrow> (Some e, w) | Inr bs \<Rightarrow> (None, w @ bs))"
  using frameHead_put [of frameHeartbeat _ 0]
  by (cases f) (auto simp: writePayload_def writeFrame_def bufferWrite_def frameHead_put
      frameBytes_def split: sum.splits)

text \<open>
  \<open>ReadFrame\<close> on any input: it comes back, leaves a suffix of its input, and takes at least one byte
  unless there is none.
\<close>

lemma read_frame_total:
  "fst (ReadFrame s) \<noteq> Inl Diverged \<and> suffix (snd (ReadFrame s)) s \<and>
   (s = [] \<longleftrightarrow> snd (ReadFrame s) = s)"
proof (cases "s = []")
  case False
  then have "length (snd (ReadFrame s)) < length s"
    using progresses_ReadFrame by (simp add: progresses_def)
  then have "snd (ReadFrame s) \<noteq> s" by auto
  then show ?thesis
    using False answers_ReadFrame consumes_ReadFrame by (auto simp: answers_def consumes_def)
qed simp

text \<open>The size in the frame header is not used for method and header frames.\<close>

lemma declared_size_ignored:
  assumes "ty = frameMethod \<or> ty = frameHeader"
  shows "ReadFrame (ty # putU16 ch @ putU32 sz @ s) = ReadFrame (ty # putU16 ch @ putU32 sz' @ s)"
proof -
  have head: "ReadFrame (ty # putU16 ch @ putU32 z @ s) =
      rbind (parseFrame ty ch z) (\<lambda>frame. rbind (readFull 1) (\<lambda>scratch.
        if scratch ! 0 \<noteq> frameEnd then rfail ErrFrame else rreturn frame)) s" for z
  proof -
    have "readFull 7 ((ty # putU16 ch @ putU32 z) @ s) = (Inr (ty # putU16 ch @ putU32 z), s)"
      by (rule readFull_append) simp
    then show ?thesis by (simp add: ReadFrame_def)
  qed
  have "parseFrame ty ch sz = parseFrame ty ch sz'"
    using assms by (auto simp: parseFrame_def parseMethodFrame_def parseHeaderFrame_def frame_codes)
  then show ?thesis by (simp only: head)
qed

end
