(* ===== verification/Channel.thy ===== *)
theory Channel
  imports Delivery Confirms Frame
begin

text \<open>
  \<open>channel.go\<close>: the state of a channel, \<open>dispatch\<close>, and the state machine \<open>recvMethod\<close> /
  \<open>recvHeader\<close> / \<open>recvContent\<close> that puts messages together from frames; the goroutines started by
  \<open>dispatch\<close> as a step relation; and \<open>assemble\<close>, the specification of reassembly, which the state
  machine is proved to implement.
\<close>

section \<open>State\<close>

text \<open>The method value in the field \<open>recv\<close>.\<close>

datatype (plugins only: code size) recv_state = RecvMethod | RecvHeader | RecvContent

text \<open>
  \<open>connection\<close> and \<open>sink\<close> are what a channel uses of its \<open>*Connection\<close>.  Go channels that are only
  sent to (\<open>rpc\<close>, \<open>flows\<close>, \<open>returns\<close>, \<open>cancels\<close>) are the lists of what was sent.  \<open>forwarders\<close> are the
  goroutines that \<open>dispatch\<close> starts, one for each buffer of \<open>consumers\<close>: the delivery each of them holds
  between \<open>range deliveries\<close> and the end of its body.  \<open>bodyCap\<close> is \<open>cap(ch.body)\<close>.  The fields
  \<open>destructor\<close>, \<open>closed\<close>, \<open>noNotify\<close>, \<open>closes\<close> and \<open>errors\<close> are never read by the package.
\<close>

record channel =
  connection :: "connectionInfo option"
  sink :: bool
  rpc :: "message list option"
  consumers :: "channelRef delivery consumers"
  forwarders :: "channelRef delivery option list"
  channelId :: u16
  flows :: "bool list list"
  returns :: "return list list"
  cancels :: "gostring list list"
  confirms :: confirms
  confirming :: bool
  recv :: recv_state
  message :: "message option"
  header :: "headerFrame option"
  body :: bytes
  bodyCap :: nat

definition newChannel :: "connectionInfo option \<Rightarrow> bool \<Rightarrow> u16 \<Rightarrow> channel" where
  "newChannel c snk n =
     \<lparr> connection = c, sink = snk, rpc = None, consumers = makeConsumers, forwarders = [],
       channelId = n, flows = [], returns = [], cancels = [], confirms = newConfirms,
       confirming = False, recv = RecvMethod, message = None, header = None, body = [], bodyCap = 0 \<rparr>"

text \<open>The pointer \<open>ch\<close> as the acknowledger of a delivery.\<close>

definition refOf :: "channel \<Rightarrow> channelRef" where
  "refOf ch = \<lparr> ref_connection = connection ch, ref_sink = sink ch, ref_id = channelId ch \<rparr>"

section \<open>Dispatch\<close>

text \<open>\<open>Connection.closeChannel\<close> has an empty body.\<close>

definition closeChannel :: "amqp_error \<Rightarrow> channel \<Rightarrow> channel" where
  "closeChannel err ch = ch"

definition broadcast :: "'a \<Rightarrow> 'a list list \<Rightarrow> 'a list list" where
  "broadcast x cs = map (\<lambda>c. c @ [x]) cs"

text \<open>A \<open>Multiple\<close> that does not end is \<open>Diverged\<close>, as is a send that nobody will ever receive.\<close>

definition dispatchConfirm :: "u64 \<Rightarrow> bool \<Rightarrow> bool \<Rightarrow> channel \<Rightarrow> go_error + channel" where
  "dispatchConfirm tag multiple ack ch =
     (if confirming ch then
        (if multiple then
           (case Multiple \<lparr> cf_DeliveryTag = tag, cf_Ack = ack \<rparr> (confirms ch) of
              None \<Rightarrow> Inl Diverged
            | Some c \<Rightarrow> Inr (ch\<lparr> confirms := c \<rparr>))
         else Inr (ch\<lparr> confirms := One \<lparr> cf_DeliveryTag = tag, cf_Ack = ack \<rparr> (confirms ch) \<rparr>))
      else Inr ch)"

text \<open>If there is no consumer of that tag yet, make one, with the goroutine that forwards its deliveries.\<close>

definition ensureConsumer :: "gostring \<Rightarrow> channel \<Rightarrow> go_error + channel" where
  "ensureConsumer tag ch =
     (case chans (consumers ch) tag of
        Some _ \<Rightarrow> Inr ch
      | None \<Rightarrow> map_sum id (\<lambda>cs. ch\<lparr> consumers := cs, forwarders := forwarders ch @ [None] \<rparr>)
                   (add tag (consumers ch)))"

definition dispatchDeliver :: "basicDeliver \<Rightarrow> channel \<Rightarrow> go_error + channel" where
  "dispatchDeliver m ch =
     (case ensureConsumer (basicDeliver_ConsumerTag m) ch of
        Inl e \<Rightarrow> Inl e
      | Inr ch' \<Rightarrow>
          (case sendTo (basicDeliver_ConsumerTag m)
                  (newDelivery (refOf ch) (BasicMsg (BasicDeliver m))) (consumers ch') of
             SendPanics \<Rightarrow> Inl Panic
           | SendBlocks \<Rightarrow> Inl Diverged
           | Found _ cs \<Rightarrow> Inr (ch'\<lparr> consumers := cs \<rparr>)))"

definition dispatchDefault :: "message \<Rightarrow> channel \<Rightarrow> channel" where
  "dispatchDefault msg ch =
     (case rpc ch of None \<Rightarrow> ch | Some ms \<Rightarrow> ch\<lparr> rpc := Some (ms @ [msg]) \<rparr>)"

fun dispatch :: "message \<Rightarrow> channel \<Rightarrow> go_error + channel" where
  "dispatch (ChannelMsg (ChannelClose m)) ch =
     Inr (closeChannel (newError (channelClose_ReplyCode m) (channelClose_ReplyText m)) ch)"
| "dispatch (ChannelMsg (ChannelFlow m)) ch =
     Inr (ch\<lparr> flows := broadcast (channelFlow_Active m) (flows ch) \<rparr>)"
| "dispatch (BasicMsg (BasicCancel m)) ch =
     map_sum id (\<lambda>(_, cs). ch\<lparr> cancels := broadcast (basicCancel_ConsumerTag m) (cancels ch),
                              consumers := cs \<rparr>)
       (cancel (basicCancel_ConsumerTag m) (consumers ch))"
| "dispatch (BasicMsg (BasicReturn m)) ch =
     Inr (ch\<lparr> returns := broadcast (newReturn m) (returns ch) \<rparr>)"
| "dispatch (BasicMsg (BasicAck m)) ch =
     dispatchConfirm (basicAck_DeliveryTag m) (basicAck_Multiple m) True ch"
| "dispatch (BasicMsg (BasicNack m)) ch =
     dispatchConfirm (basicNack_DeliveryTag m) (basicNack_Multiple m) False ch"
| "dispatch (BasicMsg (BasicDeliver m)) ch = dispatchDeliver m ch"
| "dispatch msg ch = Inr (dispatchDefault msg ch)"

text \<open>A frame without a method dispatches \<open>nil\<close>, which the default case of the switch takes.\<close>

definition dispatchOption :: "message option \<Rightarrow> channel \<Rightarrow> go_error + channel" where
  "dispatchOption m ch = (case m of None \<Rightarrow> Inr ch | Some msg \<Rightarrow> dispatch msg ch)"

section \<open>The state machine\<close>

definition transition :: "recv_state \<Rightarrow> channel \<Rightarrow> channel" where
  "transition f ch = ch\<lparr> recv := f \<rparr>"

text \<open>\<open>make([]byte, 0, n)\<close> panics for more than the 2^48 bytes that the runtime can address on amd64.\<close>

definition maxAlloc :: nat where
  "maxAlloc = 2 ^ 48"

fun recvMethod :: "frame \<Rightarrow> channel \<Rightarrow> go_error + channel" where
  "recvMethod (MethodFrame f) ch =
     (case mf_Method f of
        Some msg \<Rightarrow>
          if hasContent msg
          then Inr (transition RecvHeader (ch\<lparr> body := [], bodyCap := 0, message := Some msg \<rparr>))
          else map_sum id (transition RecvMethod) (dispatch msg ch)
      | None \<Rightarrow> map_sum id (transition RecvMethod) (dispatchOption None ch))"
| "recvMethod (HeaderFrame f) ch = Inr (transition RecvMethod ch)"
| "recvMethod (BodyFrame f) ch = Inr (transition RecvMethod ch)"
| "recvMethod _ ch = Inl Panic"

text \<open>\<open>ch.message.setContent(ch.header.Properties, ch.body)\<close>, the dispatch and the transition.\<close>

definition finish :: "channel \<Rightarrow> go_error + channel" where
  "finish ch =
     (case (message ch, header ch) of
        (Some msg, Some h) \<Rightarrow>
          (let msg' = setContent (hf_Properties h) (body ch) msg in
           map_sum id (transition RecvMethod) (dispatch msg' (ch\<lparr> message := Some msg' \<rparr>)))
      | _ \<Rightarrow> Inl Panic)"

fun recvHeader :: "frame \<Rightarrow> channel \<Rightarrow> go_error + channel" where
  "recvHeader (MethodFrame f) ch = recvMethod (MethodFrame f) ch"
| "recvHeader (HeaderFrame f) ch =
     (let ch' = ch\<lparr> header := Some f \<rparr> in
      if hf_Size f = 0 then finish ch' else Inr (transition RecvContent ch'))"
| "recvHeader (BodyFrame f) ch = Inr (transition RecvMethod ch)"
| "recvHeader _ ch = Inl Panic"

text \<open>
  \<open>append\<close> keeps the capacity while the bytes fit.  Beyond that Go chooses a larger one, here the
  smallest possible; the code only ever asks whether the capacity is zero.
\<close>

definition makeBody :: "headerFrame \<Rightarrow> channel \<Rightarrow> go_error + channel" where
  "makeBody h ch =
     (if bodyCap ch = 0 then
        (if unat (hf_Size h) > maxAlloc then Inl Panic
         else Inr (ch\<lparr> body := [], bodyCap := unat (hf_Size h) \<rparr>))
      else Inr ch)"

definition appendBody :: "bytes \<Rightarrow> channel \<Rightarrow> channel" where
  "appendBody bs ch =
     ch\<lparr> body := body ch @ bs, bodyCap := max (bodyCap ch) (length (body ch @ bs)) \<rparr>"

fun recvContent :: "frame \<Rightarrow> channel \<Rightarrow> go_error + channel" where
  "recvContent (MethodFrame f) ch = recvMethod (MethodFrame f) ch"
| "recvContent (HeaderFrame f) ch = Inr (transition RecvMethod ch)"
| "recvContent (BodyFrame f) ch =
     (case header ch of
        None \<Rightarrow> Inl Panic
      | Some h \<Rightarrow>
          (case makeBody h ch of
             Inl e \<Rightarrow> Inl e
           | Inr ch1 \<Rightarrow>
               (let ch2 = appendBody (bf_Body f) ch1 in
                if of_nat (length (body ch2)) \<ge> hf_Size h then finish ch2
                else Inr (transition RecvContent ch2))))"
| "recvContent _ ch = Inl Panic"

text \<open>\<open>channel.recv(channel, f)\<close>.\<close>

definition recvFrame :: "frame \<Rightarrow> channel \<Rightarrow> go_error + channel" where
  "recvFrame f ch =
     (case recv ch of
        RecvMethod \<Rightarrow> recvMethod f ch
      | RecvHeader \<Rightarrow> recvHeader f ch
      | RecvContent \<Rightarrow> recvContent f ch)"

fun recvFrames :: "frame list \<Rightarrow> channel \<Rightarrow> go_error + channel" where
  "recvFrames [] ch = Inr ch"
| "recvFrames (f # fs) ch = (case recvFrame f ch of Inl e \<Rightarrow> Inl e | Inr ch' \<Rightarrow> recvFrames fs ch')"

section \<open>The specification of reassembly\<close>

text \<open>
  What arrives on a channel is a sequence of methods, some of them followed by a content header and
  bodies.  \<open>assemble\<close> says what has been received so far, and which complete message a frame gives.
\<close>

datatype (plugins only: code size) assembly =
    WantMethod
  | WantHeader message
  | WantBody message headerFrame bytes

fun assembleMethod :: "message option \<Rightarrow> message option \<times> assembly" where
  "assembleMethod None = (None, WantMethod)"
| "assembleMethod (Some m) = (if hasContent m then (None, WantHeader m) else (Some m, WantMethod))"

fun assemble :: "assembly \<Rightarrow> frame \<Rightarrow> message option \<times> assembly" where
  "assemble a (MethodFrame f) = assembleMethod (mf_Method f)"
| "assemble (WantHeader m) (HeaderFrame h) =
     (if hf_Size h = 0 then (Some (setContent (hf_Properties h) [] m), WantMethod)
      else (None, WantBody m h []))"
| "assemble (WantBody m h bs) (BodyFrame b) =
     (if of_nat (length (bs @ bf_Body b)) \<ge> hf_Size h
      then (Some (setContent (hf_Properties h) (bs @ bf_Body b) m), WantMethod)
      else (None, WantBody m h (bs @ bf_Body b)))"
| "assemble a f = (None, WantMethod)"

fun assembleAll :: "assembly \<Rightarrow> frame list \<Rightarrow> message list \<times> assembly" where
  "assembleAll a [] = ([], a)"
| "assembleAll a (f # fs) =
     (case assemble a f of (m, a') \<Rightarrow>
        (case assembleAll a' fs of (ms, a'') \<Rightarrow> (case_option [] (\<lambda>x. [x]) m @ ms, a'')))"

text \<open>
  The frames a channel panics on: a heartbeat, a protocol header, and the first body after a header whose
  size cannot be allocated.
\<close>

fun refuses :: "assembly \<Rightarrow> frame \<Rightarrow> bool" where
  "refuses a ProtocolHeader = True"
| "refuses a (HeartbeatFrame f) = True"
| "refuses (WantBody m h bs) (BodyFrame b) = (maxAlloc < unat (hf_Size h))"
| "refuses a f = False"

fun acceptable :: "assembly \<Rightarrow> frame list \<Rightarrow> bool" where
  "acceptable a [] = True"
| "acceptable a (f # fs) = (\<not> refuses a f \<and> acceptable (snd (assemble a f)) fs)"

text \<open>Frames that are accepted in any order: no heartbeat or protocol header, and sizes that can be allocated.\<close>

fun channelFrame :: "frame \<Rightarrow> bool" where
  "channelFrame (HeaderFrame h) = (unat (hf_Size h) \<le> maxAlloc)"
| "channelFrame (MethodFrame f) = True"
| "channelFrame (BodyFrame f) = True"
| "channelFrame f = False"

text \<open>A message whose dispatch comes back: only a \<open>Multiple\<close> for the last tag can go on for ever.\<close>

fun returning :: "message \<Rightarrow> bool" where
  "returning (BasicMsg (BasicAck m)) = (basicAck_Multiple m \<longrightarrow> basicAck_DeliveryTag m \<noteq> - 1)"
| "returning (BasicMsg (BasicNack m)) = (basicNack_Multiple m \<longrightarrow> basicNack_DeliveryTag m \<noteq> - 1)"
| "returning m = True"

text \<open>And only if the channel is in confirm mode; nothing in the program ever puts one into it.\<close>

definition comesBack :: "channel \<Rightarrow> message \<Rightarrow> bool" where
  "comesBack ch m \<longleftrightarrow> (confirming ch \<longrightarrow> returning m)"

lemma comesBack_idle [simp]: "\<not> confirming ch \<Longrightarrow> comesBack ch m"
  by (simp add: comesBack_def)

section \<open>Dispatch comes back\<close>

definition goroutines_ok :: "channel \<Rightarrow> bool" where
  "goroutines_ok ch \<longleftrightarrow>
     consumers_inv (consumers ch) \<and> \<not> closed (consumers ch) \<and>
     length (forwarders ch) = length (buffers (consumers ch))"

text \<open>Everything but the reassembly state.\<close>

definition outputs :: "channel \<Rightarrow> channel" where
  "outputs ch = ch\<lparr> recv := RecvMethod, message := None, header := None, body := [], bodyCap := 0 \<rparr>"

definition sameAssembly :: "channel \<Rightarrow> channel \<Rightarrow> bool" where
  "sameAssembly ch ch' \<longleftrightarrow> recv ch' = recv ch \<and> message ch' = message ch \<and> header ch' = header ch \<and>
     body ch' = body ch \<and> bodyCap ch' = bodyCap ch \<and> confirming ch' = confirming ch"

lemma sameAssembly_refl [simp]: "sameAssembly ch ch"
  by (simp add: sameAssembly_def)

lemma outputs_simps [simp]:
  "outputs (ch\<lparr> recv := r \<rparr>) = outputs ch" "outputs (ch\<lparr> message := m \<rparr>) = outputs ch"
  "outputs (ch\<lparr> header := h \<rparr>) = outputs ch" "outputs (ch\<lparr> body := b \<rparr>) = outputs ch"
  "outputs (ch\<lparr> bodyCap := n \<rparr>) = outputs ch" "outputs (outputs ch) = outputs ch"
  "consumers (outputs ch) = consumers ch" "forwarders (outputs ch) = forwarders ch"
  "refOf (outputs ch) = refOf ch" "flows (outputs ch) = flows ch" "returns (outputs ch) = returns ch"
  "cancels (outputs ch) = cancels ch" "confirms (outputs ch) = confirms ch"
  "confirming (outputs ch) = confirming ch" "rpc (outputs ch) = rpc ch"
  by (simp_all add: outputs_def refOf_def)

lemma outputs_confirming: "outputs ch = outputs ch' \<Longrightarrow> confirming ch = confirming ch'"
  by (metis outputs_simps(14))

lemma outputs_updates:
  "outputs (ch\<lparr> consumers := cs \<rparr>) = (outputs ch)\<lparr> consumers := cs \<rparr>"
  "outputs (ch\<lparr> forwarders := fw \<rparr>) = (outputs ch)\<lparr> forwarders := fw \<rparr>"
  "outputs (ch\<lparr> flows := fl \<rparr>) = (outputs ch)\<lparr> flows := fl \<rparr>"
  "outputs (ch\<lparr> returns := rs \<rparr>) = (outputs ch)\<lparr> returns := rs \<rparr>"
  "outputs (ch\<lparr> cancels := ca \<rparr>) = (outputs ch)\<lparr> cancels := ca \<rparr>"
  "outputs (ch\<lparr> confirms := co \<rparr>) = (outputs ch)\<lparr> confirms := co \<rparr>"
  "outputs (ch\<lparr> rpc := rp \<rparr>) = (outputs ch)\<lparr> rpc := rp \<rparr>"
  by (simp_all add: outputs_def)

lemma goroutines_ok_upd [simp]:
  "goroutines_ok (ch\<lparr> confirms := c \<rparr>) = goroutines_ok ch"
  "goroutines_ok (ch\<lparr> flows := fl \<rparr>) = goroutines_ok ch"
  "goroutines_ok (ch\<lparr> returns := rs \<rparr>) = goroutines_ok ch"
  "goroutines_ok (ch\<lparr> rpc := rp \<rparr>) = goroutines_ok ch"
  "goroutines_ok (ch\<lparr> recv := r \<rparr>) = goroutines_ok ch"
  "goroutines_ok (ch\<lparr> message := m \<rparr>) = goroutines_ok ch"
  "goroutines_ok (ch\<lparr> header := h \<rparr>) = goroutines_ok ch"
  "goroutines_ok (ch\<lparr> body := b \<rparr>) = goroutines_ok ch"
  "goroutines_ok (ch\<lparr> bodyCap := n \<rparr>) = goroutines_ok ch"
  by (simp_all add: goroutines_ok_def)

lemma sameAssembly_upd [simp]:
  "sameAssembly ch (ch\<lparr> confirms := c \<rparr>)" "sameAssembly ch (ch\<lparr> flows := fl \<rparr>)"
  "sameAssembly ch (ch\<lparr> returns := rs \<rparr>)" "sameAssembly ch (ch\<lparr> rpc := rp \<rparr>)"
  by (simp_all add: sameAssembly_def)

lemma Multiple_returns: "cf_DeliveryTag cf \<noteq> - 1 \<Longrightarrow> \<exists>c'. Multiple cf c = Some c'"
  using multipleLoop_returns [OF _ refl] by (fastforce simp: Multiple_def)

lemma dispatchConfirm_returns:
  assumes "confirming ch \<longrightarrow> multiple \<longrightarrow> tag \<noteq> - 1"
  shows "\<exists>c. dispatchConfirm tag multiple ack ch = Inr (ch\<lparr> confirms := c \<rparr>) \<and>
           dispatchConfirm tag multiple ack (outputs ch) = Inr ((outputs ch)\<lparr> confirms := c \<rparr>)"
proof -
  have keep: "\<exists>c. x = x\<lparr> confirms := c \<rparr> \<and> y = y\<lparr> confirms := c \<rparr>"
    if "confirms x = confirms y" for x y :: channel
    using that by (intro exI [of _ "confirms x"]) simp
  obtain c where "confirming ch \<longrightarrow> multiple \<longrightarrow> Multiple \<lparr> cf_DeliveryTag = tag, cf_Ack = ack \<rparr> (confirms ch) = Some c"
    using Multiple_returns [of "\<lparr> cf_DeliveryTag = tag, cf_Ack = ack \<rparr>"] assms by fastforce
  then show ?thesis
    using keep [of ch "outputs ch"] by (auto simp: dispatchConfirm_def)
qed

lemma ensureConsumer_ok:
  assumes "goroutines_ok ch"
  shows "\<exists>ch' i. ensureConsumer tag ch = Inr ch' \<and> goroutines_ok ch' \<and> sameAssembly ch ch' \<and>
           chans (consumers ch') tag = Some i \<and> refOf ch' = refOf ch \<and>
           ensureConsumer tag (outputs ch) = Inr (outputs ch')"
proof (cases "chans (consumers ch) tag")
  case None
  from assms have inv: "consumers_inv (consumers ch)" by (simp add: goroutines_ok_def)
  have st: "consumers_inv (startBuffer tag (consumers ch))"
    using inv None by (rule consumers_inv_start)
  have a: "add tag (consumers ch) = Inr (startBuffer tag (consumers ch))"
    using None by (simp add: add_def)
  let ?ch = "ch\<lparr> consumers := startBuffer tag (consumers ch), forwarders := forwarders ch @ [None] \<rparr>"
  have "goroutines_ok ?ch" using assms st by (simp add: goroutines_ok_def startBuffer_def)
  moreover have "ensureConsumer tag ch = Inr ?ch" using None a by (simp add: ensureConsumer_def)
  moreover have "ensureConsumer tag (outputs ch) = Inr (outputs ?ch)"
    using None a by (simp add: ensureConsumer_def outputs_updates)
  moreover have "chans (consumers ?ch) tag = Some (length (buffers (consumers ch)))"
    by (simp add: startBuffer_def)
  moreover have "sameAssembly ch ?ch" "refOf ?ch = refOf ch"
    by (simp_all add: sameAssembly_def refOf_def)
  ultimately show ?thesis by blast
next
  case (Some i)
  then show ?thesis using assms by (simp add: ensureConsumer_def)
qed

lemma dispatchDeliver_ok:
  assumes "goroutines_ok ch"
  shows "\<exists>ch'. dispatchDeliver m ch = Inr ch' \<and> goroutines_ok ch' \<and> sameAssembly ch ch' \<and>
           dispatchDeliver m (outputs ch) = Inr (outputs ch')"
proof -
  let ?t = "basicDeliver_ConsumerTag m" and ?d = "newDelivery (refOf ch) (BasicMsg (BasicDeliver m))"
  from ensureConsumer_ok [OF assms, of ?t] obtain ch1 i where
    ch1: "ensureConsumer ?t ch = Inr ch1" "goroutines_ok ch1" "sameAssembly ch ch1"
      "chans (consumers ch1) ?t = Some i" "ensureConsumer ?t (outputs ch) = Inr (outputs ch1)"
    by blast
  have inv: "consumers_inv (consumers ch1)" "\<not> closed (consumers ch1)"
    using ch1(2) by (simp_all add: goroutines_ok_def)
  obtain cs where cs: "sendTo ?t ?d (consumers ch1) = Found True cs"
    "length (buffers cs) = length (buffers (consumers ch1))"
    using sendTo_accepted [OF inv ch1(4)] by simp
  have "goroutines_ok (ch1\<lparr> consumers := cs \<rparr>)"
    using ch1(2) sendTo_inv [OF inv(1) cs(1)] cs(2) by (simp add: goroutines_ok_def)
  moreover have "sameAssembly ch (ch1\<lparr> consumers := cs \<rparr>)"
    using ch1(3) by (simp add: sameAssembly_def)
  ultimately show ?thesis
    using ch1 cs by (simp add: dispatchDeliver_def outputs_updates)
qed

lemma dispatchCancel_ok:
  assumes "goroutines_ok ch"
  shows "\<exists>ch'. dispatch (BasicMsg (BasicCancel m)) ch = Inr ch' \<and> goroutines_ok ch' \<and>
           sameAssembly ch ch' \<and> dispatch (BasicMsg (BasicCancel m)) (outputs ch) = Inr (outputs ch')"
proof -
  from assms have "consumers_inv (consumers ch)" by (simp add: goroutines_ok_def)
  from cancel_inv [OF this, of "basicCancel_ConsumerTag m"] obtain b cs where
    cs: "cancel (basicCancel_ConsumerTag m) (consumers ch) = Inr (b, cs)" "consumers_inv cs"
      "closed cs = closed (consumers ch)" by blast
  have "length (buffers cs) = length (buffers (consumers ch))"
    using cs(1) by (auto simp: cancel_def closeIn_def split: option.splits if_splits)
  then show ?thesis
    using assms cs by (simp add: goroutines_ok_def sameAssembly_def outputs_updates)
qed

text \<open>\<open>dispatch\<close> returns, keeps the goroutines in order, and neither uses nor changes the reassembly state.\<close>

lemma dispatch_ok:
  assumes "goroutines_ok ch" "comesBack ch m"
  shows "\<exists>ch'. dispatch m ch = Inr ch' \<and> goroutines_ok ch' \<and> sameAssembly ch ch' \<and>
           dispatch m (outputs ch) = Inr (outputs ch')"
proof -
  have conf: "\<exists>ch'. dispatchConfirm tag mult ack ch = Inr ch' \<and> goroutines_ok ch' \<and> sameAssembly ch ch' \<and>
      dispatchConfirm tag mult ack (outputs ch) = Inr (outputs ch')"
    if "confirming ch \<longrightarrow> mult \<longrightarrow> tag \<noteq> - 1" for tag mult ack
    using dispatchConfirm_returns [OF that, of ack] assms(1) by (auto simp: outputs_updates)
  have default: "\<exists>ch'. Inr (dispatchDefault msg ch) = Inr ch' \<and> goroutines_ok ch' \<and> sameAssembly ch ch' \<and>
      Inr (dispatchDefault msg (outputs ch)) = Inr (outputs ch')" for msg
    using assms(1) by (auto simp: dispatchDefault_def outputs_updates split: option.split)
  show ?thesis
    using assms conf default dispatchDeliver_ok [OF assms(1)] dispatchCancel_ok [OF assms(1)]
    by (cases "(m, ch)" rule: dispatch.cases) (simp_all add: closeChannel_def outputs_updates comesBack_def)
qed

section \<open>The state machine implements the specification\<close>

definition assemblyOf :: "channel \<Rightarrow> assembly" where
  "assemblyOf ch =
     (case recv ch of
        RecvMethod \<Rightarrow> WantMethod
      | RecvHeader \<Rightarrow> WantHeader (the (message ch))
      | RecvContent \<Rightarrow> WantBody (the (message ch)) (the (header ch)) (body ch))"

definition channel_inv :: "channel \<Rightarrow> bool" where
  "channel_inv ch \<longleftrightarrow>
     goroutines_ok ch \<and>
     (recv ch = RecvHeader \<longrightarrow> (\<exists>m. message ch = Some m \<and> hasContent m) \<and> body ch = [] \<and> bodyCap ch = 0) \<and>
     (recv ch = RecvContent \<longrightarrow> (\<exists>m. message ch = Some m \<and> hasContent m) \<and>
        (\<exists>h. header ch = Some h \<and> hf_Size h \<noteq> 0 \<and> (maxAlloc < unat (hf_Size h) \<longrightarrow> bodyCap ch = 0)) \<and>
        (bodyCap ch = 0 \<longrightarrow> body ch = []))"

lemma channel_inv_new [simp]: "channel_inv (newChannel c s n)"
  by (simp add: channel_inv_def newChannel_def goroutines_ok_def makeConsumers_def consumers_inv_def)

lemma newChannel_idle [simp]: "\<not> confirming (newChannel c s n)" "outputs (newChannel c s n) = newChannel c s n"
  by (simp_all add: newChannel_def outputs_def)

lemma assemblyOf_new [simp]: "assemblyOf (newChannel c s n) = WantMethod"
  by (simp add: assemblyOf_def newChannel_def)

text \<open>
  \<open>implements ch f r\<close>: the result \<open>r\<close> of receiving \<open>f\<close> is the next state of the specification, and
  besides the state changes exactly as by dispatching the message that the specification completes.
\<close>

definition implements :: "channel \<Rightarrow> frame \<Rightarrow> go_error + channel \<Rightarrow> bool" where
  "implements ch f r \<longleftrightarrow>
     (\<exists>ch'. r = Inr ch' \<and> channel_inv ch' \<and> confirming ch' = confirming ch \<and>
        assemblyOf ch' = snd (assemble (assemblyOf ch) f) \<and>
        dispatchOption (fst (assemble (assemblyOf ch) f)) (outputs ch) = Inr (outputs ch'))"

lemma implementsI:
  assumes "r = Inr ch'" "channel_inv ch'" "confirming ch' = confirming ch" "assemble (assemblyOf ch) f = (m, assemblyOf ch')"
    and "dispatchOption m (outputs ch) = Inr (outputs ch')"
  shows "implements ch f r"
  using assms by (auto simp: implements_def)

lemma dispatch_then_wait:
  assumes "goroutines_ok ch" "comesBack ch0 m" "outputs ch = outputs ch0"
    and "assemble (assemblyOf ch0) f = (Some m, WantMethod)"
  shows "implements ch0 f (map_sum id (transition RecvMethod) (dispatch m ch))"
proof -
  have conf: "confirming ch = confirming ch0" using assms(3) by (rule outputs_confirming)
  then have "comesBack ch m" using assms(2) by (simp add: comesBack_def)
  from dispatch_ok [OF assms(1) this] obtain ch' where ch': "dispatch m ch = Inr ch'" "goroutines_ok ch'"
    "dispatch m (outputs ch) = Inr (outputs ch')" "confirming ch' = confirming ch"
    by (auto simp: sameAssembly_def)
  show ?thesis
    by (rule implementsI [where ch' = "transition RecvMethod ch'" and m = "Some m"])
      (use ch' conf assms in \<open>simp_all add: transition_def channel_inv_def assemblyOf_def dispatchOption_def\<close>)
qed

lemma drop_then_wait:
  assumes "channel_inv ch" "assemble (assemblyOf ch) f = (None, WantMethod)"
  shows "implements ch f (Inr (transition RecvMethod ch))"
  by (rule implementsI [where ch' = "transition RecvMethod ch" and m = None])
    (use assms in \<open>simp_all add: transition_def channel_inv_def assemblyOf_def dispatchOption_def\<close>)

lemma recvMethod_implements:
  assumes "channel_inv ch" "\<And>m. fst (assemble (assemblyOf ch) (MethodFrame f)) = Some m \<Longrightarrow> comesBack ch m"
  shows "implements ch (MethodFrame f) (recvMethod (MethodFrame f) ch)"
proof (cases "mf_Method f")
  case None
  then show ?thesis
    using drop_then_wait [OF assms(1), of "MethodFrame f"]
    by (simp add: dispatchOption_def)
next
  case (Some m)
  show ?thesis
  proof (cases "hasContent m")
    case True
    show ?thesis
      by (rule implementsI [where m = None and
            ch' = "transition RecvHeader (ch\<lparr> body := [], bodyCap := 0, message := Some m \<rparr>)"])
        (use Some True assms(1) in
          \<open>simp_all add: transition_def channel_inv_def assemblyOf_def dispatchOption_def\<close>)
  next
    case False
    have "goroutines_ok ch" using assms(1) by (simp add: channel_inv_def)
    then show ?thesis
      using Some False assms(2) dispatch_then_wait [of ch ch m "MethodFrame f"] by simp
  qed
qed

lemma returning_setContent [simp]: "hasContent m \<Longrightarrow> comesBack ch (setContent p b m)"
  by (cases m rule: hasContent.cases) (simp_all add: comesBack_def)

lemma finish_implements:
  assumes "goroutines_ok ch" "message ch = Some m" "header ch = Some h" "hasContent m"
    and "outputs ch = outputs ch0"
    and "assemble (assemblyOf ch0) f = (Some (setContent (hf_Properties h) (body ch) m), WantMethod)"
  shows "implements ch0 f (finish ch)"
  using assms dispatch_then_wait
      [of "ch\<lparr> message := Some (setContent (hf_Properties h) (body ch) m) \<rparr>"
        ch0 "setContent (hf_Properties h) (body ch) m" f]
  by (simp add: finish_def Let_def)

lemma recvHeader_implements:
  assumes "channel_inv ch" "recv ch = RecvHeader"
  shows "implements ch (HeaderFrame h) (recvHeader (HeaderFrame h) ch)"
proof -
  from assms(1,2) obtain m where m: "message ch = Some m" "hasContent m" "body ch = []" "bodyCap ch = 0"
    "goroutines_ok ch" by (auto simp: channel_inv_def)
  have a: "assemblyOf ch = WantHeader m" using assms(2) m by (simp add: assemblyOf_def)
  show ?thesis
  proof (cases "hf_Size h = 0")
    case True
    then show ?thesis
      using m a finish_implements [of "ch\<lparr> header := Some h \<rparr>" m h ch "HeaderFrame h"]
      by (simp add: Let_def)
  next
    case False
    show ?thesis
      by (rule implementsI [where m = None and ch' = "transition RecvContent (ch\<lparr> header := Some h \<rparr>)"])
        (use False m a assms in
          \<open>simp_all add: Let_def transition_def channel_inv_def assemblyOf_def dispatchOption_def\<close>)
  qed
qed

lemma recvContent_implements:
  assumes "channel_inv ch" "recv ch = RecvContent"
    and "\<not> refuses (assemblyOf ch) (BodyFrame b)"
  shows "implements ch (BodyFrame b) (recvContent (BodyFrame b) ch)"
proof -
  from assms(1,2) obtain m h where m: "message ch = Some m" "hasContent m" "header ch = Some h"
    "hf_Size h \<noteq> 0" "bodyCap ch = 0 \<longrightarrow> body ch = []" "goroutines_ok ch"
    by (auto simp: channel_inv_def)
  have size: "unat (hf_Size h) \<le> maxAlloc" using assms(2,3) m by (simp add: assemblyOf_def)
  have a: "assemblyOf ch = WantBody m h (body ch)" using assms(2) m by (simp add: assemblyOf_def)
  let ?n = "if bodyCap ch = 0 then unat (hf_Size h) else bodyCap ch"
  let ?ch = "ch\<lparr> body := body ch @ bf_Body b, bodyCap := max ?n (length (body ch @ bf_Body b)) \<rparr>"
  have mk: "recvContent (BodyFrame b) ch =
      (if of_nat (length (body ch @ bf_Body b)) \<ge> hf_Size h then finish ?ch
       else Inr (transition RecvContent ?ch))"
    using m size by (simp add: makeBody_def appendBody_def Let_def)
  have n: "?n \<noteq> 0" using m(4) by (simp add: unat_gt_0)
  show ?thesis
  proof (cases "of_nat (length (body ch @ bf_Body b)) \<ge> hf_Size h")
    case True
    then show ?thesis
      unfolding mk using m a finish_implements [of ?ch m h ch "BodyFrame b"] by simp
  next
    case False
    have "channel_inv (transition RecvContent ?ch)"
      using m n size by (simp add: channel_inv_def transition_def max_def)
    moreover have "recvContent (BodyFrame b) ch = Inr (transition RecvContent ?ch)"
      unfolding mk using False by simp
    ultimately show ?thesis
      using False m a
      by (intro implementsI [where m = None and ch' = "transition RecvContent ?ch"])
        (simp_all add: transition_def assemblyOf_def dispatchOption_def)
  qed
qed

lemma recvFrame_implements:
  assumes "channel_inv ch" "\<not> refuses (assemblyOf ch) f"
    and "\<And>m. fst (assemble (assemblyOf ch) f) = Some m \<Longrightarrow> comesBack ch m"
  shows "implements ch f (recvFrame f ch)"
proof (cases f)
  case (MethodFrame mf)
  then have "recvFrame f ch = recvMethod (MethodFrame mf) ch"
    by (simp add: recvFrame_def split: recv_state.split)
  then show ?thesis using recvMethod_implements [OF assms(1)] assms(3) MethodFrame by simp
next
  case (HeaderFrame h)
  show ?thesis
  proof (cases "recv ch = RecvHeader")
    case True
    then show ?thesis
      using recvHeader_implements [OF assms(1)] HeaderFrame by (simp add: recvFrame_def)
  next
    case False
    then show ?thesis
      using drop_then_wait [OF assms(1), of f] HeaderFrame
      by (cases "recv ch") (simp_all add: recvFrame_def assemblyOf_def)
  qed
next
  case (BodyFrame b)
  show ?thesis
  proof (cases "recv ch = RecvContent")
    case True
    then show ?thesis
      using recvContent_implements [OF assms(1)] assms(2) BodyFrame by (simp add: recvFrame_def)
  next
    case False
    then show ?thesis
      using drop_then_wait [OF assms(1), of f] BodyFrame
      by (cases "recv ch") (simp_all add: recvFrame_def assemblyOf_def)
  qed
qed (use assms(2) in simp_all)

text \<open>What the specification refuses makes the state machine panic.\<close>

lemma recvFrame_refused:
  assumes "channel_inv ch" "refuses (assemblyOf ch) f"
  shows "recvFrame f ch = Inl Panic"
  using assms
  by (cases "(assemblyOf ch, f)" rule: refuses.cases)
    (auto simp: recvFrame_def assemblyOf_def channel_inv_def makeBody_def split: recv_state.splits)

text \<open>The same for a sequence of frames.\<close>

fun dispatchAll :: "message list \<Rightarrow> channel \<Rightarrow> go_error + channel" where
  "dispatchAll [] ch = Inr ch"
| "dispatchAll (m # ms) ch = (case dispatch m ch of Inl e \<Rightarrow> Inl e | Inr ch' \<Rightarrow> dispatchAll ms ch')"

lemma assembleMethod_not_body [simp]: "snd (assembleMethod x) \<noteq> WantBody m h bs"
  by (cases x) simp_all

lemma acceptable_channelFrames:
  assumes "list_all channelFrame fs" "\<And>m h bs. a = WantBody m h bs \<Longrightarrow> unat (hf_Size h) \<le> maxAlloc"
  shows "acceptable a fs"
  using assms
proof (induction fs arbitrary: a)
  case (Cons f fs)
  have "\<not> refuses a f"
    using Cons.prems by (cases "(a, f)" rule: refuses.cases) fastforce+
  moreover have "unat (hf_Size h) \<le> maxAlloc" if "snd (assemble a f) = WantBody m h bs" for m h bs
    using that Cons.prems
    by (cases "(a, f)" rule: assemble.cases) (auto split: if_splits)
  ultimately show ?case using Cons by simp
qed simp

text \<open>
  \<open>assembled ch fs ch'\<close>: between \<open>ch\<close> and \<open>ch'\<close> the reassembly state has changed as the specification
  says, and everything else as by dispatching the messages it completes.
\<close>

definition assembled :: "channel \<Rightarrow> frame list \<Rightarrow> channel \<Rightarrow> bool" where
  "assembled ch fs ch' \<longleftrightarrow> channel_inv ch' \<and> confirming ch' = confirming ch \<and>
     assemblyOf ch' = snd (assembleAll (assemblyOf ch) fs) \<and>
     dispatchAll (fst (assembleAll (assemblyOf ch) fs)) (outputs ch) = Inr (outputs ch')"

lemma recvFrames_implements:
  assumes "channel_inv ch" "list_all (comesBack ch) (fst (assembleAll (assemblyOf ch) fs))"
  shows "if acceptable (assemblyOf ch) fs then \<exists>ch'. recvFrames fs ch = Inr ch' \<and> assembled ch fs ch'
    else recvFrames fs ch = Inl Panic"
  using assms
proof (induction fs arbitrary: ch)
  case Nil
  then show ?case by (simp add: assembled_def)
next
  case (Cons f fs)
  obtain m a1 where a1: "assemble (assemblyOf ch) f = (m, a1)" by fastforce
  obtain ms a2 where a2: "assembleAll a1 fs = (ms, a2)" by fastforce
  show ?case
  proof (cases "refuses (assemblyOf ch) f")
    case True
    then show ?thesis using recvFrame_refused [OF Cons.prems(1)] by simp
  next
    case False
    have "implements ch f (recvFrame f ch)"
      using Cons.prems False a1 a2 by (intro recvFrame_implements) simp_all
    then obtain ch1 where ch1: "recvFrame f ch = Inr ch1" "channel_inv ch1" "assemblyOf ch1 = a1"
      "dispatchOption m (outputs ch) = Inr (outputs ch1)" "confirming ch1 = confirming ch"
      using a1 by (auto simp: implements_def)
    have "list_all (comesBack ch1) ms"
      using Cons.prems(2) a1 a2 ch1(5) by (cases m) (auto simp: comesBack_def list_all_iff)
    then have "if acceptable a1 fs then \<exists>ch'. recvFrames fs ch1 = Inr ch' \<and> assembled ch1 fs ch'
        else recvFrames fs ch1 = Inl Panic"
      using Cons.IH [OF ch1(2)] a2 ch1(3) by simp
    moreover have "assembled ch (f # fs) ch2" if "assembled ch1 fs ch2" for ch2
      using that a1 a2 ch1 by (cases m) (auto simp: assembled_def dispatchOption_def)
    ultimately show ?thesis using a1 ch1 False by (auto split: if_splits)
  qed
qed

lemma recvFrames_accepted:
  assumes "channel_inv ch" "\<not> confirming ch" "acceptable (assemblyOf ch) fs"
  obtains ch' where "recvFrames fs ch = Inr ch'" "assembled ch fs ch'"
  using recvFrames_implements [OF assms(1), of fs] assms(2,3) by (auto simp: list_all_iff)

lemma recvFrames_refused:
  assumes "channel_inv ch" "\<not> confirming ch" "\<not> acceptable (assemblyOf ch) fs"
  shows "recvFrames fs ch = Inl Panic"
  using recvFrames_implements [OF assms(1), of fs] assms(2,3) by (auto simp: list_all_iff)

lemma recvFrames_result:
  assumes "channel_inv ch" "\<not> confirming ch" "recvFrames fs ch = Inr ch'"
  shows "acceptable (assemblyOf ch) fs" "assembled ch fs ch'"
  using recvFrames_implements [OF assms(1), of fs] assms(2,3) by (auto simp: list_all_iff split: if_splits)

section \<open>Content is put together\<close>

text \<open>The frames of a message with content: the method, a header with the size, the body in pieces.\<close>

definition contentFrames :: "u16 \<Rightarrow> message \<Rightarrow> headerFrame \<Rightarrow> bytes list \<Rightarrow> frame list" where
  "contentFrames n m h pieces =
     MethodFrame \<lparr> mf_ChannelId = n, mf_ClassId = fst (message_id m), mf_MethodId = snd (message_id m),
                   mf_Method = Some m \<rparr> #
     HeaderFrame h #
     map (\<lambda>p. BodyFrame \<lparr> bf_ChannelId = n, bf_Body = p \<rparr>) pieces"

lemma assembleAll_append:
  "assembleAll a (fs @ gs) =
     (let (ms, b) = assembleAll a fs; (ns, c) = assembleAll b gs in (ms @ ns, c))"
  by (induction fs arbitrary: a) (auto split: prod.split)

lemma acceptable_content:
  assumes "pieces \<noteq> [] \<Longrightarrow> unat (hf_Size h) \<le> maxAlloc"
  shows "acceptable a (contentFrames n m h pieces)"
proof (cases "pieces = []")
  case True
  then show ?thesis by (simp add: contentFrames_def)
next
  case False
  have "acceptable (WantMethod) (contentFrames n m h pieces)"
    using assms [OF False] by (intro acceptable_channelFrames) (auto simp: contentFrames_def list_all_iff)
  then show ?thesis by (simp add: contentFrames_def)
qed

lemma u64_size_le: "n \<le> k \<Longrightarrow> k < 2 ^ 64 \<Longrightarrow> (of_nat k :: u64) \<le> of_nat n \<longleftrightarrow> n = k"
  by (auto simp: word_le_nat_alt unat_of_nat_u64)

text \<open>Every piece but the last leaves something to come: \<open>pieces\<close> has no empty tail.\<close>

lemma assemble_pieces:
  assumes "length (bs @ concat pieces) = k" "k < 2 ^ 64" "hf_Size h = of_nat k"
    and "pieces \<noteq> []" "last pieces \<noteq> []"
  shows "assembleAll (WantBody m h bs) (map (\<lambda>p. BodyFrame \<lparr> bf_ChannelId = n, bf_Body = p \<rparr>) pieces) =
           ([setContent (hf_Properties h) (bs @ concat pieces) m], WantMethod)"
  using assms
proof (induction pieces arbitrary: bs)
  case (Cons p pieces)
  show ?case
  proof (cases "pieces = []")
    case True
    then show ?thesis using Cons.prems by auto
  next
    case False
    then have "concat pieces \<noteq> []" using Cons.prems(5) by (auto simp: dest: last_in_set)
    then have "length (bs @ p) < k" using Cons.prems(1) by auto
    then have "\<not> hf_Size h \<le> of_nat (length (bs @ p))"
      using u64_size_le [of "length (bs @ p)" k] Cons.prems(2,3) by simp
    moreover have "assembleAll (WantBody m h (bs @ p))
        (map (\<lambda>p. BodyFrame \<lparr> bf_ChannelId = n, bf_Body = p \<rparr>) pieces) =
        ([setContent (hf_Properties h) ((bs @ p) @ concat pieces) m], WantMethod)"
      using Cons.prems False by (intro Cons.IH) auto
    ultimately show ?thesis by simp
  qed
qed simp

lemma assemble_content:
  assumes "hasContent m" "hf_Size h = of_nat (length (concat pieces))" "length (concat pieces) < 2 ^ 64"
    and "pieces \<noteq> [] \<longrightarrow> last pieces \<noteq> []"
  shows "assembleAll a (contentFrames n m h pieces) =
           ([setContent (hf_Properties h) (concat pieces) m], WantMethod)"
proof (cases "pieces = []")
  case True
  then show ?thesis using assms by (simp add: contentFrames_def)
next
  case False
  then have "concat pieces \<noteq> []" using assms(4) by (auto dest: last_in_set)
  then have "hf_Size h \<noteq> 0"
    using assms(2,3) by (metis unat_of_nat_u64 length_0_conv unat_0)
  then show ?thesis
    using False assms assemble_pieces [of "[]" pieces _ h m n] by (simp add: contentFrames_def)
qed

section \<open>Sizes that cannot be allocated\<close>

text \<open>
  A content header may announce a size that cannot be allocated: the first body frame then panics,
  whatever it holds.
\<close>

lemma huge_size_panics:
  assumes "recv ch = RecvHeader" "unat (hf_Size h) > maxAlloc" "bodyCap ch = 0"
  shows "recvFrames [HeaderFrame h, BodyFrame b] ch = Inl Panic"
proof -
  have "hf_Size h \<noteq> 0" using assms(2) by auto
  then show ?thesis
    using assms by (simp add: recvFrame_def Let_def transition_def makeBody_def)
qed

end
