(* ===== verification/Pipeline.thy ===== *)
theory Pipeline
  imports Channel
begin

text \<open>
  The way of a delivery from \<open>Channel.dispatch\<close> to the application: the \<open>buffer\<close> goroutine of its
  consumer, then the goroutine started in \<open>dispatch\<close>, then the Go channel \<open>chMsg\<close>.  Frames and the
  steps of all these goroutines interleave in any order.
\<close>

section \<open>Steps\<close>

definition setBuffer :: "nat \<Rightarrow> channelRef delivery buffer \<Rightarrow> channel \<Rightarrow> channel" where
  "setBuffer i b ch =
     ch\<lparr> consumers := (consumers ch)\<lparr> buffers := (buffers (consumers ch))[i := b] \<rparr> \<rparr>"

text \<open>
  \<open>channel_step ch w ch'\<close>: one step of one of the goroutines, \<open>w\<close> being what it sends into \<open>chMsg\<close>.
  The channel between buffer and forwarder is unbuffered, so the buffer sends when the forwarder is
  back at \<open>range deliveries\<close>.
\<close>

inductive channel_step :: "channel \<Rightarrow> wrappedMessage option \<Rightarrow> channel \<Rightarrow> bool" where
  internal: "i < length (buffers (consumers ch)) \<Longrightarrow>
    buffer_step (closed (consumers ch)) (buffers (consumers ch) ! i) Internal b \<Longrightarrow>
    channel_step ch None (setBuffer i b ch)"
| hand_over: "i < length (buffers (consumers ch)) \<Longrightarrow> forwarders ch ! i = None \<Longrightarrow>
    buffer_step (closed (consumers ch)) (buffers (consumers ch) ! i) (Sent d) b \<Longrightarrow>
    channel_step ch None (setBuffer i b ch\<lparr> forwarders := (forwarders ch)[i := Some d] \<rparr>)"
| forward: "i < length (forwarders ch) \<Longrightarrow> forwarders ch ! i = Some d \<Longrightarrow>
    forwardDelivery d = Inr w \<Longrightarrow>
    channel_step ch w (ch\<lparr> forwarders := (forwarders ch)[i := None] \<rparr>)"

text \<open>A run: the frames received and the messages sent to the application, in order.\<close>

inductive channel_run :: "channel \<Rightarrow> frame list \<Rightarrow> wrappedMessage list \<Rightarrow> channel \<Rightarrow> bool" where
  channel_run_nil: "channel_run ch [] [] ch"
| channel_run_frame: "recvFrame f ch = Inr ch1 \<Longrightarrow> channel_run ch1 fs ws ch2 \<Longrightarrow>
    channel_run ch (f # fs) ws ch2"
| channel_run_go: "channel_step ch w ch1 \<Longrightarrow> channel_run ch1 fs ws ch2 \<Longrightarrow>
    channel_run ch fs (case_option [] (\<lambda>x. [x]) w @ ws) ch2"

section \<open>Deliveries in transit\<close>

definition pending :: "nat \<Rightarrow> channel \<Rightarrow> channelRef delivery list" where
  "pending i ch = case_option [] (\<lambda>d. [d]) (forwarders ch ! i) @ queue (buffers (consumers ch) ! i)"

definition inTransit :: "gostring \<Rightarrow> channel \<Rightarrow> channelRef delivery list" where
  "inTransit t ch = (case chans (consumers ch) t of None \<Rightarrow> [] | Some i \<Rightarrow> pending i ch)"

fun deliveredTo :: "gostring \<Rightarrow> message \<Rightarrow> bool" where
  "deliveredTo t (BasicMsg (BasicDeliver m)) = (basicDeliver_ConsumerTag m = t)"
| "deliveredTo t m = False"

fun cancels_tag :: "gostring \<Rightarrow> message \<Rightarrow> bool" where
  "cancels_tag t (BasicMsg (BasicCancel m)) = (basicCancel_ConsumerTag m = t)"
| "cancels_tag t m = False"

definition deliveriesFor :: "gostring \<Rightarrow> channelRef \<Rightarrow> message list \<Rightarrow> channelRef delivery list" where
  "deliveriesFor t r ms = map (newDelivery r) (filter (deliveredTo t) ms)"

text \<open>What the forwarder makes of a delivery on a channel of the connection \<open>info\<close>.\<close>

definition wrap :: "connectionInfo \<Rightarrow> u16 \<Rightarrow> channelRef delivery \<Rightarrow> wrappedMessage" where
  "wrap info n d = \<lparr> wm_ConnectionInfo = info, wm_ChannelID = n,
     wm_ConsumerTag = dl_ConsumerTag d, wm_Body = dl_Body d \<rparr>"

definition sentTo :: "gostring \<Rightarrow> wrappedMessage list \<Rightarrow> wrappedMessage list" where
  "sentTo t ws = filter (\<lambda>w. wm_ConsumerTag w = t) ws"

text \<open>Deliveries know their channel, and those of the consumer \<open>t\<close> are in no other buffer than its own.\<close>

definition transit_inv :: "gostring \<Rightarrow> channel \<Rightarrow> bool" where
  "transit_inv t ch \<longleftrightarrow>
     (\<forall>i < length (buffers (consumers ch)). \<forall>d \<in> set (pending i ch).
        dl_Acknowledger d = Some (refOf ch) \<and>
        (dl_ConsumerTag d = t \<longleftrightarrow> chans (consumers ch) t = Some i))"

lemma transit_invD:
  assumes "transit_inv t ch" "i < length (buffers (consumers ch))" "d \<in> set (pending i ch)"
  shows "dl_Acknowledger d = Some (refOf ch)" "dl_ConsumerTag d = t \<longleftrightarrow> chans (consumers ch) t = Some i"
  using assms by (auto simp: transit_inv_def)

lemma transit_outputs [simp]:
  "pending i (outputs ch) = pending i ch" "inTransit t (outputs ch) = inTransit t ch"
  "transit_inv t (outputs ch) = transit_inv t ch"
  by (simp_all add: pending_def inTransit_def transit_inv_def cong: option.case_cong)

lemma transit_inv_new [simp]: "transit_inv t (newChannel c s n)"
  by (simp add: transit_inv_def newChannel_def makeConsumers_def)

lemma inTransit_new [simp]: "inTransit t (newChannel c s n) = []"
  by (simp add: inTransit_def newChannel_def makeConsumers_def)

text \<open>Dispatching a message adds its delivery at the end of its consumer's transit, and nothing else.\<close>

definition transits :: "gostring \<Rightarrow> message \<Rightarrow> channel \<Rightarrow> channel \<Rightarrow> bool" where
  "transits t m ch ch' \<longleftrightarrow> transit_inv t ch' \<and> refOf ch' = refOf ch \<and>
     inTransit t ch' = inTransit t ch @ deliveriesFor t (refOf ch) [m]"

lemma transits_idle:
  assumes "transit_inv t ch" "\<not> deliveredTo t m" "consumers ch' = consumers ch" "forwarders ch' = forwarders ch"
    "refOf ch' = refOf ch"
  shows "transits t m ch ch'"
proof -
  have "pending i ch' = pending i ch" for i using assms(3,4) by (simp add: pending_def)
  then show ?thesis
    using assms
    by (simp add: transits_def transit_inv_def inTransit_def deliveriesFor_def split: option.split)
qed

lemma transit_ensureConsumer:
  assumes "goroutines_ok ch" "transit_inv t ch" "ensureConsumer s ch = Inr ch'"
  shows "transit_inv t ch' \<and> inTransit t ch' = inTransit t ch \<and> refOf ch' = refOf ch"
proof (cases "chans (consumers ch) s")
  case None
  let ?n = "length (buffers (consumers ch))"
  have inv: "consumers_inv (consumers ch)" "length (forwarders ch) = ?n"
    using assms(1) by (simp_all add: goroutines_ok_def)
  have ch': "ch' = ch\<lparr> consumers := startBuffer s (consumers ch), forwarders := forwarders ch @ [None] \<rparr>"
    using None assms(3) by (simp add: ensureConsumer_def add_def)
  have ref: "refOf ch' = refOf ch" by (simp add: ch' refOf_def)
  have old: "pending i ch' = pending i ch" if "i < ?n" for i
    using that inv(2) by (simp add: ch' pending_def startBuffer_def nth_append)
  have new: "pending ?n ch' = []"
    using inv(2) by (simp add: ch' pending_def startBuffer_def nth_append newBuffer_def)
  have chans: "chans (consumers ch') t = (if s = t then Some ?n else chans (consumers ch) t)"
    by (simp add: ch' startBuffer_def)
  have len: "length (buffers (consumers ch')) = Suc ?n" by (simp add: ch' startBuffer_def)
  have "dl_Acknowledger d = Some (refOf ch') \<and> (dl_ConsumerTag d = t \<longleftrightarrow> chans (consumers ch') t = Some i)"
    if i: "i < Suc ?n" and d: "d \<in> set (pending i ch')" for i d
  proof -
    have i': "i < ?n" using i d new by (cases "i = ?n") auto
    show ?thesis
      using transit_invD [OF assms(2) i'] d old [OF i'] ref None i' by (auto simp: chans)
  qed
  then have "transit_inv t ch'" using len by (simp add: transit_inv_def)
  moreover have "inTransit t ch' = inTransit t ch"
    using old new consumers_invD(1) [OF inv(1)] None chans
    by (auto simp: inTransit_def split: option.split)
  ultimately show ?thesis using ref by simp
next
  case (Some i)
  then show ?thesis using assms by (simp add: ensureConsumer_def)
qed

lemma transit_deliver:
  assumes "goroutines_ok ch" "transit_inv t ch" "dispatchDeliver m ch = Inr ch'"
  shows "transits t (BasicMsg (BasicDeliver m)) ch ch'"
proof -
  let ?s = "basicDeliver_ConsumerTag m" and ?d = "newDelivery (refOf ch) (BasicMsg (BasicDeliver m))"
  from ensureConsumer_ok [OF assms(1), of ?s] obtain ch1 i where
    ch1: "ensureConsumer ?s ch = Inr ch1" "goroutines_ok ch1" "chans (consumers ch1) ?s = Some i"
    by blast
  note t1 = transit_ensureConsumer [OF assms(1,2) ch1(1)]
  have inv: "consumers_inv (consumers ch1)" "\<not> closed (consumers ch1)"
    using ch1(2) by (simp_all add: goroutines_ok_def)
  note i = consumers_invD [OF inv(1) ch1(3)]
  have ch': "ch' = setBuffer i (enqueue ?d (buffers (consumers ch1) ! i)) ch1"
    using assms(3) ch1 sendTo_accepted [OF inv ch1(3)] by (simp add: dispatchDeliver_def setBuffer_def)
  have pend: "pending j ch' = pending j ch1 @ (if j = i then [?d] else [])" for j
    using i(1) by (simp add: ch' pending_def setBuffer_def enqueue_def nth_list_update)
  have same: "refOf ch' = refOf ch1" "chans (consumers ch') = chans (consumers ch1)"
    "length (buffers (consumers ch')) = length (buffers (consumers ch1))"
    by (simp_all add: ch' setBuffer_def refOf_def)
  have tag: "chans (consumers ch1) t = Some i \<longleftrightarrow> t = ?s" using i(4) ch1(3) by blast
  have d: "dl_ConsumerTag ?d = ?s" by (simp add: basicDeliver_getContent_def)
  have "dl_Acknowledger x = Some (refOf ch1) \<and> (dl_ConsumerTag x = t \<longleftrightarrow> chans (consumers ch1) t = Some j)"
    if j: "j < length (buffers (consumers ch1))" and x: "x \<in> set (pending j ch')" for j x
  proof (cases "x \<in> set (pending j ch1)")
    case True
    then show ?thesis using transit_invD [OF conjunct1 [OF t1] j] by simp
  next
    case False
    then have "j = i" "x = ?d" using x by (auto simp: pend split: if_splits)
    then show ?thesis using t1 tag d by (simp only: newDelivery_Acknowledger) auto
  qed
  then have "transit_inv t ch'"
    unfolding transit_inv_def same by blast
  moreover have "inTransit t ch' = inTransit t ch1 @ deliveriesFor t (refOf ch) [BasicMsg (BasicDeliver m)]"
    using tag ch1(3) unfolding inTransit_def same pend
    by (auto simp: deliveriesFor_def split: option.split)
  ultimately show ?thesis using t1 same by (simp add: transits_def)
qed

lemma queue_closeIn: "queue (bs[j := (bs ! j)\<lparr> in_closed := True \<rparr>] ! i) = queue (bs ! i)"
  by (cases "j < length bs"; cases "j = i") (simp_all add: list_update_beyond)

lemma transit_cancel:
  assumes "goroutines_ok ch" "transit_inv t ch" "dispatch (BasicMsg (BasicCancel m)) ch = Inr ch'"
    and "basicCancel_ConsumerTag m \<noteq> t"
  shows "transits t (BasicMsg (BasicCancel m)) ch ch'"
proof -
  let ?s = "basicCancel_ConsumerTag m"
  have "consumers_inv (consumers ch)" using assms(1) by (simp add: goroutines_ok_def)
  from cancel_inv [OF this, of ?s] obtain b cs where
    cs: "cancel ?s (consumers ch) = Inr (b, cs)" "chans cs = (chans (consumers ch))(?s := None)" by blast
  have ch': "consumers ch' = cs" "forwarders ch' = forwarders ch" "refOf ch' = refOf ch"
    using assms(3) cs(1) by (auto simp: refOf_def)
  have len: "length (buffers cs) = length (buffers (consumers ch))"
    using cs(1) by (auto simp: cancel_def closeIn_def split: option.splits if_splits)
  have "queue (buffers cs ! i) = queue (buffers (consumers ch) ! i)"
    if "i < length (buffers (consumers ch))" for i
    using cs(1) that
    by (auto simp: cancel_def closeIn_def queue_closeIn split: option.splits if_splits)
  then have "pending i ch' = pending i ch" if "i < length (buffers (consumers ch))" for i
    using that by (simp add: pending_def ch')
  moreover have "i < length (buffers (consumers ch))" if "chans (consumers ch) t = Some i" for i
    using consumers_invD(1) [OF \<open>consumers_inv (consumers ch)\<close> that] .
  ultimately show ?thesis
    using assms(2,4) len
    by (auto simp: transits_def transit_inv_def inTransit_def ch' cs(2) deliveriesFor_def
        split: option.split)
qed

lemma dispatchConfirm_transit:
  "dispatchConfirm tag mult ack ch = Inr ch' \<Longrightarrow>
     consumers ch' = consumers ch \<and> forwarders ch' = forwarders ch \<and> refOf ch' = refOf ch"
  by (auto simp: dispatchConfirm_def refOf_def split: if_splits option.splits)

lemma dispatchDefault_transit:
  "consumers (dispatchDefault m ch) = consumers ch" "forwarders (dispatchDefault m ch) = forwarders ch"
  "refOf (dispatchDefault m ch) = refOf ch"
  by (simp_all add: dispatchDefault_def refOf_def split: option.split)

lemma dispatch_transit:
  assumes "goroutines_ok ch" "transit_inv t ch" "dispatch m ch = Inr ch'" "\<not> cancels_tag t m"
  shows "transits t m ch ch'"
proof -
  have default: "transits t m ch ch'" if "dispatchDefault msg ch = ch'" "\<not> deliveredTo t m" for msg
    unfolding that(1) [symmetric] using that(2) assms(2) by (intro transits_idle dispatchDefault_transit)
  have confirm: "transits t m ch ch'"
    if "\<not> deliveredTo t m" "dispatchConfirm tag mult ack ch = Inr ch'" for tag mult ack
    using that assms(2) dispatchConfirm_transit [OF that(2)] by (intro transits_idle) simp_all
  have other: "transits t m ch (ch\<lparr> flows := fl \<rparr>)" "transits t m ch (ch\<lparr> returns := rs \<rparr>)" "transits t m ch ch"
    if "\<not> deliveredTo t m" for fl rs
    using that assms(2) by (auto intro!: transits_idle simp: refOf_def)
  show ?thesis
    using assms default confirm other transit_deliver [OF assms(1,2)] transit_cancel [OF assms(1,2)]
    by (cases "(m, ch)" rule: dispatch.cases)
      (auto simp: closeChannel_def simp del: dispatch.simps(3))
qed

section \<open>The goroutines lose nothing\<close>

lemma wrap_eq_newDelivery [simp]:
  "wm_ConsumerTag (wrap info n d) = dl_ConsumerTag d" "wm_Body (wrap info n d) = dl_Body d"
  by (simp_all add: wrap_def)

lemma setBuffer_simps [simp]:
  "refOf (setBuffer i b ch) = refOf ch" "assemblyOf (setBuffer i b ch) = assemblyOf ch"
  "forwarders (setBuffer i b ch) = forwarders ch"
  "chans (consumers (setBuffer i b ch)) = chans (consumers ch)"
  "closed (consumers (setBuffer i b ch)) = closed (consumers ch)"
  "buffers (consumers (setBuffer i b ch)) = (buffers (consumers ch))[i := b]"
  "recv (setBuffer i b ch) = recv ch" "message (setBuffer i b ch) = message ch"
  "header (setBuffer i b ch) = header ch" "body (setBuffer i b ch) = body ch"
  "bodyCap (setBuffer i b ch) = bodyCap ch" "confirming (setBuffer i b ch) = confirming ch"
  by (simp_all add: setBuffer_def refOf_def assemblyOf_def split: recv_state.split)

lemma forwarders_upd_simps [simp]:
  "refOf (ch\<lparr> forwarders := fw \<rparr>) = refOf ch" "assemblyOf (ch\<lparr> forwarders := fw \<rparr>) = assemblyOf ch"
  by (simp_all add: refOf_def assemblyOf_def split: recv_state.split)

lemma goroutines_ok_setBuffer:
  assumes "goroutines_ok ch" "i < length (buffers (consumers ch))"
    and "buffer_step (closed (consumers ch)) (buffers (consumers ch) ! i) ev b"
  shows "goroutines_ok (setBuffer i b ch)"
proof -
  have inv: "consumers_inv (consumers ch)" using assms(1) by (simp add: goroutines_ok_def)
  then have "buffer_inv (closed (consumers ch)) (buffers (consumers ch) ! i)"
    using assms(2) by (simp add: consumers_inv_def list_all_length)
  then have "buffer_inv (closed (consumers ch)) b" by (rule buffer_inv_step [OF assms(3)])
  with inv assms(2) buffer_step_in_closed [OF assms(3)]
  have "consumers_inv ((consumers ch)\<lparr> buffers := (buffers (consumers ch))[i := b] \<rparr>)"
    by (intro consumers_inv_update)
  then show ?thesis using assms(1) by (simp add: goroutines_ok_def setBuffer_def)
qed

text \<open>
  What a step does: it keeps the invariant, leaves what the frames determine alone, and at most one of the
  deliveries under way leaves, from the front of its line; \<open>leaver\<close> says where that is.
\<close>

definition leaves :: "(nat \<times> channelRef delivery) option \<Rightarrow> nat \<Rightarrow> channelRef delivery list" where
  "leaves leaver j = (case leaver of None \<Rightarrow> [] | Some (i, d) \<Rightarrow> if j = i then [d] else [])"

lemma leaves_simps [simp]:
  "leaves None j = []" "leaves (Some (i, d)) j = (if j = i then [d] else [])"
  by (simp_all add: leaves_def)

definition steps_to :: "channel \<Rightarrow> (nat \<times> channelRef delivery) option \<Rightarrow> channel \<Rightarrow> bool" where
  "steps_to ch leaver ch' \<longleftrightarrow>
     channel_inv ch' \<and> assemblyOf ch' = assemblyOf ch \<and> refOf ch' = refOf ch \<and>
     confirming ch' = confirming ch \<and> chans (consumers ch') = chans (consumers ch) \<and>
     length (buffers (consumers ch')) = length (buffers (consumers ch)) \<and>
     (\<forall>j < length (buffers (consumers ch)). pending j ch = leaves leaver j @ pending j ch')"

lemma steps_toD:
  assumes "steps_to ch leaver ch'"
  shows "channel_inv ch'" "assemblyOf ch' = assemblyOf ch" "refOf ch' = refOf ch"
    "confirming ch' = confirming ch" "chans (consumers ch') = chans (consumers ch)"
    "length (buffers (consumers ch')) = length (buffers (consumers ch))"
    "j < length (buffers (consumers ch)) \<Longrightarrow> pending j ch = leaves leaver j @ pending j ch'"
  using assms by (simp_all add: steps_to_def)

lemma step_steps_to:
  assumes "channel_step ch w ch'" "channel_inv ch"
  shows "(w = None \<and> steps_to ch None ch') \<or>
    (\<exists>i d. i < length (buffers (consumers ch)) \<and> d \<in> set (pending i ch) \<and> forwardDelivery d = Inr w \<and>
       steps_to ch (Some (i, d)) ch')"
proof -
  have g: "goroutines_ok ch" using assms(2) by (simp add: channel_inv_def)
  then have cl: "\<not> closed (consumers ch)" "consumers_inv (consumers ch)"
    "length (forwarders ch) = length (buffers (consumers ch))"
    by (simp_all add: goroutines_ok_def)
  from assms(1) show ?thesis
  proof cases
    case (internal i b)
    have "channel_inv (setBuffer i b ch)"
      using assms(2) goroutines_ok_setBuffer [OF g internal(3,4)] by (simp add: channel_inv_def)
    moreover have "queue b = queue (buffers (consumers ch) ! i)"
      using internal(4) cl(1) by (auto elim!: buffer_step_cases simp: returnBuffer_def)
    ultimately have "steps_to ch None (setBuffer i b ch)"
      using internal(3) by (simp add: steps_to_def pending_def nth_list_update)
    then show ?thesis using internal by blast
  next
    case (hand_over i d b)
    let ?ch = "setBuffer i b ch\<lparr> forwarders := (forwarders ch)[i := Some d] \<rparr>"
    have "goroutines_ok ?ch"
      using goroutines_ok_setBuffer [OF g hand_over(3,5)] by (simp add: goroutines_ok_def)
    then have "channel_inv ?ch" using assms(2) by (simp add: channel_inv_def)
    moreover have "queue (buffers (consumers ch) ! i) = d # queue b" using hand_over(5) by auto
    ultimately have "steps_to ch None ?ch"
      using hand_over(3,4) cl by (auto simp: steps_to_def pending_def nth_list_update)
    then show ?thesis using hand_over by blast
  next
    case (forward i d)
    let ?ch = "ch\<lparr> forwarders := (forwarders ch)[i := None] \<rparr>"
    have "channel_inv ?ch" using assms(2) by (simp add: channel_inv_def goroutines_ok_def)
    moreover have "pending j ch = (if j = i then [d] else []) @ pending j ?ch" for j
      using forward(2,3) by (auto simp: pending_def)
    ultimately have "steps_to ch (Some (i, d)) ?ch" by (simp add: steps_to_def)
    moreover have "d \<in> set (pending i ch)" "i < length (buffers (consumers ch))"
      using forward(2,3) cl by (simp_all add: pending_def)
    ultimately show ?thesis using forward by blast
  qed
qed

text \<open>For the consumer \<open>t\<close>: what is sent is what leaves the front of its transit.\<close>

definition moves :: "gostring \<Rightarrow> connectionInfo \<Rightarrow> wrappedMessage option \<Rightarrow> channel \<Rightarrow> channel \<Rightarrow> bool" where
  "moves t info w ch ch' \<longleftrightarrow>
     channel_inv ch' \<and> transit_inv t ch' \<and> assemblyOf ch' = assemblyOf ch \<and> refOf ch' = refOf ch \<and>
     confirming ch' = confirming ch \<and>
     sentTo t (case_option [] (\<lambda>x. [x]) w) @ map (wrap info (ref_id (refOf ch))) (inTransit t ch') =
       map (wrap info (ref_id (refOf ch))) (inTransit t ch)"

lemma forwardDelivery_wrap:
  assumes "forwardDelivery d = Inr w" "dl_Acknowledger d = Some r" "ref_connection r = Some info" "ref_sink r"
  shows "w = Some (wrap info (ref_id r) d)"
  using assms by (simp add: forwardDelivery_def wrap_def)

lemma steps_to_transit_inv:
  assumes "steps_to ch leaver ch'" "transit_inv t ch"
  shows "transit_inv t ch'"
  using steps_toD [OF assms(1)] transit_invD [OF assms(2)] unfolding transit_inv_def by simp

lemma step_moves:
  assumes "channel_step ch w ch'" "channel_inv ch" "transit_inv t ch"
    and "ref_connection (refOf ch) = Some info" "ref_sink (refOf ch)"
  shows "moves t info w ch ch'"
proof -
  have own: "i < length (buffers (consumers ch))" if "chans (consumers ch) t = Some i" for i
    using consumers_invD(1) [OF _ that] assms(2) by (simp add: channel_inv_def goroutines_ok_def)
  from step_steps_to [OF assms(1,2)] consider (stay) "w = None" "steps_to ch None ch'"
    | (leave) i d where "i < length (buffers (consumers ch))" "d \<in> set (pending i ch)"
        "forwardDelivery d = Inr w" "steps_to ch (Some (i, d)) ch'" by blast
  then show ?thesis
  proof cases
    case stay
    note st = steps_toD [OF stay(2)]
    have "inTransit t ch' = inTransit t ch"
      using own st(7) by (simp add: inTransit_def st(5) split: option.split)
    then show ?thesis
      using stay(1) st(1-4) steps_to_transit_inv [OF stay(2) assms(3)] by (simp add: moves_def sentTo_def)
  next
    case leave
    note st = steps_toD [OF leave(4)] and d = transit_invD [OF assms(3) leave(1,2)]
    have w: "w = Some (wrap info (ref_id (refOf ch)) d)"
      by (rule forwardDelivery_wrap [OF leave(3) d(1) assms(4,5)])
    have "sentTo t [wrap info (ref_id (refOf ch)) d] @ map (wrap info (ref_id (refOf ch))) (inTransit t ch') =
        map (wrap info (ref_id (refOf ch))) (inTransit t ch)"
      using d(2) own st(7) by (auto simp: sentTo_def inTransit_def st(5) split: option.split)
    then show ?thesis
      using w st(1-4) steps_to_transit_inv [OF leave(4) assms(3)] by (simp add: moves_def)
  qed
qed

lemma frame_transits:
  assumes "channel_inv ch" "transit_inv t ch" "recvFrame f ch = Inr ch'" "\<not> confirming ch"
    and "assemble (assemblyOf ch) f = (m, a)" "\<And>x. m = Some x \<Longrightarrow> \<not> cancels_tag t x"
  shows "channel_inv ch' \<and> \<not> confirming ch' \<and> assemblyOf ch' = a \<and> transit_inv t ch' \<and> refOf ch' = refOf ch \<and>
    inTransit t ch' = inTransit t ch @ deliveriesFor t (refOf ch) (case_option [] (\<lambda>x. [x]) m)"
proof -
  have "\<not> refuses (assemblyOf ch) f" using recvFrame_refused [OF assms(1)] assms(3) by auto
  then have "implements ch f (recvFrame f ch)"
    using assms by (intro recvFrame_implements) simp_all
  then have ch': "channel_inv ch'" "\<not> confirming ch'" "assemblyOf ch' = a" "dispatchOption m (outputs ch) = Inr (outputs ch')"
    using assms(3-5) by (simp_all add: implements_def)
  have g: "goroutines_ok (outputs ch)"
    using assms(1) by (simp add: channel_inv_def goroutines_ok_def)
  have ref: "refOf (outputs ch) = refOf ch" "refOf (outputs ch') = refOf ch'" by simp_all
  show ?thesis
  proof (cases m)
    case None
    then have "outputs ch' = outputs ch" using ch'(4) by (simp add: dispatchOption_def)
    then have "transit_inv t ch' = transit_inv t ch" "inTransit t ch' = inTransit t ch" "refOf ch' = refOf ch"
      by (metis transit_outputs(3), metis transit_outputs(2), metis ref)
    then show ?thesis using None ch' assms(2) by (simp add: deliveriesFor_def)
  next
    case (Some x)
    have "transits t x (outputs ch) (outputs ch')"
      using g assms(2,6) Some ch'(4) by (intro dispatch_transit) (simp_all add: dispatchOption_def)
    then show ?thesis using ch'(1-3) Some by (simp add: transits_def ref)
  qed
qed

lemma deliveriesFor_append: "deliveriesFor t r (ms @ ns) = deliveriesFor t r ms @ deliveriesFor t r ns"
  by (simp add: deliveriesFor_def)

lemma sentTo_append: "sentTo t (ws @ vs) = sentTo t ws @ sentTo t vs"
  by (simp add: sentTo_def)

text \<open>
  In every interleaving, what the application has received from the consumer \<open>t\<close>, followed by what is in
  transit to it, are the deliveries to \<open>t\<close> in the order of the frames.
\<close>

lemma run_fifo:
  assumes "channel_run ch fs ws ch'" "channel_inv ch" "transit_inv t ch" "\<not> confirming ch"
    and "list_all (\<lambda>m. \<not> cancels_tag t m) (fst (assembleAll (assemblyOf ch) fs))"
    and "ref_connection (refOf ch) = Some info" "ref_sink (refOf ch)"
  shows "channel_inv ch' \<and> transit_inv t ch' \<and> refOf ch' = refOf ch \<and>
    sentTo t ws @ map (wrap info (ref_id (refOf ch))) (inTransit t ch') =
      map (wrap info (ref_id (refOf ch)))
        (inTransit t ch @ deliveriesFor t (refOf ch) (fst (assembleAll (assemblyOf ch) fs)))"
  using assms
proof (induction rule: channel_run.induct)
  case (channel_run_nil ch)
  then show ?case by (simp add: sentTo_def deliveriesFor_def)
next
  case (channel_run_frame f ch ch1 fs ws ch2)
  obtain m a1 where a1: "assemble (assemblyOf ch) f = (m, a1)" by fastforce
  obtain ms a2 where a2: "assembleAll a1 fs = (ms, a2)" by fastforce
  have all: "fst (assembleAll (assemblyOf ch) (f # fs)) = case_option [] (\<lambda>x. [x]) m @ ms"
    using a1 a2 by simp
  have f: "channel_inv ch1 \<and> \<not> confirming ch1 \<and> assemblyOf ch1 = a1 \<and> transit_inv t ch1 \<and> refOf ch1 = refOf ch \<and>
    inTransit t ch1 = inTransit t ch @ deliveriesFor t (refOf ch) (case_option [] (\<lambda>x. [x]) m)"
    by (rule frame_transits [OF _ _ channel_run_frame.hyps(1) _ a1])
      (use channel_run_frame.prems all in auto)
  then show ?case
    using channel_run_frame.IH channel_run_frame.prems a2
    unfolding all by (simp add: deliveriesFor_append)
next
  case (channel_run_go ch w ch1 fs ws ch2)
  have m: "moves t info w ch ch1"
    using step_moves [OF channel_run_go.hyps(1)] channel_run_go.prems by simp
  then have "channel_inv ch2 \<and> transit_inv t ch2 \<and> refOf ch2 = refOf ch \<and>
    sentTo t ws @ map (wrap info (ref_id (refOf ch))) (inTransit t ch2) =
      map (wrap info (ref_id (refOf ch)))
        (inTransit t ch1 @ deliveriesFor t (refOf ch) (fst (assembleAll (assemblyOf ch) fs)))"
    using channel_run_go.IH channel_run_go.prems by (simp add: moves_def)
  then show ?case using m by (simp add: moves_def sentTo_append)
qed

section \<open>The goroutines come to rest\<close>

definition channel_measure :: "channel \<Rightarrow> nat" where
  "channel_measure ch =
     sum_list (map (\<lambda>b. length (queue b) + buffer_measure b) (buffers (consumers ch))) +
     length (filter (\<lambda>f. f \<noteq> None) (forwarders ch))"

text \<open>A step of the goroutines brings deliveries forward, so there is no infinite sequence of them.\<close>

lemma filter_update:
  assumes "i < length xs"
  shows "length (filter P (xs[i := x])) + (if P (xs ! i) then 1 else 0) =
         length (filter P xs) + (if P x then 1 else 0)"
  using assms
proof (induction xs arbitrary: i)
  case (Cons y ys)
  then show ?case by (cases i) auto
qed simp

lemma sum_list_update_add:
  "i < length xs \<Longrightarrow> sum_list (map f (xs[i := x])) + (f (xs ! i) :: nat) = sum_list (map f xs) + f x"
proof (induction xs arbitrary: i)
  case (Cons y ys)
  then show ?case by (cases i) (auto simp: add.assoc)
qed simp

lemma channel_step_decreases:
  assumes "channel_step ch w ch'" "channel_inv ch"
  shows "channel_measure ch' < channel_measure ch"
  using assms(1)
proof cases
  case (internal i b)
  let ?b = "buffers (consumers ch) ! i"
  have "length (queue b) + buffer_measure b < length (queue ?b) + buffer_measure ?b"
    using internal(4) by (auto elim!: buffer_step_cases simp: buffer_measure_def returnBuffer_def)
  then show ?thesis
    using sum_list_update_add [OF internal(3), of "\<lambda>b. length (queue b) + buffer_measure b" b]
    by (simp add: internal channel_measure_def)
next
  case (hand_over i d b)
  let ?b = "buffers (consumers ch) ! i"
  have i: "i < length (forwarders ch)"
    using hand_over(3) assms(2) by (simp add: channel_inv_def goroutines_ok_def)
  have "Suc (Suc (length (queue b) + buffer_measure b)) \<le> length (queue ?b) + buffer_measure ?b"
    using hand_over(5) by (auto simp: buffer_measure_def)
  then show ?thesis
    using sum_list_update_add [OF hand_over(3), of "\<lambda>b. length (queue b) + buffer_measure b" b]
      filter_update [OF i, of "\<lambda>f. f \<noteq> None" "Some d"] hand_over(4)
    by (simp add: hand_over channel_measure_def)
next
  case (forward i d)
  then show ?thesis
    using filter_update [OF forward(2), of "\<lambda>f. f \<noteq> None" None]
    by (simp add: channel_measure_def)
qed

text \<open>When no goroutine can move any more, nothing is in transit.\<close>

lemma channel_stuck_drained:
  assumes "channel_inv ch" "transit_inv t ch" "ref_connection (refOf ch) = Some info"
    and "\<And>w ch'. \<not> channel_step ch w ch'"
  shows "inTransit t ch = []"
proof (cases "chans (consumers ch) t")
  case None
  then show ?thesis by (simp add: inTransit_def)
next
  case (Some i)
  have inv: "consumers_inv (consumers ch)" "length (forwarders ch) = length (buffers (consumers ch))"
    "\<not> closed (consumers ch)"
    using assms(1) by (simp_all add: channel_inv_def goroutines_ok_def)
  note i = consumers_invD [OF inv(1) Some]
  have fw: "forwarders ch ! i = None"
  proof (cases "forwarders ch ! i")
    case (Some d)
    have "dl_Acknowledger d = Some (refOf ch)"
      using transit_invD(1) [OF assms(2) i(1), of d] Some by (simp add: pending_def)
    then obtain w where "forwardDelivery d = Inr w" using assms(3) by (cases "ref_sink (refOf ch)") (auto simp: forwardDelivery_def)
    from channel_step.forward [OF _ Some this] i(1) inv(2) assms(4) show ?thesis by auto
  qed
  have "queue (buffers (consumers ch) ! i) = []"
  proof (cases "queue (buffers (consumers ch) ! i)")
    case (Cons d ds)
    then have "pc (buffers (consumers ch) ! i) = SelectLoop"
      using i(2,3) inv(3) by (cases "pc (buffers (consumers ch) ! i)") (auto simp: buffer_inv_def)
    from channel_step.hand_over [OF i(1) fw select_send [OF this Cons]] assms(4) show ?thesis by blast
  qed
  with fw Some show ?thesis by (simp add: inTransit_def pending_def)
qed

text \<open>Receiving frames is a run in which the goroutines rest.\<close>

lemma recvFrames_run: "recvFrames fs ch = Inr ch' \<Longrightarrow> channel_run ch fs [] ch'"
  by (induction fs arbitrary: ch) (auto intro: channel_run.intros split: sum.splits)

text \<open>
  The goroutines of a channel come to rest: every step of one of them lowers a measure, and when none
  can move, nothing is left on its way to a consumer.
\<close>

lemma goroutines_drain:
  assumes "channel_inv ch"
  shows "(\<forall>w ch'. channel_step ch w ch' \<longrightarrow> channel_measure ch' < channel_measure ch) \<and>
    (transit_inv t ch \<and> connection ch \<noteq> None \<and> (\<forall>w ch'. \<not> channel_step ch w ch') \<longrightarrow> inTransit t ch = [])"
  using channel_step_decreases [OF _ assms] channel_stuck_drained [OF assms, of t]
  by (auto simp: refOf_def)

end
