(* ===== verification/Conservation.thy ===== *)
theory Conservation
  imports Pipeline "HOL-Library.Multiset"
begin

text \<open>
  No delivery is lost or doubled, whatever happens to the consumers: at every moment of every run, what has
  been sent to the application together with what the goroutines of the channel still hold are the
  deliveries of the frames.  Their order may change, though, when a consumer is cancelled and a later
  delivery with its tag makes a second one: \<open>Pipeline\<close> proves the order for consumers that are not.
\<close>

section \<open>Everything under way\<close>

definition allPending :: "channel \<Rightarrow> channelRef delivery multiset" where
  "allPending ch = (\<Sum>i < length (buffers (consumers ch)). mset (pending i ch))"

definition owned :: "channel \<Rightarrow> bool" where
  "owned ch \<longleftrightarrow>
     (\<forall>i < length (buffers (consumers ch)). \<forall>d \<in> set (pending i ch). dl_Acknowledger d = Some (refOf ch))"

fun isDelivery :: "message \<Rightarrow> bool" where
  "isDelivery (BasicMsg (BasicDeliver m)) = True"
| "isDelivery m = False"

definition deliveriesOf :: "channelRef \<Rightarrow> message list \<Rightarrow> channelRef delivery list" where
  "deliveriesOf r ms = map (newDelivery r) (filter isDelivery ms)"

lemma deliveriesOf_append: "deliveriesOf r (ms @ ns) = deliveriesOf r ms @ deliveriesOf r ns"
  by (simp add: deliveriesOf_def)

lemma allPending_new [simp]: "allPending (newChannel c s n) = {#}" "owned (newChannel c s n)"
  by (simp_all add: allPending_def owned_def newChannel_def makeConsumers_def)

lemma allPending_outputs [simp]: "allPending (outputs ch) = allPending ch" "owned (outputs ch) = owned ch"
  by (simp_all add: allPending_def owned_def)

text \<open>\<open>gains ds ch ch'\<close>: the deliveries \<open>ds\<close> have come under way, and no other.\<close>

definition gains :: "channelRef delivery list \<Rightarrow> channel \<Rightarrow> channel \<Rightarrow> bool" where
  "gains ds ch ch' \<longleftrightarrow> owned ch' \<and> refOf ch' = refOf ch \<and> allPending ch' = allPending ch + mset ds"

lemma gains_same:
  assumes "owned ch" "refOf ch' = refOf ch"
    and "length (buffers (consumers ch')) = length (buffers (consumers ch))"
    and "\<And>i. i < length (buffers (consumers ch)) \<Longrightarrow> pending i ch' = pending i ch"
  shows "gains [] ch ch'"
  using assms by (simp add: gains_def owned_def allPending_def)

lemma gains_ensureConsumer:
  assumes "goroutines_ok ch" "owned ch" "ensureConsumer s ch = Inr ch'"
  shows "gains [] ch ch'"
proof (cases "chans (consumers ch) s")
  case None
  let ?n = "length (buffers (consumers ch))"
  have ch': "ch' = ch\<lparr> consumers := startBuffer s (consumers ch), forwarders := forwarders ch @ [None] \<rparr>"
    using None assms(3) by (simp add: ensureConsumer_def add_def)
  have "length (forwarders ch) = ?n" using assms(1) by (simp add: goroutines_ok_def)
  then have old: "\<And>i. i < ?n \<Longrightarrow> pending i ch' = pending i ch" and new: "pending ?n ch' = []"
    by (simp_all add: ch' pending_def startBuffer_def nth_append newBuffer_def)
  have len: "length (buffers (consumers ch')) = Suc ?n" and ref: "refOf ch' = refOf ch"
    by (simp_all add: ch' startBuffer_def refOf_def)
  have "owned ch'"
    unfolding owned_def len ref using assms(2) old new by (auto simp: owned_def less_Suc_eq)
  moreover have "allPending ch' = allPending ch"
    unfolding allPending_def len using old new by simp
  ultimately show ?thesis using ref by (simp add: gains_def)
next
  case (Some i)
  then show ?thesis using assms by (simp add: ensureConsumer_def gains_def)
qed

lemma gains_deliver:
  assumes "goroutines_ok ch" "owned ch" "dispatchDeliver m ch = Inr ch'"
  shows "gains [newDelivery (refOf ch) (BasicMsg (BasicDeliver m))] ch ch'"
proof -
  let ?s = "basicDeliver_ConsumerTag m"
  define d where "d = newDelivery (refOf ch) (BasicMsg (BasicDeliver m))"
  have ack: "dl_Acknowledger d = Some (refOf ch)" unfolding d_def by (rule newDelivery_Acknowledger)
  from ensureConsumer_ok [OF assms(1), of ?s] obtain ch1 i where
    ch1: "ensureConsumer ?s ch = Inr ch1" "goroutines_ok ch1" "chans (consumers ch1) ?s = Some i"
    by blast
  have g: "gains [] ch ch1" by (rule gains_ensureConsumer [OF assms(1,2) ch1(1)])
  have inv: "consumers_inv (consumers ch1)" "\<not> closed (consumers ch1)"
    using ch1(2) by (simp_all add: goroutines_ok_def)
  note i = consumers_invD(1) [OF inv(1) ch1(3)]
  have ch': "ch' = setBuffer i (enqueue d (buffers (consumers ch1) ! i)) ch1"
    using assms(3) ch1 sendTo_accepted [OF inv ch1(3)] by (simp add: dispatchDeliver_def setBuffer_def d_def del: newDelivery.simps)
  have pend: "pending j ch' = pending j ch1 @ (if j = i then [d] else [])" for j
    using i by (simp add: ch' pending_def setBuffer_def enqueue_def nth_list_update)
  have len: "length (buffers (consumers ch')) = length (buffers (consumers ch1))"
    and ref: "refOf ch' = refOf ch1"
    by (simp_all add: ch')
  have "owned ch'"
    unfolding owned_def len ref pend using g ack by (auto simp: gains_def owned_def)
  moreover have "mset (pending j ch') = mset (pending j ch1) + (if j = i then {#d#} else {#})" for j
    by (simp add: pend)
  then have "allPending ch' = allPending ch1 + {#d#}"
    unfolding allPending_def len using i by (simp add: sum.distrib)
  ultimately show ?thesis unfolding d_def [symmetric] using g ref by (simp add: gains_def)
qed

lemma gains_cancel:
  assumes "goroutines_ok ch" "owned ch" "dispatch (BasicMsg (BasicCancel m)) ch = Inr ch'"
  shows "gains [] ch ch'"
proof -
  have "consumers_inv (consumers ch)" using assms(1) by (simp add: goroutines_ok_def)
  from cancel_inv [OF this, of "basicCancel_ConsumerTag m"] obtain b cs where
    cs: "cancel (basicCancel_ConsumerTag m) (consumers ch) = Inr (b, cs)" by blast
  have ch': "consumers ch' = cs" "forwarders ch' = forwarders ch" "refOf ch' = refOf ch"
    using assms(3) cs by (auto simp: refOf_def)
  have "length (buffers cs) = length (buffers (consumers ch))"
    and "queue (buffers cs ! i) = queue (buffers (consumers ch) ! i)" for i
    using cs by (auto simp: cancel_def closeIn_def queue_closeIn split: option.splits if_splits)
  then show ?thesis using assms(2) ch' by (intro gains_same) (simp_all add: pending_def)
qed

lemma gains_dispatch:
  assumes "goroutines_ok ch" "owned ch" "dispatch m ch = Inr ch'"
  shows "gains (deliveriesOf (refOf ch) [m]) ch ch'"
proof -
  have same: "gains [] ch x" if "consumers x = consumers ch" "forwarders x = forwarders ch" "refOf x = refOf ch" for x
    using assms(2) that by (intro gains_same) (simp_all add: pending_def)
  have default: "gains [] ch (dispatchDefault msg ch)" for msg
    by (intro same dispatchDefault_transit)
  have confirm: "gains [] ch ch'" if "dispatchConfirm tag mult ack ch = Inr ch'" for tag mult ack
    using dispatchConfirm_transit [OF that] by (intro same) simp_all
  have other: "gains [] ch (ch\<lparr> flows := fl \<rparr>)" "gains [] ch (ch\<lparr> returns := rs \<rparr>)" "gains [] ch ch" for fl rs
    by (intro same; simp add: refOf_def)+
  show ?thesis
    using assms(3) default confirm other gains_deliver [OF assms(1,2)] gains_cancel [OF assms(1,2)]
    by (cases "(m, ch)" rule: dispatch.cases)
      (auto simp: closeChannel_def deliveriesOf_def simp del: dispatch.simps(3))
qed

section \<open>Runs\<close>

lemma frame_gains:
  assumes "channel_inv ch" "owned ch" "recvFrame f ch = Inr ch'" "\<not> confirming ch"
    and "assemble (assemblyOf ch) f = (m, a)"
  shows "channel_inv ch' \<and> \<not> confirming ch' \<and> assemblyOf ch' = a \<and>
    gains (deliveriesOf (refOf ch) (case_option [] (\<lambda>x. [x]) m)) ch ch'"
proof -
  have "\<not> refuses (assemblyOf ch) f" using recvFrame_refused [OF assms(1)] assms(3) by auto
  then have "implements ch f (recvFrame f ch)"
    using assms by (intro recvFrame_implements) simp_all
  then have ch': "channel_inv ch'" "\<not> confirming ch'" "assemblyOf ch' = a"
    "dispatchOption m (outputs ch) = Inr (outputs ch')"
    using assms(3-5) by (simp_all add: implements_def)
  have g: "goroutines_ok (outputs ch)" using assms(1) by (simp add: channel_inv_def goroutines_ok_def)
  have "gains (deliveriesOf (refOf (outputs ch)) (case_option [] (\<lambda>x. [x]) m)) (outputs ch) (outputs ch')"
  proof (cases m)
    case None
    then have "outputs ch' = outputs ch" using ch'(4) by (simp add: dispatchOption_def)
    then show ?thesis using None assms(2) by (simp add: gains_def deliveriesOf_def)
  next
    case (Some x)
    then show ?thesis
      using gains_dispatch [OF g _, of x] assms(2) ch'(4) by (simp add: dispatchOption_def)
  qed
  then show ?thesis using ch'(1-3) by (simp add: gains_def)
qed

text \<open>A step of a goroutine sends what leaves, and keeps the rest.\<close>

lemma step_conserves:
  assumes "channel_step ch w ch'" "channel_inv ch" "owned ch"
    and "ref_connection (refOf ch) = Some info" "ref_sink (refOf ch)"
  shows "\<exists>leaver. steps_to ch leaver ch' \<and> owned ch' \<and>
    mset (case_option [] (\<lambda>x. [x]) w) + image_mset (wrap info (ref_id (refOf ch))) (allPending ch') =
      image_mset (wrap info (ref_id (refOf ch))) (allPending ch)"
proof -
  let ?w = "wrap info (ref_id (refOf ch))" and ?n = "length (buffers (consumers ch))"
  have sum: "allPending ch = (\<Sum>j < ?n. mset (leaves leaver j)) + allPending ch'" and own: "owned ch'"
    if "steps_to ch leaver ch'" for leaver
  proof -
    note st = steps_toD [OF that]
    have "allPending ch = (\<Sum>j < ?n. mset (leaves leaver j) + mset (pending j ch'))"
      using st(7) by (simp add: allPending_def)
    then show "allPending ch = (\<Sum>j < ?n. mset (leaves leaver j)) + allPending ch'"
      by (simp add: allPending_def st(6) sum.distrib)
    show "owned ch'" using assms(3) st(7) unfolding owned_def st(3,6) by simp
  qed
  from step_steps_to [OF assms(1,2)] consider (stay) "w = None" "steps_to ch None ch'"
    | (leave) i d where "i < ?n" "d \<in> set (pending i ch)"
        "forwardDelivery d = Inr w" "steps_to ch (Some (i, d)) ch'" by blast
  then show ?thesis
  proof cases
    case stay
    then show ?thesis using sum [OF stay(2)] own [OF stay(2)] by (intro exI [of _ None]) simp
  next
    case leave
    have "dl_Acknowledger d = Some (refOf ch)" using assms(3) leave(1,2) by (simp add: owned_def)
    from forwardDelivery_wrap [OF leave(3) this assms(4,5)] have w: "w = Some (?w d)" .
    have "mset (leaves (Some (i, d)) j) = (if j = i then {#d#} else {#})" for j by simp
    then have "(\<Sum>j < ?n. mset (leaves (Some (i, d)) j)) = {#d#}" using leave(1) by simp
    then show ?thesis
      using leave(4) sum [OF leave(4)] own [OF leave(4)] w by (intro exI [of _ "Some (i, d)"]) simp
  qed
qed

lemma run_conserves:
  assumes "channel_run ch fs ws ch'" "channel_inv ch" "owned ch" "\<not> confirming ch"
    and "ref_connection (refOf ch) = Some info" "ref_sink (refOf ch)"
  shows "channel_inv ch' \<and> owned ch' \<and> refOf ch' = refOf ch \<and>
    mset ws + image_mset (wrap info (ref_id (refOf ch))) (allPending ch') =
      image_mset (wrap info (ref_id (refOf ch)))
        (allPending ch + mset (deliveriesOf (refOf ch) (fst (assembleAll (assemblyOf ch) fs))))"
  using assms
proof (induction rule: channel_run.induct)
  case (channel_run_nil ch)
  then show ?case by (simp add: deliveriesOf_def)
next
  case (channel_run_frame f ch ch1 fs ws ch2)
  obtain m a1 where a1: "assemble (assemblyOf ch) f = (m, a1)" by fastforce
  obtain ms a2 where a2: "assembleAll a1 fs = (ms, a2)" by fastforce
  have "fst (assembleAll (assemblyOf ch) (f # fs)) = case_option [] (\<lambda>x. [x]) m @ ms"
    using a1 a2 by simp
  moreover have "channel_inv ch1 \<and> \<not> confirming ch1 \<and> assemblyOf ch1 = a1 \<and>
      gains (deliveriesOf (refOf ch) (case_option [] (\<lambda>x. [x]) m)) ch ch1"
    using frame_gains [OF _ _ channel_run_frame.hyps(1) _ a1] channel_run_frame.prems by blast
  ultimately show ?case
    using channel_run_frame.IH channel_run_frame.prems a2
    by (simp add: gains_def deliveriesOf_append)
next
  case (channel_run_go ch w ch1 fs ws ch2)
  obtain leaver where st: "steps_to ch leaver ch1" "owned ch1"
    "mset (case_option [] (\<lambda>x. [x]) w) + image_mset (wrap info (ref_id (refOf ch))) (allPending ch1) =
      image_mset (wrap info (ref_id (refOf ch))) (allPending ch)"
    using step_conserves [OF channel_run_go.hyps(1)] channel_run_go.prems by blast
  have ih: "channel_inv ch2 \<and> owned ch2 \<and> refOf ch2 = refOf ch \<and>
    mset ws + image_mset (wrap info (ref_id (refOf ch))) (allPending ch2) =
      image_mset (wrap info (ref_id (refOf ch)))
        (allPending ch1 + mset (deliveriesOf (refOf ch) (fst (assembleAll (assemblyOf ch) fs))))"
    using channel_run_go.IH channel_run_go.prems st(2) steps_toD(1-4) [OF st(1)] by simp
  let ?w = "image_mset (wrap info (ref_id (refOf ch)))" and ?out = "mset (case_option [] (\<lambda>x. [x]) w)"
    and ?ds = "mset (deliveriesOf (refOf ch) (fst (assembleAll (assemblyOf ch) fs)))"
  have "?out + (mset ws + ?w (allPending ch2)) = ?out + (?w (allPending ch1) + ?w ?ds)"
    by (simp only: ih [THEN conjunct2, THEN conjunct2, THEN conjunct2] image_mset_union)
  also have "\<dots> = ?w (allPending ch) + ?w ?ds" using st(3) by (simp only: add.assoc [symmetric])
  finally show ?case using ih by (simp only: mset_append image_mset_union add.assoc simp_thms)
qed

section \<open>Coming to rest\<close>

text \<open>When no goroutine can move any more, nothing is under way, of cancelled consumers neither.\<close>

lemma stuck_empty:
  assumes "channel_inv ch" "owned ch" "ref_connection (refOf ch) = Some info"
    and "\<And>w ch'. \<not> channel_step ch w ch'"
  shows "allPending ch = {#}"
proof -
  have inv: "consumers_inv (consumers ch)" "length (forwarders ch) = length (buffers (consumers ch))"
    "\<not> closed (consumers ch)"
    using assms(1) by (simp_all add: channel_inv_def goroutines_ok_def)
  have "pending i ch = []" if i: "i < length (buffers (consumers ch))" for i
  proof -
    have fw: "forwarders ch ! i = None"
    proof (cases "forwarders ch ! i")
      case (Some d)
      then have "d \<in> set (pending i ch)" by (simp add: pending_def)
      then have "dl_Acknowledger d = Some (refOf ch)" using assms(2) i unfolding owned_def by blast
      then obtain w where "forwardDelivery d = Inr w"
        using assms(3) by (cases "ref_sink (refOf ch)") (auto simp: forwardDelivery_def)
      from channel_step.forward [OF _ Some this] i inv(2) assms(4) show ?thesis by auto
    qed
    have "queue (buffers (consumers ch) ! i) = []"
    proof (cases "queue (buffers (consumers ch) ! i)")
      case (Cons d ds)
      have "buffer_inv False (buffers (consumers ch) ! i)"
        using inv(1,3) i by (simp add: consumers_inv_def list_all_length)
      then have "pc (buffers (consumers ch) ! i) = SelectLoop"
        using Cons by (cases "pc (buffers (consumers ch) ! i)") (auto simp: buffer_inv_def)
      from channel_step.hand_over [OF i fw select_send [OF this Cons]] assms(4) show ?thesis by blast
    qed
    with fw show ?thesis by (simp add: pending_def)
  qed
  then show ?thesis by (simp add: allPending_def)
qed

text \<open>The goroutines can always bring a channel to rest.\<close>

lemma run_to_rest:
  assumes "channel_inv ch"
  shows "\<exists>ws ch'. channel_run ch [] ws ch' \<and> channel_inv ch' \<and> (\<forall>w c. \<not> channel_step ch' w c)"
  using assms
proof (induction "channel_measure ch" arbitrary: ch rule: less_induct)
  case less
  show ?case
  proof (cases "\<exists>w ch1. channel_step ch w ch1")
    case True
    then obtain w ch1 where st: "channel_step ch w ch1" by blast
    have "channel_inv ch1" using step_steps_to [OF st less.prems] steps_toD(1) by blast
    then obtain ws ch' where "channel_run ch1 [] ws ch'" "channel_inv ch'" "\<forall>w c. \<not> channel_step ch' w c"
      using less.hyps [OF channel_step_decreases [OF st less.prems]] by blast
    then show ?thesis using channel_run_go [OF st] by blast
  next
    case False
    then show ?thesis using less.prems by (blast intro: channel_run_nil)
  qed
qed

lemma run_append:
  "channel_run ch fs ws ch1 \<Longrightarrow> channel_run ch1 gs vs ch2 \<Longrightarrow> channel_run ch (fs @ gs) (ws @ vs) ch2"
proof (induction rule: channel_run.induct)
  case (channel_run_go ch w ch1 fs ws ch')
  then show ?case
    unfolding append.assoc by (intro channel_run.channel_run_go)
qed (auto intro: channel_run.intros)

section \<open>Order is lost over a cancellation\<close>

text \<open>
  A delivery, the cancellation of its consumer, and another delivery with the same tag leave two buffers,
  with one delivery each, whose goroutines do not wait for each other.
\<close>

lemma two_buffers:
  assumes "basicDeliver_ConsumerTag m1 = t" "basicCancel_ConsumerTag c = t" "basicDeliver_ConsumerTag m2 = t"
  shows "\<exists>ch b1 b2. dispatchAll [BasicMsg (BasicDeliver m1), BasicMsg (BasicCancel c), BasicMsg (BasicDeliver m2)]
      (newChannel (Some ci) True n) = Inr ch \<and>
    buffers (consumers ch) = [b1, b2] \<and> forwarders ch = [None, None] \<and>
    refOf ch = \<lparr> ref_connection = Some ci, ref_sink = True, ref_id = n \<rparr> \<and>
    pc b1 = SelectLoop \<and> queue b1 = [newDelivery (refOf ch) (BasicMsg (BasicDeliver m1))] \<and>
    pc b2 = SelectLoop \<and> queue b2 = [newDelivery (refOf ch) (BasicMsg (BasicDeliver m2))]"
  using assms
  by (simp add: newChannel_def makeConsumers_def dispatchDeliver_def ensureConsumer_def add_def startBuffer_def
      sendTo_def newBuffer_def enqueue_def cancel_def closeIn_def refOf_def Consumers.accepts_def
      del: newDelivery.simps)

text \<open>Two steps bring the first delivery of a buffer to the application.\<close>

lemma deliver_front:
  assumes "i < length (buffers (consumers ch))" "i < length (forwarders ch)" "forwarders ch ! i = None"
    and "pc (buffers (consumers ch) ! i) = SelectLoop" "queue (buffers (consumers ch) ! i) = d # ds"
    and "forwardDelivery d = Inr (Some w)"
  shows "\<exists>b. channel_run ch [] [w] (setBuffer i b ch)"
proof -
  let ?b = "(buffers (consumers ch) ! i)\<lparr> queue := ds, pc := (if ds = [] then RangeIn else SelectLoop) \<rparr>"
  let ?ch1 = "setBuffer i ?b ch\<lparr> forwarders := (forwarders ch)[i := Some d] \<rparr>"
  have fw: "(forwarders ch)[i := None] = forwarders ch" using assms(3) by (metis list_update_id)
  have "channel_step ch None ?ch1"
    by (rule channel_step.hand_over [OF assms(1,3) select_send [OF assms(4,5)]])
  moreover have "channel_step ?ch1 (Some w) (?ch1\<lparr> forwarders := (forwarders ?ch1)[i := None] \<rparr>)"
    using assms(2,6) by (intro channel_step.forward) simp_all
  moreover have "?ch1\<lparr> forwarders := (forwarders ?ch1)[i := None] \<rparr> = setBuffer i ?b ch"
    using fw by (cases ch) (simp add: setBuffer_def)
  ultimately have "channel_run ch [] (case_option [] (\<lambda>x. [x]) None @ case_option [] (\<lambda>x. [x]) (Some w) @ [])
      (setBuffer i ?b ch)"
    by (metis channel_run_go channel_run_nil)
  then show ?thesis by auto
qed

lemma later_first:
  assumes "buffers (consumers ch) = [b1, b2]" "forwarders ch = [None, None]"
    and "ref_connection (refOf ch) = Some ci" "ref_sink (refOf ch)"
    and "pc b1 = SelectLoop" "queue b1 = [d1]" "dl_Acknowledger d1 = Some (refOf ch)"
    and "pc b2 = SelectLoop" "queue b2 = [d2]" "dl_Acknowledger d2 = Some (refOf ch)"
  shows "\<exists>ch'. channel_run ch [] [wrap ci (ref_id (refOf ch)) d2, wrap ci (ref_id (refOf ch)) d1] ch'"
proof -
  let ?w = "wrap ci (ref_id (refOf ch))"
  have fwd: "forwardDelivery d = Inr (Some (?w d))" if "dl_Acknowledger d = Some (refOf ch)" for d
    using that assms(3,4) by (simp add: forwardDelivery_def wrap_def)
  obtain b where b: "channel_run ch [] [?w d2] (setBuffer 1 b ch)"
    using deliver_front [of 1 ch d2 "[]", OF _ _ _ _ _ fwd [OF assms(10)]] assms by auto
  obtain b' where "channel_run (setBuffer 1 b ch) [] [?w d1] (setBuffer 0 b' (setBuffer 1 b ch))"
    using deliver_front [of 0 "setBuffer 1 b ch" d1 "[]", OF _ _ _ _ _ fwd [OF assms(7)]] assms by auto
  from run_append [OF b this] show ?thesis by auto
qed

lemma reordered:
  assumes "acceptable WantMethod fs"
    and "fst (assembleAll WantMethod fs) =
      [BasicMsg (BasicDeliver m1), BasicMsg (BasicCancel c), BasicMsg (BasicDeliver m2)]"
    and "basicDeliver_ConsumerTag m1 = t" "basicCancel_ConsumerTag c = t" "basicDeliver_ConsumerTag m2 = t"
  shows "\<exists>ch'. channel_run (newChannel (Some ci) True n) fs
    (map (\<lambda>m. wrap ci n (newDelivery \<lparr> ref_connection = Some ci, ref_sink = True, ref_id = n \<rparr> (BasicMsg (BasicDeliver m))))
      [m2, m1]) ch'"
proof -
  let ?new = "newChannel (Some ci) True n" and ?r = "\<lparr> ref_connection = Some ci, ref_sink = True, ref_id = n \<rparr>"
  obtain ch where ch: "recvFrames fs ?new = Inr ch" "assembled ?new fs ch"
    by (rule recvFrames_accepted [of ?new fs]) (simp_all add: assms(1))
  from two_buffers [OF assms(3-5), of ci n] obtain x b1 b2 where x: "dispatchAll
      [BasicMsg (BasicDeliver m1), BasicMsg (BasicCancel c), BasicMsg (BasicDeliver m2)] ?new = Inr x"
    and b: "buffers (consumers x) = [b1, b2]" "forwarders x = [None, None]" "refOf x = ?r"
      "pc b1 = SelectLoop" "queue b1 = [newDelivery ?r (BasicMsg (BasicDeliver m1))]"
      "pc b2 = SelectLoop" "queue b2 = [newDelivery ?r (BasicMsg (BasicDeliver m2))]" by auto
  have "outputs ch = x" using ch(2) x assms(2) by (simp add: assembled_def)
  then have same: "consumers ch = consumers x" "forwarders ch = forwarders x" "refOf ch = refOf x" by auto
  have "\<exists>ch'. channel_run ch [] [wrap ci (ref_id (refOf ch)) (newDelivery ?r (BasicMsg (BasicDeliver m2))),
      wrap ci (ref_id (refOf ch)) (newDelivery ?r (BasicMsg (BasicDeliver m1)))] ch'"
    by (rule later_first [of ch b1 b2]) (simp_all only: same b newDelivery_Acknowledger channelRef.simps)
  then obtain ch' where "channel_run ch [] [wrap ci n (newDelivery ?r (BasicMsg (BasicDeliver m2))),
      wrap ci n (newDelivery ?r (BasicMsg (BasicDeliver m1)))] ch'"
    by (auto simp: same b(3) simp del: newDelivery.simps)
  from run_append [OF recvFrames_run [OF ch(1)] this] show ?thesis by (auto simp del: newDelivery.simps)
qed

end
