(* ===== verification/Connection.thy ===== *)
theory Connection
  imports Pipeline
begin

text \<open>
  \<open>connection.go\<close>: a connection and its channels, \<open>demux\<close> with its three targets, and the read loop
  \<open>Parse\<close>; with the theorems that channels do not disturb each other, that the loop always ends, and
  that it hands on exactly the frames that were written.
\<close>

section \<open>State and demultiplexing\<close>

text \<open>\<open>stdout\<close> are the lines that \<open>fmt.Println\<close> prints.\<close>

record conn =
  info :: connectionInfo
  connRpc :: "message list option"
  channels :: "u16 \<rightharpoonup> channel"
  chMsgSet :: bool
  stdout :: "gostring list"

definition NewConnection :: "endpoint \<Rightarrow> endpoint \<Rightarrow> bool \<Rightarrow> conn" where
  "NewConnection sep cep chMsg =
     \<lparr> info = \<lparr> ServerEP = sep, ClientEP = cep \<rparr>, connRpc = None, channels = Map.empty,
       chMsgSet = chMsg, stdout = [] \<rparr>"

definition println :: "gostring \<Rightarrow> conn \<Rightarrow> conn" where
  "println s c = c\<lparr> stdout := stdout c @ [s] \<rparr>"

fun dispatch0 :: "frame \<Rightarrow> conn \<Rightarrow> conn" where
  "dispatch0 (MethodFrame mf) c =
     (case mf_Method mf of
        Some (ConnectionMsg (ConnectionClose m)) \<Rightarrow> println (ascii ''connection close'') c
      | Some (ConnectionMsg (ConnectionBlocked m)) \<Rightarrow> println (ascii ''connection blocked'') c
      | Some (ConnectionMsg (ConnectionUnblocked m)) \<Rightarrow> println (ascii ''connection unblocked'') c
      | Some m \<Rightarrow> c\<lparr> connRpc := map_option (\<lambda>ms. ms @ [m]) (connRpc c) \<rparr>
      | None \<Rightarrow> c)"
| "dispatch0 (HeartbeatFrame f) c = c"
| "dispatch0 f c = println (ascii ''error: unexpected frame'') c"

definition setChannel :: "u16 \<Rightarrow> channel \<Rightarrow> conn \<Rightarrow> conn" where
  "setChannel n ch c = c\<lparr> channels := (channels c)(n \<mapsto> ch) \<rparr>"

definition dispatchClosed :: "u16 \<Rightarrow> frame \<Rightarrow> conn \<Rightarrow> go_error + conn" where
  "dispatchClosed n f c =
     (let channel = newChannel (Some (info c)) (chMsgSet c) n;
          c1 = setChannel n channel
                 (println (ascii ''dispatchClosed, channel id:  '' @ formatUint (ucast n)) c)
      in map_sum id (\<lambda>ch. setChannel n ch c1) (recvFrame f channel))"

definition dispatchN :: "u16 \<Rightarrow> frame \<Rightarrow> conn \<Rightarrow> go_error + conn" where
  "dispatchN n f c =
     (case channels c n of
        Some channel \<Rightarrow> map_sum id (\<lambda>ch. setChannel n ch c) (recvFrame f channel)
      | None \<Rightarrow> dispatchClosed n f c)"

definition demux :: "frame \<Rightarrow> conn \<Rightarrow> go_error + conn" where
  "demux f c =
     (case frame_channel f of
        Inl e \<Rightarrow> Inl e
      | Inr n \<Rightarrow> if n = 0 then Inr (dispatch0 f c) else dispatchN n f c)"

fun demuxAll :: "frame list \<Rightarrow> conn \<Rightarrow> go_error + conn" where
  "demuxAll [] c = Inr c"
| "demuxAll (f # fs) c = (case demux f c of Inl e \<Rightarrow> Inl e | Inr c' \<Rightarrow> demuxAll fs c')"

text \<open>\<open>genID\<close> with its counter \<open>gid\<close>; the program never calls it.\<close>

definition genID :: "u16 \<Rightarrow> u16 \<times> u16" where
  "genID gid = (gid + 1, gid + 1)"

section \<open>The read loop\<close>

lemma ReadFrame_shorter:
  assumes "ReadFrame s = (r, s')" "r \<noteq> Inl EOF"
  shows "length s' < length s"
proof -
  have "s \<noteq> []" using assms by auto
  then have "length (snd (ReadFrame s)) < length s"
    using progresses_ReadFrame by (simp add: progresses_def)
  then show ?thesis using assms(1) by simp
qed

text \<open>
  The loop of \<open>Parse\<close>.  It goes on after every error but \<open>io.EOF\<close>; a panic ends the program.  The
  result is the error that is returned, with the connection.
\<close>

function parseLoop :: "bytes \<Rightarrow> conn \<Rightarrow> go_error + go_error \<times> conn" where
  "parseLoop s c =
     (case ReadFrame s of
        (Inl e, s') \<Rightarrow>
          if e = EOF then Inr (EOF, c)
          else if e = Panic \<or> e = Diverged then Inl e
          else parseLoop s' c
      | (Inr f, s') \<Rightarrow>
          (case demux f c of
             Inl e \<Rightarrow> Inl e
           | Inr c' \<Rightarrow> parseLoop s' c'))"
  by pat_completeness auto

termination
  by (relation "measure (\<lambda>(s, c). length s)") (auto dest!: sym [THEN ReadFrame_shorter])

declare parseLoop.simps [simp del]

definition Connection_Parse :: "bytes \<Rightarrow> conn \<Rightarrow> go_error + go_error \<times> conn" where
  "Connection_Parse r c = parseLoop r c"

text \<open>
  \<open>scan s\<close>: the frames that the loop finds in \<open>s\<close>, and whether reading panics after them (a byte array
  of negative length does).  It tells what the loop reads from what \<open>demux\<close> makes of it.
\<close>

function scan :: "bytes \<Rightarrow> frame list \<times> bool" where
  "scan s =
     (case ReadFrame s of
        (Inl e, s') \<Rightarrow>
          if e = EOF then ([], False) else if e = Panic \<or> e = Diverged then ([], True) else scan s'
      | (Inr f, s') \<Rightarrow> (case scan s' of (fs, panics) \<Rightarrow> (f # fs, panics)))"
  by pat_completeness auto

termination
  by (relation "measure length") (auto dest!: sym [THEN ReadFrame_shorter])

declare scan.simps [simp del]

lemma scan_nil [simp]: "scan [] = ([], False)"
  by (simp add: scan.simps [of "[]"])

lemma scan_frame: "ReadFrame s = (Inr f, s') \<Longrightarrow> scan s = (f # fst (scan s'), snd (scan s'))"
  by (subst scan.simps) (simp add: case_prod_unfold)

lemma ReadFrame_not_diverged: "ReadFrame s \<noteq> (Inl Diverged, s')"
  using answers_ReadFrame by (auto simp: answers_def dest: spec [of _ s])

lemma parseLoop_scan:
  "parseLoop s c =
     (case demuxAll (fst (scan s)) c of
        Inl e \<Rightarrow> Inl e
      | Inr c' \<Rightarrow> if snd (scan s) then Inl Panic else Inr (EOF, c'))"
proof (induction s c rule: parseLoop.induct)
  case (1 s c)
  obtain r s' where r: "ReadFrame s = (r, s')" by fastforce
  show ?case
  proof (cases r)
    case (Inl e)
    have "e \<noteq> Diverged" using ReadFrame_not_diverged r Inl by auto
    then have "scan s = (if e = EOF then ([], False) else if e = Panic then ([], True) else scan s')"
      using r Inl by (subst scan.simps) simp
    then show ?thesis
      using 1(1) [OF r [symmetric] Inl] r Inl \<open>e \<noteq> Diverged\<close>
      by (cases "e = EOF"; cases "e = Panic"; subst parseLoop.simps) (simp_all split: sum.split)
  next
    case (Inr f)
    then have "parseLoop s c = (case demux f c of Inl e \<Rightarrow> Inl e | Inr c' \<Rightarrow> parseLoop s' c')"
      using r by (subst parseLoop.simps) simp
    then show ?thesis
      using 1(2) [OF r [symmetric] Inr] scan_frame [of s f s'] r Inr by (cases "demux f c") (simp_all split: sum.split)
  qed
qed

lemma ReadFrame_not_header: "ReadFrame s = (Inr f, s') \<Longrightarrow> f \<noteq> ProtocolHeader"
  by (auto simp: ReadFrame_def parseFrame_def rbind_Inr_iff split: if_splits)

lemma scan_not_header: "ProtocolHeader \<notin> set (fst (scan s))"
proof (induction s rule: scan.induct)
  case (1 s)
  obtain r s' where r: "ReadFrame s = (r, s')" by fastforce
  show ?case
  proof (cases r)
    case (Inl e)
    then show ?thesis using 1(1) [OF r [symmetric] Inl] r by (subst scan.simps) simp
  next
    case (Inr f)
    then show ?thesis
      using 1(2) [OF r [symmetric] Inr] r ReadFrame_not_header [of s f s'] by (simp add: scan_frame)
  qed
qed

section \<open>Channels do not disturb each other\<close>

definition channelOf :: "u16 \<Rightarrow> conn \<Rightarrow> channel" where
  "channelOf n c =
     (case channels c n of
        Some ch \<Rightarrow> ch
      | None \<Rightarrow> newChannel (Some (info c)) (chMsgSet c) n)"

definition framesOf :: "u16 \<Rightarrow> frame list \<Rightarrow> frame list" where
  "framesOf n fs = filter (\<lambda>f. frame_channel f = Inr n) fs"

text \<open>What \<open>demux\<close> does to a connection, channel by channel.\<close>

lemma dispatch0_channels [simp]:
  "channels (dispatch0 f c) = channels c" "info (dispatch0 f c) = info c"
  "chMsgSet (dispatch0 f c) = chMsgSet c"
  by (cases "(f, c)" rule: dispatch0.cases; auto simp: println_def split: option.splits message.splits
      connection_method.splits)+

lemma dispatchN_channelOf:
  "dispatchN n f c = Inr c' \<longleftrightarrow>
     (\<exists>ch. recvFrame f (channelOf n c) = Inr ch \<and>
        c' = setChannel n ch (if channels c n = None
          then println (ascii ''dispatchClosed, channel id:  '' @ formatUint (ucast n)) c else c))"
  by (cases "recvFrame f (channelOf n c)")
    (auto simp: dispatchN_def dispatchClosed_def channelOf_def setChannel_def println_def Let_def
      split: option.splits)

lemma dispatchN_err:
  "dispatchN n f c = Inl e \<longleftrightarrow> recvFrame f (channelOf n c) = Inl e"
  by (cases "recvFrame f (channelOf n c)")
    (auto simp: dispatchN_def dispatchClosed_def channelOf_def Let_def split: option.splits)

lemma demux_channel:
  assumes "demux f c = Inr c'" "n \<noteq> 0"
  shows "recvFrames (framesOf n [f]) (channelOf n c) = Inr (channelOf n c') \<and>
    info c' = info c \<and> chMsgSet c' = chMsgSet c"
proof (cases "frame_channel f")
  case (Inl e)
  then show ?thesis using assms(1) by (simp add: demux_def)
next
  case (Inr k)
  show ?thesis
  proof (cases "k = 0")
    case True
    then show ?thesis
      using assms Inr by (auto simp: demux_def framesOf_def channelOf_def split: option.split)
  next
    case False
    then have "dispatchN k f c = Inr c'" using assms(1) Inr by (simp add: demux_def)
    then obtain ch where "recvFrame f (channelOf k c) = Inr ch"
      "c' = setChannel k ch (if channels c k = None
          then println (ascii ''dispatchClosed, channel id:  '' @ formatUint (ucast k)) c else c)"
      by (auto simp: dispatchN_channelOf)
    then show ?thesis
      using Inr by (cases "k = n") (auto simp: framesOf_def channelOf_def setChannel_def println_def
        split: option.split)
  qed
qed

lemma demuxAll_channel:
  "demuxAll fs c = Inr c' \<Longrightarrow> n \<noteq> 0 \<Longrightarrow>
     recvFrames (framesOf n fs) (channelOf n c) = Inr (channelOf n c') \<and>
     info c' = info c \<and> chMsgSet c' = chMsgSet c"
proof (induction fs arbitrary: c)
  case (Cons f fs)
  from Cons.prems obtain c1 where c1: "demux f c = Inr c1" "demuxAll fs c1 = Inr c'"
    by (auto split: sum.splits)
  then show ?case
    using demux_channel [OF c1(1) Cons.prems(2)] Cons.IH [OF c1(2) Cons.prems(2)]
    by (auto simp: framesOf_def split: if_splits sum.splits)
qed (simp add: framesOf_def)

text \<open>And nothing else can stop \<open>demux\<close>: if every channel can take its frames, so can the connection.\<close>

lemma demuxAll_ok:
  assumes "\<And>n. n \<noteq> 0 \<Longrightarrow> \<exists>ch. recvFrames (framesOf n fs) (channelOf n c) = Inr ch"
    and "list_all (\<lambda>f. f \<noteq> ProtocolHeader) fs"
  shows "\<exists>c'. demuxAll fs c = Inr c'"
  using assms
proof (induction fs arbitrary: c)
  case (Cons f fs)
  obtain k where k: "frame_channel f = Inr k" using Cons.prems(2) by (cases f) auto
  have "\<exists>c1. demux f c = Inr c1"
  proof (cases "k = 0")
    case False
    then obtain ch where "recvFrames (framesOf k (f # fs)) (channelOf k c) = Inr ch"
      using Cons.prems(1) by blast
    then have "\<exists>ch1. recvFrame f (channelOf k c) = Inr ch1"
      using k by (auto simp: framesOf_def split: sum.splits)
    then show ?thesis
      using False k by (simp add: demux_def dispatchN_channelOf)
  qed (simp add: demux_def k)
  then obtain c1 where c1: "demux f c = Inr c1" by blast
  have "\<exists>ch. recvFrames (framesOf n fs) (channelOf n c1) = Inr ch" if "n \<noteq> 0" for n
  proof -
    obtain ch where "recvFrames (framesOf n (f # fs)) (channelOf n c) = Inr ch"
      using Cons.prems(1) \<open>n \<noteq> 0\<close> by blast
    moreover have "recvFrames (framesOf n [f]) (channelOf n c) = Inr (channelOf n c1)"
      using demux_channel [OF c1 \<open>n \<noteq> 0\<close>] by blast
    ultimately show ?thesis by (auto simp: framesOf_def split: if_splits sum.splits)
  qed
  then have "\<exists>c'. demuxAll fs c1 = Inr c'" using Cons.IH Cons.prems(2) by simp
  then show ?case using c1 by simp
qed simp

section \<open>What a connection does with any frames\<close>

text \<open>Nothing puts a channel into confirm mode, so every call of \<open>dispatch\<close> comes back.\<close>

definition conn_inv :: "conn \<Rightarrow> bool" where
  "conn_inv c \<longleftrightarrow> (\<forall>n. n \<noteq> 0 \<longrightarrow> channel_inv (channelOf n c) \<and> \<not> confirming (channelOf n c))"

lemma conn_invD:
  "conn_inv c \<Longrightarrow> n \<noteq> 0 \<Longrightarrow> channel_inv (channelOf n c)"
  "conn_inv c \<Longrightarrow> n \<noteq> 0 \<Longrightarrow> \<not> confirming (channelOf n c)"
  by (simp_all add: conn_inv_def)

lemma channelOf_New [simp]:
  "channelOf n (NewConnection sep cep snk) = newChannel (Some \<lparr> ServerEP = sep, ClientEP = cep \<rparr>) snk n"
  by (simp add: channelOf_def NewConnection_def)

lemma conn_inv_New [simp]: "conn_inv (NewConnection sep cep snk)"
  by (simp add: conn_inv_def)

text \<open>No frame of any channel is one that its channel panics on.\<close>

definition conn_accepts :: "conn \<Rightarrow> frame list \<Rightarrow> bool" where
  "conn_accepts c fs \<longleftrightarrow> ProtocolHeader \<notin> set fs \<and>
     (\<forall>n. n \<noteq> 0 \<longrightarrow> acceptable (assemblyOf (channelOf n c)) (framesOf n fs))"

text \<open>\<open>conn_assembled c fs c'\<close>: every channel has made of its own frames what the specification says.\<close>

definition conn_assembled :: "conn \<Rightarrow> frame list \<Rightarrow> conn \<Rightarrow> bool" where
  "conn_assembled c fs c' \<longleftrightarrow>
     (\<forall>n. n \<noteq> 0 \<longrightarrow> assembled (channelOf n c) (framesOf n fs) (channelOf n c'))"

lemma conn_assembled_inv: "conn_assembled c fs c' \<Longrightarrow> conn_inv c \<Longrightarrow> conn_inv c'"
  by (simp add: conn_assembled_def conn_inv_def assembled_def)

lemma demuxAll_assembled:
  assumes "conn_inv c" "demuxAll fs c = Inr c'"
  shows "conn_assembled c fs c'"
  unfolding conn_assembled_def
  using demuxAll_channel [OF assms(2)] recvFrames_result(2) conn_invD [OF assms(1)] by blast

lemma demux_panics: "conn_inv c \<Longrightarrow> demux f c = Inl e \<Longrightarrow> e = Panic"
proof -
  assume c: "conn_inv c" and e: "demux f c = Inl e"
  show ?thesis
  proof (cases "frame_channel f")
    case (Inl e')
    then show ?thesis using e by (cases f) (auto simp: demux_def)
  next
    case (Inr n)
    then have n: "n \<noteq> 0" "recvFrames [f] (channelOf n c) = Inl e"
      using e by (auto simp: demux_def dispatchN_err split: if_splits)
    show ?thesis
      using recvFrames_implements [OF conn_invD(1) [OF c n(1)], of "[f]"] conn_invD(2) [OF c n(1)] n(2)
      by (auto simp: list_all_iff split: if_splits)
  qed
qed

lemma demuxAll_panics: "conn_inv c \<Longrightarrow> demuxAll fs c = Inl e \<Longrightarrow> e = Panic"
proof (induction fs arbitrary: c)
  case (Cons f fs)
  show ?case
  proof (cases "demux f c")
    case (Inl e')
    then show ?thesis using Cons.prems demux_panics [OF Cons.prems(1)] by simp
  next
    case (Inr c1)
    then have "conn_inv c1"
      using demuxAll_assembled [OF Cons.prems(1), of "[f]" c1] Cons.prems(1) conn_assembled_inv by simp
    then show ?thesis using Cons Inr by simp
  qed
qed simp

lemma demuxAll_no_header: "demuxAll fs c = Inr c' \<Longrightarrow> ProtocolHeader \<notin> set fs"
  by (induction fs arbitrary: c) (auto simp: demux_def split: sum.splits)

text \<open>Frames are either all accepted, and then assembled channel by channel, or the program panics.\<close>

lemma demuxAll_result:
  assumes "conn_inv c"
  shows "if conn_accepts c fs then \<exists>c'. demuxAll fs c = Inr c' \<and> conn_assembled c fs c'
    else demuxAll fs c = Inl Panic"
proof (cases "conn_accepts c fs")
  case True
  have "\<exists>ch. recvFrames (framesOf n fs) (channelOf n c) = Inr ch" if "n \<noteq> 0" for n
    using that True recvFrames_accepted [OF conn_invD [OF assms that]]
    unfolding conn_accepts_def by metis
  moreover have "list_all (\<lambda>f. f \<noteq> ProtocolHeader) fs"
    using True by (auto simp: conn_accepts_def list_all_iff)
  ultimately obtain c' where "demuxAll fs c = Inr c'" using demuxAll_ok by blast
  then show ?thesis using True demuxAll_assembled [OF assms] by auto
next
  case False
  have "\<not> (\<exists>c'. demuxAll fs c = Inr c')"
    using False demuxAll_no_header demuxAll_channel recvFrames_result(1) conn_invD [OF assms]
    unfolding conn_accepts_def by metis
  then show ?thesis using False demuxAll_panics [OF assms] by (cases "demuxAll fs c") auto
qed

text \<open>So a packet of any bytes is read to its end, or the program panics.\<close>

lemma parseLoop_result:
  assumes "conn_inv c"
  shows "if conn_accepts c (fst (scan s)) \<and> \<not> snd (scan s)
    then \<exists>c'. parseLoop s c = Inr (EOF, c') \<and> conn_assembled c (fst (scan s)) c'
    else parseLoop s c = Inl Panic"
  using demuxAll_result [OF assms, of "fst (scan s)"]
  by (auto simp: parseLoop_scan split: if_splits sum.splits)

section \<open>The loop reads what was written\<close>

fun encodeFrames :: "frame list \<Rightarrow> wresult" where
  "encodeFrames [] = Inr []"
| "encodeFrames (f # fs) = wthen (frameEncoding f) (encodeFrames fs)"

lemma encodeFrames_ok:
  assumes "list_all frame_valid fs"
  obtains bs where "encodeFrames fs = Inr bs"
proof -
  have "\<exists>bs. encodeFrames fs = Inr bs"
    using assms
  proof (induction fs)
    case (Cons f fs)
    then show ?case using decodes_frame [of f] by (auto simp: decodes_def)
  qed simp
  then show thesis using that by blast
qed

lemma scan_frames:
  "list_all frame_valid fs \<Longrightarrow> encodeFrames fs = Inr bs \<Longrightarrow>
     scan (bs @ s) = (map frame_canon fs @ fst (scan s), snd (scan s))"
proof (induction fs arbitrary: bs)
  case (Cons f fs)
  from Cons.prems obtain b bs' where b: "frameEncoding f = Inr b" "encodeFrames fs = Inr bs'" "bs = b @ bs'"
    by (auto simp: wthen_Inr_iff)
  have "decodes ReadFrame (frameEncoding f) (frame_canon f)"
    using Cons.prems by (intro decodes_frame) simp
  then have "ReadFrame (b @ bs' @ s) = (Inr (frame_canon f), bs' @ s)"
    unfolding b(1) by (rule decodes_apply)
  then show ?case using Cons.IH [OF _ b(2)] Cons.prems b(3) by (simp add: scan_frame)
qed simp

lemma parseLoop_frames:
  "list_all frame_valid fs \<Longrightarrow> encodeFrames fs = Inr bs \<Longrightarrow>
     parseLoop bs c = map_sum id (Pair EOF) (demuxAll (map frame_canon fs) c)"
  using scan_frames [of fs bs "[]"] by (simp add: parseLoop_scan map_sum.simps split: sum.split)

text \<open>What is read from any bytes is valid, and so can be written again.\<close>

lemma scan_valid:
  "list_all frame_valid (fst (scan s)) \<and>
   map frame_canon (fst (scan s)) = map withoutReserved (fst (scan s))"
proof (induction s rule: scan.induct)
  case (1 s)
  obtain r s' where r: "ReadFrame s = (r, s')" by fastforce
  show ?case
  proof (cases r)
    case (Inl e)
    then show ?thesis using 1(1) [OF r [symmetric] Inl] r by (subst (1 2 3) scan.simps) simp
  next
    case (Inr f)
    then show ?thesis
      using 1(2) [OF r [symmetric] Inr] r yieldsD [OF yields_ReadFrame, of s f s'] by (simp add: scan_frame)
  qed
qed

text \<open>A frame cut off at the end of a packet is lost.\<close>

lemma scan_cut:
  assumes "frame_valid f" "frameEncoding f = Inr b" "strict_prefix p b"
  shows "scan p = ([], False)"
proof -
  have "decodes ReadFrame (frameEncoding f) (frame_canon f)" by (rule decodes_frame [OF assms(1)])
  then have "ReadFrame (b @ []) = (Inr (frame_canon f), [])"
    unfolding assms(2) by (rule decodes_apply)
  then have "starved (fst (ReadFrame p)) \<and> snd (ReadFrame p) = []"
    using assms(3) by (intro online_cut [OF online_ReadFrame]) simp_all
  then have "ReadFrame p = (Inl EOF, []) \<or> ReadFrame p = (Inl UnexpectedEOF, [])"
    by (auto simp: starved_def prod_eq_iff)
  then show ?thesis by (subst scan.simps) auto
qed

text \<open>Packets that end between two frames may as well be one packet.\<close>

lemma parseLoop_append:
  assumes "list_all frame_valid fs" "encodeFrames fs = Inr bs"
  shows "parseLoop (bs @ s) c =
    (case parseLoop bs c of Inl e \<Rightarrow> Inl e | Inr (_, c') \<Rightarrow> parseLoop s c')"
proof -
  have "demuxAll (gs @ hs) c = (case demuxAll gs c of Inl e \<Rightarrow> Inl e | Inr c' \<Rightarrow> demuxAll hs c')" for gs hs c
    by (induction gs arbitrary: c) (simp_all split: sum.split)
  then show ?thesis
    using scan_frames [OF assms, of s] scan_frames [OF assms, of "[]"]
    by (simp add: parseLoop_scan split: sum.split)
qed

text \<open>A heartbeat on a channel other than 0 panics in every state of the channel, and so does the connection.\<close>

lemma heartbeat_on_channel_panics:
  "n \<noteq> 0 \<Longrightarrow> demux (HeartbeatFrame \<lparr> hb_ChannelId = n \<rparr>) c = Inl Panic"
  by (simp add: demux_def dispatchN_err recvFrame_def split: recv_state.split)

end
