(* ===== verification/Parser.thy ===== *)
theory Parser
  imports Connection
begin

text \<open>
  \<open>parser.go\<close>: the connections of a capture, found by the client's port, and \<open>Parse\<close>, which reads one
  packet into its connection.
\<close>

record parser =
  connections :: "gostring \<rightharpoonup> conn"
  parserChMsg :: bool

definition NewParser :: "bool \<Rightarrow> parser" where
  "NewParser chMsg = \<lparr> connections = Map.empty, parserChMsg = chMsg \<rparr>"

text \<open>
  The connection is returned and, when it is new, entered in the map.  The map holds pointers, so what
  \<open>Parse\<close> does to the connection is stored back.
\<close>

definition getConnection :: "endpoint \<Rightarrow> endpoint \<Rightarrow> parser \<Rightarrow> conn \<times> parser" where
  "getConnection sep cep p =
     (case connections p (ep_Port cep) of
        Some c \<Rightarrow> (c, p)
      | None \<Rightarrow>
          (let c = NewConnection sep cep (parserChMsg p)
           in (c, p\<lparr> connections := (connections p)(ep_Port cep \<mapsto> c) \<rparr>)))"

text \<open>The packet timestamp is not used.\<close>

definition Parse :: "bytes \<Rightarrow> endpoint \<Rightarrow> endpoint \<Rightarrow> parser \<Rightarrow> go_error + go_error \<times> parser" where
  "Parse r serverEP clientEP p =
     (case getConnection serverEP clientEP p of
        (c, p') \<Rightarrow>
          map_sum (\<lambda>e. e)
            (\<lambda>(err, c'). (err, p'\<lparr> connections := (connections p')(ep_Port clientEP \<mapsto> c') \<rparr>))
            (parseLoop r c))"

text \<open>What a parser knows of a client port.\<close>

definition connectionOf :: "endpoint \<Rightarrow> endpoint \<Rightarrow> parser \<Rightarrow> conn" where
  "connectionOf sep cep p = fst (getConnection sep cep p)"

lemma Parse_connection:
  "Parse r sep cep p =
     map_sum (\<lambda>e. e)
       (\<lambda>(err, c'). (err, p\<lparr> connections := (connections p)(ep_Port cep \<mapsto> c') \<rparr>))
       (parseLoop r (connectionOf sep cep p))"
  by (auto simp: Parse_def connectionOf_def getConnection_def Let_def split: option.split)

text \<open>A packet changes the connection of its client port and no other.\<close>

lemma Parse_other_port:
  "Parse r sep cep p = Inr (err, p') \<Longrightarrow> port \<noteq> ep_Port cep \<Longrightarrow>
     connections p' port = connections p port \<and> parserChMsg p' = parserChMsg p"
  by (cases "parseLoop r (connectionOf sep cep p)") (auto simp: Parse_connection)

lemma parseLoop_info:
  "parseLoop s c = Inr (err, c') \<Longrightarrow> info c' = info c \<and> chMsgSet c' = chMsgSet c"
proof (induction s c rule: parseLoop.induct)
  case (1 s c)
  obtain r s' where r: "ReadFrame s = (r, s')" by fastforce
  show ?case
  proof (cases r)
    case (Inl e)
    then show ?thesis
      using 1(1) [OF r [symmetric] Inl] 1(3) r
      by (subst (asm) parseLoop.simps) (auto split: if_splits)
  next
    case (Inr f)
    then obtain c1 where c1: "demux f c = Inr c1" "parseLoop s' c1 = Inr (err, c')"
      using 1(3) r by (subst (asm) parseLoop.simps) (auto split: sum.splits)
    then show ?thesis
      using 1(2) [OF r [symmetric] Inr c1(1)] demux_channel [OF c1(1), of 1] by simp
  qed
qed

text \<open>
  The endpoints of a connection are those of the first packet seen with its client port: two clients on
  different hosts that use the same port share one connection.
\<close>

lemma Parse_first_endpoints:
  assumes "Parse r sep cep p = Inr (err, p')" "connections p (ep_Port cep) = None"
  shows "\<exists>c. connections p' (ep_Port cep) = Some c \<and> info c = \<lparr> ServerEP = sep, ClientEP = cep \<rparr>"
proof -
  have new: "connectionOf sep cep p = NewConnection sep cep (parserChMsg p)"
    using assms(2) by (simp add: connectionOf_def getConnection_def Let_def)
  then obtain c where "parseLoop r (connectionOf sep cep p) = Inr (err, c)"
    "connections p' (ep_Port cep) = Some c"
    using assms(1) by (cases "parseLoop r (connectionOf sep cep p)") (auto simp: Parse_connection)
  then show ?thesis using parseLoop_info new by (fastforce simp: NewConnection_def)
qed

lemma Parse_later_endpoints:
  assumes "Parse r sep cep p = Inr (err, p')" "connections p (ep_Port cep) = Some c"
  shows "\<exists>c'. connections p' (ep_Port cep) = Some c' \<and> info c' = info c"
proof -
  have old: "connectionOf sep cep p = c"
    using assms(2) by (simp add: connectionOf_def getConnection_def)
  then obtain c' where "parseLoop r (connectionOf sep cep p) = Inr (err, c')"
    "connections p' (ep_Port cep) = Some c'"
    using assms(1) by (cases "parseLoop r (connectionOf sep cep p)") (auto simp: Parse_connection)
  then show ?thesis using parseLoop_info old by fastforce
qed

section \<open>Sequences of packets\<close>

definition parser_inv :: "parser \<Rightarrow> bool" where
  "parser_inv p \<longleftrightarrow> (\<forall>port c. connections p port = Some c \<longrightarrow> conn_inv c)"

lemma parser_inv_New [simp]: "parser_inv (NewParser chMsg)"
  by (simp add: parser_inv_def NewParser_def)

lemma connectionOf_inv: "parser_inv p \<Longrightarrow> conn_inv (connectionOf sep cep p)"
  by (auto simp: parser_inv_def connectionOf_def getConnection_def Let_def split: option.split)

text \<open>When \<open>Parse\<close> returns, and what it leaves behind; there is no third outcome.\<close>

definition parse_accepts :: "bytes \<Rightarrow> conn \<Rightarrow> bool" where
  "parse_accepts r c \<longleftrightarrow> conn_accepts c (fst (scan r)) \<and> \<not> snd (scan r)"

lemma Parse_result:
  assumes "parser_inv p"
  shows "if parse_accepts r (connectionOf sep cep p)
    then \<exists>c'. Parse r sep cep p = Inr (EOF, p\<lparr> connections := (connections p)(ep_Port cep \<mapsto> c') \<rparr>) \<and>
           conn_assembled (connectionOf sep cep p) (fst (scan r)) c' \<and> conn_inv c'
    else Parse r sep cep p = Inl Panic"
  using parseLoop_result [OF connectionOf_inv [OF assms], of sep cep r]
    conn_assembled_inv [OF _ connectionOf_inv [OF assms]]
  by (auto simp: Parse_connection parse_accepts_def split: if_splits)

lemma Parse_inv:
  assumes "parser_inv p" "Parse r sep cep p = Inr (err, p')"
  shows "parser_inv p' \<and> err = EOF"
  using Parse_result [OF assms(1), of r sep cep] assms
  by (auto simp: parser_inv_def split: if_splits)

lemma Parse_panics: "parser_inv p \<Longrightarrow> Parse r sep cep p = Inl e \<Longrightarrow> e = Panic"
  using Parse_result [of p r sep cep] by (auto split: if_splits)

text \<open>A packet of whole frames and the packet after it may as well be one packet.\<close>

lemma Parse_append:
  assumes "list_all frame_valid fs" "encodeFrames fs = Inr bs" "ep_Port cep' = ep_Port cep"
  shows "Parse (bs @ s) sep cep p =
    (case Parse bs sep cep p of Inl e \<Rightarrow> Inl e | Inr (_, p1) \<Rightarrow> Parse s sep' cep' p1)"
proof (cases "parseLoop bs (connectionOf sep cep p)")
  case (Inr a)
  obtain e c' where a: "a = (e, c')" by fastforce
  let ?p = "p\<lparr> connections := (connections p)(ep_Port cep \<mapsto> c') \<rparr>"
  have "connectionOf sep' cep' ?p = c'"
    using assms(3) by (simp add: connectionOf_def getConnection_def)
  then show ?thesis
    using Inr a assms(3) parseLoop_append [OF assms(1,2), of s "connectionOf sep cep p"]
    by (cases "parseLoop s c'") (auto simp: Parse_connection)
qed (simp add: Parse_connection parseLoop_append [OF assms(1,2)])

end
