(* ===== verification/MyMessage.thy ===== *)
theory MyMessage
  imports Wire
begin

text \<open>
  \<open>mymessage.go\<close> (and its copy in \<open>rabbitmq/main.go\<close>): a message of an id and a start time, with the
  binary encoding of \<open>time.Time\<close> (\<open>MarshalBinary\<close> and \<open>UnmarshalBinary\<close> of the standard library, Go
  1.15) it is built on.
\<close>

section \<open>Binary marshalers\<close>

text \<open>
  The interfaces \<open>encoding.BinaryMarshaler\<close> and \<open>BinaryUnmarshaler\<close> and what they promise each other.
\<close>

locale binary_codec =
  fixes marshal :: "'t \<Rightarrow> 'e + bytes"
    and unmarshal :: "bytes \<Rightarrow> 'e + 't"
    and same :: "'t \<Rightarrow> 't \<Rightarrow> bool"
  assumes unmarshal_marshal: "marshal t = Inr bs \<Longrightarrow> \<exists>t'. unmarshal bs = Inr t' \<and> same t t'"
    and same_trans: "same t t' \<Longrightarrow> same u t' \<Longrightarrow> same t u"
begin

lemma marshal_injective: "marshal t = Inr bs \<Longrightarrow> marshal u = Inr bs \<Longrightarrow> same t u"
  using unmarshal_marshal [of t bs] unmarshal_marshal [of u bs] by (auto intro: same_trans)

lemma unmarshal_err_not_marshalled: "unmarshal bs = Inl e \<Longrightarrow> marshal t \<noteq> Inr bs"
  using unmarshal_marshal [of t bs] by auto

end

section \<open>Times\<close>

text \<open>
  A \<open>time.Time\<close> as its encoding sees it: seconds since year 1, nanoseconds, and its zone, \<open>None\<close> for
  UTC and otherwise the offset in seconds east.
\<close>

record btime =
  bt_sec :: u64
  bt_nsec :: u32
  bt_zone :: "int option"

datatype (plugins only: code size) time_error =
    FractionalMinute
  | UnexpectedOffset
  | NoData
  | UnsupportedVersion
  | InvalidLength
  | IndexOutOfRange

text \<open>The two octets of an \<open>int16\<close>.\<close>

definition putI16 :: "int \<Rightarrow> bytes" where
  "putI16 k = putU16 (of_int k)"

definition beI16 :: "bytes \<Rightarrow> int" where
  "beI16 b = sint (beU16 b)"

definition marshalOffset :: "btime \<Rightarrow> time_error + int" where
  "marshalOffset t =
     (case bt_zone t of
        None \<Rightarrow> Inr (- 1)
      | Some off \<Rightarrow>
          if off mod 60 \<noteq> 0 then Inl FractionalMinute
          else if off div 60 < - 32768 \<or> off div 60 = - 1 \<or> off div 60 > 32767 then Inl UnexpectedOffset
          else Inr (off div 60))"

definition marshalTime :: "btime \<Rightarrow> time_error + bytes" where
  "marshalTime t =
     (case marshalOffset t of
        Inl e \<Rightarrow> Inl e
      | Inr k \<Rightarrow> Inr (1 # putU64 (bt_sec t) @ putU32 (bt_nsec t) @ putI16 k))"

definition unmarshalTime :: "bytes \<Rightarrow> time_error + btime" where
  "unmarshalTime buf =
     (if buf = [] then Inl NoData
      else if buf ! 0 \<noteq> 1 then Inl UnsupportedVersion
      else if length buf \<noteq> 15 then Inl InvalidLength
      else Inr \<lparr> bt_sec = beU64 (take 8 (drop 1 buf)), bt_nsec = beU32 (take 4 (drop 9 buf)),
                 bt_zone = (let k = beI16 (drop 13 buf) in if k = - 1 then None else Some (k * 60)) \<rparr>)"

lemma beI16_putI16: "- 32768 \<le> k \<Longrightarrow> k \<le> 32767 \<Longrightarrow> beI16 (putI16 k) = k"
  by (simp add: beI16_def putI16_def signed_of_int signed_take_bit_int_eq_self)

lemma marshalOffset_zone:
  assumes "marshalOffset t = Inr k"
  shows "- 32768 \<le> k" "k \<le> 32767" "(if k = - 1 then None else Some (k * 60)) = bt_zone t"
  using assms by (auto simp: marshalOffset_def split: option.splits if_splits)

lemma length_marshalTime: "marshalTime t = Inr bs \<Longrightarrow> length bs = 15"
  by (auto simp: marshalTime_def putI16_def split: sum.splits)

interpretation time: binary_codec marshalTime unmarshalTime "(=)"
proof
  fix t :: btime and bs
  assume "marshalTime t = Inr bs"
  then obtain k where k: "marshalOffset t = Inr k"
    "bs = 1 # putU64 (bt_sec t) @ putU32 (bt_nsec t) @ putI16 k"
    by (auto simp: marshalTime_def split: sum.splits)
  have "length (putI16 k) = 2" by (simp add: putI16_def)
  then have "unmarshalTime bs = Inr t"
    using marshalOffset_zone [OF k(1)] by (simp add: k(2) unmarshalTime_def beI16_putI16 Let_def)
  then show "\<exists>t'. unmarshalTime bs = Inr t' \<and> t = t'" by simp
qed auto

section \<open>Messages\<close>

record myMessage =
  mm_id :: u32
  mm_start :: btime

definition newMyMessage :: "u32 \<Rightarrow> btime \<Rightarrow> myMessage" where
  "newMyMessage n now = \<lparr> mm_id = n, mm_start = now \<rparr>"

text \<open>
  \<open>buf\<close> has 4 octets more than the encoded time; \<open>copy\<close> fills what is behind the id.
\<close>

definition Marshal :: "myMessage \<Rightarrow> time_error + bytes" where
  "Marshal m =
     (case marshalTime (mm_start m) of
        Inl e \<Rightarrow> Inl e
      | Inr startbuf \<Rightarrow> Inr (putU32 (mm_id m) @ startbuf))"

text \<open>
  \<open>binary.BigEndian.Uint32(b)\<close> indexes \<open>b[3]\<close>: on a shorter body it panics.  The error of
  \<open>UnmarshalBinary\<close> is returned after the id has been set; \<open>Unmarshal\<close> gives the receiver and the error.
\<close>

definition Unmarshal :: "bytes \<Rightarrow> myMessage \<Rightarrow> time_error + time_error option \<times> myMessage" where
  "Unmarshal b m =
     (if length b < 4 then Inl IndexOutOfRange
      else
        (let m1 = m\<lparr> mm_id := beU32 (take 4 b) \<rparr> in
         case unmarshalTime (drop 4 b) of
           Inl e \<Rightarrow> Inr (Some e, m1)
         | Inr t \<Rightarrow> Inr (None, m1\<lparr> mm_start := t \<rparr>)))"

definition ID :: "myMessage \<Rightarrow> u32" where "ID m = mm_id m"
definition Start :: "myMessage \<Rightarrow> btime" where "Start m = mm_start m"

text \<open>\<open>var mymsg MyMessage; err := mymsg.Unmarshal(b)\<close>: a fresh message, or the error.\<close>

definition decodeMessage :: "bytes \<Rightarrow> time_error + myMessage" where
  "decodeMessage b =
     (case Unmarshal b \<lparr> mm_id = 0, mm_start = \<lparr> bt_sec = 0, bt_nsec = 0, bt_zone = None \<rparr> \<rparr> of
        Inl e \<Rightarrow> Inl e
      | Inr (Some e, m) \<Rightarrow> Inl e
      | Inr (None, m) \<Rightarrow> Inr m)"

lemma Unmarshal_Marshal:
  assumes "Marshal m = Inr bs"
  shows "Unmarshal bs m' = Inr (None, m)"
proof -
  obtain sb where sb: "marshalTime (mm_start m) = Inr sb" "bs = putU32 (mm_id m) @ sb"
    using assms by (auto simp: Marshal_def split: sum.splits)
  then have "unmarshalTime sb = Inr (mm_start m)" using time.unmarshal_marshal by auto
  then show ?thesis by (simp add: Unmarshal_def sb(2) Let_def)
qed

interpretation my_message: binary_codec Marshal decodeMessage "(=)"
  by unfold_locales (auto simp: decodeMessage_def Unmarshal_Marshal)

lemma Marshal_ok_iff:
  "(\<exists>bs. Marshal m = Inr bs) \<longleftrightarrow> (\<exists>k. marshalOffset (mm_start m) = Inr k)"
  by (auto simp: Marshal_def marshalTime_def split: sum.splits)

lemma Unmarshal_panics_iff: "Unmarshal b m = Inl e \<longleftrightarrow> length b < 4 \<and> e = IndexOutOfRange"
  by (auto simp: Unmarshal_def Let_def split: sum.splits)

end
