(* ===== verification/Sniffer.thy ===== *)
theory Sniffer
  imports Parser MyMessage
begin

text \<open>
  \<open>main.go\<close> of the sniffer: which end of a packet is the server, the parsing of a packet and of a
  capture file, what the application does with a message, and \<open>main\<close>.
\<close>

section \<open>Packets\<close>

text \<open>
  What \<open>main.go\<close> asks a \<open>gopacket.Packet\<close> for: the addresses of its IPv4 layer as text, the ports of its
  TCP layer, and the payload of its application layer, each of which may be absent; and its timestamp.
\<close>

record packet =
  pk_ip :: "(gostring \<times> gostring) option"
  pk_tcp :: "(u16 \<times> u16) option"
  pk_payload :: "bytes option"
  pk_time :: btime

definition isServerHost :: "gostring \<Rightarrow> bool" where
  "isServerHost host \<longleftrightarrow> host = ascii ''192.168.50.38''"

definition isServerPort :: "gostring \<Rightarrow> bool" where
  "isServerPort port \<longleftrightarrow> port = ascii ''5672''"

text \<open>The closures \<open>setHost\<close> and \<open>setIP\<close> assign to the variables \<open>server\<close> and \<open>client\<close>.\<close>

definition setHost :: "gostring \<times> gostring \<Rightarrow> endpoint \<times> endpoint \<Rightarrow> endpoint \<times> endpoint" where
  "setHost ip eps =
     (case (ip, eps) of ((src, dst), (server, client)) \<Rightarrow>
        if isServerHost src then (server\<lparr> ep_Host := src \<rparr>, client\<lparr> ep_Host := dst \<rparr>)
        else (server\<lparr> ep_Host := dst \<rparr>, client\<lparr> ep_Host := src \<rparr>))"

definition setIP :: "u16 \<times> u16 \<Rightarrow> endpoint \<times> endpoint \<Rightarrow> endpoint \<times> endpoint" where
  "setIP tcp eps =
     (case (tcp, eps) of ((src, dst), (server, client)) \<Rightarrow>
        (let srcPort = formatUint (ucast src); dstPort = formatUint (ucast dst) in
         if isServerPort srcPort then (server\<lparr> ep_Port := srcPort \<rparr>, client\<lparr> ep_Port := dstPort \<rparr>)
         else (server\<lparr> ep_Port := dstPort \<rparr>, client\<lparr> ep_Port := srcPort \<rparr>)))"

definition noEndpoint :: endpoint where
  "noEndpoint = \<lparr> ep_Host = [], ep_Port = [] \<rparr>"

text \<open>The server and the client of a packet.\<close>

definition endpoints :: "packet \<Rightarrow> endpoint \<times> endpoint" where
  "endpoints pk =
     (let eps = (noEndpoint, noEndpoint);
          eps1 = (case pk_ip pk of None \<Rightarrow> eps | Some ip \<Rightarrow> setHost ip eps)
      in case pk_tcp pk of None \<Rightarrow> eps1 | Some tcp \<Rightarrow> setIP tcp eps1)"

text \<open>\<open>printPacketInfo\<close> ignores the error of \<open>Parse\<close>; the rest of it is tracing.\<close>

definition printPacketInfo :: "packet \<Rightarrow> parser \<Rightarrow> go_error + parser" where
  "printPacketInfo pk p =
     (case endpoints pk of (server, client) \<Rightarrow>
        case pk_payload pk of
          None \<Rightarrow> Inr p
        | Some payload \<Rightarrow> map_sum (\<lambda>e. e) snd (Parse payload server client p))"

fun parsePackets :: "packet list \<Rightarrow> parser \<Rightarrow> go_error + parser" where
  "parsePackets [] p = Inr p"
| "parsePackets (pk # pks) p =
     (case printPacketInfo pk p of Inl e \<Rightarrow> Inl e | Inr p' \<Rightarrow> parsePackets pks p')"

text \<open>
  How a program ends before its time: \<open>log.Fatal\<close> with a text and an error, or a call that panics or does not
  come back.
\<close>

datatype 'e exit = Fatal gostring 'e | Crash go_error

text \<open>
  \<open>currentPcap\<close> is the global channel, \<open>None\<close> while it is \<open>nil\<close>: a send into a \<open>nil\<close> channel blocks for
  ever.  \<open>openOffline\<close> is \<open>pcap.OpenOffline\<close> with the packets that the library reads from the file.
\<close>

definition parsePcap ::
  "(gostring \<Rightarrow> 'e + packet list) \<Rightarrow> gostring list option \<Rightarrow> gostring \<Rightarrow> bool \<Rightarrow>
     'e exit + parser option \<times> gostring list option" where
  "parsePcap openOffline currentPcap file chMsg =
     (if file = [] then Inr (None, currentPcap)
      else case currentPcap of
             None \<Rightarrow> Inl (Crash Diverged)
           | Some q \<Rightarrow>
               (case openOffline file of
                  Inl err \<Rightarrow> Inl (Fatal (ascii ''open offline failed'') err)
                | Inr packets \<Rightarrow>
                    (case parsePackets packets (NewParser chMsg) of
                       Inl e \<Rightarrow> Inl (Crash e)
                     | Inr p \<Rightarrow> Inr (Some p, Some (q @ [file])))))"

text \<open>\<open>var currentPcap chan string\<close>, which nothing in the program assigns.\<close>

definition currentPcap_init :: "gostring list option" where
  "currentPcap_init = None"

text \<open>
  The captures of \<open>main\<close>, one after the other; \<open>absPath\<close> is \<open>filepath.Abs\<close>.  After them \<open>main\<close> waits for an
  interrupt, cancels the context and returns.
\<close>

definition main_capture ::
  "(gostring \<Rightarrow> 'e + gostring) \<Rightarrow> (gostring \<Rightarrow> 'e + packet list) \<Rightarrow> gostring \<Rightarrow> gostring list option \<Rightarrow>
     'e exit + gostring list option" where
  "main_capture absPath openOffline pcap q =
     (if pcap = [] then Inr q
      else case absPath pcap of
             Inl err \<Rightarrow> Inl (Fatal [] err)
           | Inr file \<Rightarrow> map_sum (\<lambda>e. e) snd (parsePcap openOffline q file True))"

definition main_captures ::
  "(gostring \<Rightarrow> 'e + gostring) \<Rightarrow> (gostring \<Rightarrow> 'e + packet list) \<Rightarrow> gostring \<Rightarrow> gostring \<Rightarrow>
     'e exit + gostring list option" where
  "main_captures absPath openOffline clientPcap serverPcap =
     (case main_capture absPath openOffline clientPcap currentPcap_init of
        Inl e \<Rightarrow> Inl e
      | Inr q \<Rightarrow> main_capture absPath openOffline serverPcap q)"

lemma parsePackets_result:
  "parser_inv p \<Longrightarrow> parsePackets pks p = Inl Panic \<or> (\<exists>p'. parsePackets pks p = Inr p' \<and> parser_inv p')"
proof (induction pks arbitrary: p)
  case (Cons pk pks)
  have "printPacketInfo pk p = Inl Panic \<or> (\<exists>p'. printPacketInfo pk p = Inr p' \<and> parser_inv p')"
  proof (cases "pk_payload pk")
    case None
    then show ?thesis using Cons.prems by (simp add: printPacketInfo_def case_prod_unfold)
  next
    case (Some r)
    let ?P = "Parse r (fst (endpoints pk)) (snd (endpoints pk)) p"
    have "printPacketInfo pk p = map_sum (\<lambda>e. e) snd ?P"
      using Some by (simp add: printPacketInfo_def case_prod_unfold)
    then show ?thesis
      using Parse_inv [OF Cons.prems] Parse_panics [OF Cons.prems] by (cases ?P) auto
  qed
  then show ?case using Cons.IH by (elim disjE exE conjE) simp_all
qed simp

text \<open>
  No capture is ever parsed: \<open>currentPcap\<close> is never made, so with a file given for the client or the
  server \<open>main\<close> blocks for ever or fails before, whatever the packets are.
\<close>

lemma captures_never_parsed:
  assumes "\<And>name. absPath name \<noteq> Inr []"
  shows "main_captures absPath openOffline clientPcap serverPcap =
     (let pcap = (if clientPcap = [] then serverPcap else clientPcap) in
      if pcap = [] then Inr None
      else case absPath pcap of Inl err \<Rightarrow> Inl (Fatal [] err) | Inr file \<Rightarrow> Inl (Crash Diverged))"
  using assms by (auto simp: main_captures_def main_capture_def parsePcap_def currentPcap_init_def split: sum.split)

section \<open>Messages of the application\<close>

text \<open>What \<open>handleMsg\<close> prints for a message.\<close>

record report =
  rp_pcap :: gostring
  rp_serverIP :: gostring
  rp_serverPort :: gostring
  rp_clientIP :: gostring
  rp_clientPort :: gostring
  rp_raw :: bytes
  rp_id :: u32
  rp_start :: btime
  rp_packetTime :: btime

definition zeroBtime :: btime where
  "zeroBtime = \<lparr> bt_sec = 0, bt_nsec = 0, bt_zone = None \<rparr>"

definition zeroMessage :: myMessage where
  "zeroMessage = \<lparr> mm_id = 0, mm_start = zeroBtime \<rparr>"

text \<open>
  A body of less than four octets panics in \<open>Unmarshal\<close>.  \<open>now\<close> is the value of the global
  \<open>currentPacketTimestamp\<close> when the message is printed.
\<close>

definition handleMessage :: "gostring \<Rightarrow> btime \<Rightarrow> wrappedMessage \<Rightarrow> go_error + time_error + report" where
  "handleMessage pcap now msg =
     (case Unmarshal (wm_Body msg) zeroMessage of
        Inl _ \<Rightarrow> Inl Panic
      | Inr (Some err, _) \<Rightarrow> Inr (Inl err)
      | Inr (None, m) \<Rightarrow> Inr (Inr
          \<lparr> rp_pcap = pcap,
            rp_serverIP = ep_Host (ServerEP (wm_ConnectionInfo msg)),
            rp_serverPort = ep_Port (ServerEP (wm_ConnectionInfo msg)),
            rp_clientIP = ep_Host (ClientEP (wm_ConnectionInfo msg)),
            rp_clientPort = ep_Port (ClientEP (wm_ConnectionInfo msg)),
            rp_raw = wm_Body msg, rp_id = mm_id m, rp_start = mm_start m,
            rp_packetTime = now \<rparr>))"

text \<open>
  The loop of \<open>handleMsg\<close>: the events are the three channels it selects from, a message with the value of
  \<open>currentPacketTimestamp\<close> at that moment.
\<close>

datatype (plugins only: code size) handle_event =
    NewPcap gostring | NewMessage btime wrappedMessage | HandleDone

fun handleMsg :: "handle_event list \<Rightarrow> gostring \<Rightarrow> (time_error + report) list \<Rightarrow>
    go_error + (time_error + report) list" where
  "handleMsg [] pcap out = Inr out"
| "handleMsg (NewPcap cpap # evs) pcap out = handleMsg evs cpap out"
| "handleMsg (NewMessage now msg # evs) pcap out =
     (case handleMessage pcap now msg of Inl e \<Rightarrow> Inl e | Inr r \<Rightarrow> handleMsg evs pcap (out @ [r]))"
| "handleMsg (HandleDone # evs) pcap out = Inr out"

text \<open>A body of less than four octets ends the sniffer.\<close>

lemma short_body_panics:
  "handleMsg evs pcap out = Inl e \<longleftrightarrow>
     e = Panic \<and> (\<exists>now msg. NewMessage now msg \<in> set (takeWhile (\<lambda>ev. ev \<noteq> HandleDone) evs) \<and> length (wm_Body msg) < 4)"
proof (induction evs pcap out rule: handleMsg.induct)
  case (3 now msg evs pcap out)
  have "handleMessage pcap now msg = Inl e' \<longleftrightarrow> e' = Panic \<and> length (wm_Body msg) < 4" for e'
    by (cases "unmarshalTime (drop 4 (wm_Body msg))") (auto simp: handleMessage_def Unmarshal_def Let_def)
  then show ?case using 3 by (cases "handleMessage pcap now msg") auto
qed auto

section \<open>Both directions of a conversation\<close>

text \<open>\<open>reversed pk\<close>: the packet of the other direction.\<close>

definition reversed :: "packet \<Rightarrow> packet" where
  "reversed pk = pk\<lparr> pk_ip := map_option (\<lambda>(a, b). (b, a)) (pk_ip pk),
                     pk_tcp := map_option (\<lambda>(a, b). (b, a)) (pk_tcp pk) \<rparr>"

text \<open>Exactly one of the two ends is the server's.\<close>

definition oneServer :: "packet \<Rightarrow> bool" where
  "oneServer pk \<longleftrightarrow>
     (case pk_ip pk of None \<Rightarrow> True | Some (a, b) \<Rightarrow> isServerHost a \<noteq> isServerHost b) \<and>
     (case pk_tcp pk of None \<Rightarrow> True
      | Some (a, b) \<Rightarrow> isServerPort (formatUint (ucast a)) \<noteq> isServerPort (formatUint (ucast b)))"

lemma endpoints_reversed_eq: "oneServer pk \<Longrightarrow> endpoints (reversed pk) = endpoints pk"
  by (cases "pk_ip pk"; cases "pk_tcp pk")
    (auto simp: endpoints_def reversed_def oneServer_def setHost_def setIP_def Let_def)

lemma formatUint_5672: "formatUint n = ascii ''5672'' \<longleftrightarrow> n = 5672"
proof -
  have "formatUint 5672 = ascii ''5672''" by (simp add: formatUint_def formatNat.simps)
  then show ?thesis by (metis formatUint_inj)
qed

end
