(* ===== verification/Running.thy ===== *)
theory Running
  imports Conservation Sniffer
begin

text \<open>
  The sniffer running: the thread that parses a capture and the goroutines of all channels of all connections,
  interleaved in any way (\<open>sniff_step\<close>).  Every run projects to runs of the single channels
  (\<open>run_projects\<close>), so that what holds of a channel holds of the whole; parsing never gets stuck on frames
  that are accepted in some order (\<open>accepting_reads\<close>).
\<close>

section \<open>Channels and connections at work\<close>

text \<open>What holds of a channel with the number \<open>n\<close> of a connection, from its creation on.\<close>

definition chan_ok :: "connectionInfo \<Rightarrow> u16 \<Rightarrow> channel \<Rightarrow> bool" where
  "chan_ok ci n ch \<longleftrightarrow> channel_inv ch \<and> \<not> confirming ch \<and> owned ch \<and>
     refOf ch = \<lparr> ref_connection = Some ci, ref_sink = True, ref_id = n \<rparr>"

lemma refOf_newChannel [simp]: "refOf (newChannel ci snk n) = \<lparr> ref_connection = ci, ref_sink = snk, ref_id = n \<rparr>"
  by (simp add: refOf_def newChannel_def)

lemma chan_ok_new [simp]: "chan_ok ci n (newChannel (Some ci) True n)"
  by (simp add: chan_ok_def)

lemma chan_ok_frames:
  assumes "chan_ok ci n ch" "recvFrames fs ch = Inr ch'"
  shows "chan_ok ci n ch'"
  using assms(1) recvFrames_result(2) [OF _ _ assms(2)] run_conserves [OF recvFrames_run [OF assms(2)], where info = ci]
  by (simp add: chan_ok_def assembled_def)

lemma chan_ok_step:
  assumes "chan_ok ci n ch" "channel_step ch w ch'"
  shows "chan_ok ci n ch' \<and> assemblyOf ch' = assemblyOf ch \<and>
    (\<forall>m. w = Some m \<longrightarrow> wm_ConnectionInfo m = ci \<and> wm_ChannelID m = n)"
proof -
  obtain leaver where st: "steps_to ch leaver ch'" "owned ch'"
    "mset (case_option [] (\<lambda>x. [x]) w) + image_mset (wrap ci n) (allPending ch') = image_mset (wrap ci n) (allPending ch)"
    using step_conserves [OF assms(2), where info = ci] assms(1) by (auto simp: chan_ok_def)
  have "wm_ConnectionInfo m = ci \<and> wm_ChannelID m = n" if "w = Some m" for m
  proof -
    have "m \<in># image_mset (wrap ci n) (allPending ch)" using that by (simp add: st(3) [symmetric])
    then show ?thesis by (auto simp: wrap_def)
  qed
  then show ?thesis using steps_toD(1-4) [OF st(1)] st(2) assms(1) by (simp add: chan_ok_def)
qed

definition conn_ok :: "conn \<Rightarrow> bool" where
  "conn_ok c \<longleftrightarrow> chMsgSet c \<and> channels c 0 = None \<and> finite (dom (channels c)) \<and>
     (\<forall>n. chan_ok (info c) n (channelOf n c))"

lemma info_New [simp]: "info (NewConnection sep cep snk) = \<lparr> ServerEP = sep, ClientEP = cep \<rparr>"
  by (simp add: NewConnection_def)

lemma conn_ok_new [simp]: "conn_ok (NewConnection sep cep True)"
  by (simp add: conn_ok_def) (simp add: NewConnection_def)

lemma demux_new_channels:
  "demux f c = Inr c' \<Longrightarrow> channels c 0 = None \<Longrightarrow> channels c' 0 = None \<and>
     (finite (dom (channels c)) \<longrightarrow> finite (dom (channels c')))"
  by (cases "frame_channel f")
    (auto simp: demux_def dispatchN_channelOf setChannel_def println_def split: if_splits)

lemma conn_ok_demux:
  assumes "conn_ok c" "demux f c = Inr c'"
  shows "conn_ok c' \<and> info c' = info c"
proof -
  have c': "info c' = info c" "chMsgSet c' = chMsgSet c"
    using demux_channel [OF assms(2), of 1] by simp_all
  have "chan_ok (info c) n (channelOf n c')" for n
  proof (cases "n = 0")
    case True
    then have "channelOf n c' = newChannel (Some (info c)) True 0"
      using demux_new_channels [OF assms(2)] assms(1) c' by (simp add: channelOf_def conn_ok_def)
    then show ?thesis using True by simp
  next
    case False
    then show ?thesis
      using demux_channel [OF assms(2)] chan_ok_frames assms(1) unfolding conn_ok_def by blast
  qed
  then show ?thesis using demux_new_channels [OF assms(2)] assms(1) c' by (simp add: conn_ok_def)
qed

lemma channelOf_setChannel [simp]:
  "channelOf k (setChannel n ch c) = (if k = n then ch else channelOf k c)"
  "info (setChannel n ch c) = info c" "chMsgSet (setChannel n ch c) = chMsgSet c"
  "channels (setChannel n ch c) = (channels c)(n \<mapsto> ch)"
  by (simp_all add: channelOf_def setChannel_def split: option.split)

lemma conn_ok_step:
  assumes "conn_ok c" "channels c n = Some ch" "channel_step ch w ch'"
  shows "conn_ok (setChannel n ch' c) \<and> n \<noteq> 0 \<and> chan_ok (info c) n ch"
proof -
  have ch: "channelOf n c = ch" using assms(2) by (simp add: channelOf_def)
  then have ok: "chan_ok (info c) n ch" using assms(1) by (auto simp: conn_ok_def)
  then have "chan_ok (info c) n ch'" using chan_ok_step [OF ok assms(3)] by blast
  moreover have "n \<noteq> 0" using assms(1,2) by (auto simp: conn_ok_def)
  ultimately show ?thesis
    using assms(1) ok unfolding conn_ok_def
    by simp
qed

section \<open>The sniffer as a step relation\<close>

text \<open>
  What is still to come of a capture: of each packet its timestamp, which \<open>printPacketInfo\<close> puts into the global
  \<open>currentPacketTimestamp\<close>, and, if it has a payload, server, client, the frames that are left of it, and whether
  reading on after them panics.  \<open>inputs\<close> makes this from the packets: reading frames (\<open>scan\<close>) and handing them on
  are interleaved in \<open>Parse\<close>, but what is read does not depend on the connection (\<open>parseLoop_scan\<close>).
\<close>

datatype input = Stamp btime | Payload endpoint endpoint "frame list" bool

definition inputOf :: "packet \<Rightarrow> input list" where
  "inputOf pk =
     Stamp (pk_time pk) #
     (case pk_payload pk of
        None \<Rightarrow> []
      | Some payload \<Rightarrow> [Payload (fst (endpoints pk)) (snd (endpoints pk)) (fst (scan payload)) (snd (scan payload))])"

definition inputs :: "packet list \<Rightarrow> input list" where
  "inputs pks = concat (map inputOf pks)"

definition setConnection :: "gostring \<Rightarrow> conn \<Rightarrow> parser \<Rightarrow> parser" where
  "setConnection port c p = p\<lparr> connections := (connections p)(port \<mapsto> c) \<rparr>"

text \<open>
  One step: the beginning of a packet, \<open>demux\<close> of its next frame, its end, or a step of a goroutine of some channel.  The
  label is what is sent into \<open>chMsg\<close>.  Where \<open>demux\<close> panics, or reading does (\<open>parse_panics\<close>), the program
  ends: there is no such step here.
\<close>

inductive sniff_step ::
  "parser \<Rightarrow> input list \<Rightarrow> wrappedMessage option \<Rightarrow> parser \<Rightarrow> input list \<Rightarrow> bool" where
  read_frame: "demux f (connectionOf sep cep p) = Inr c \<Longrightarrow>
    sniff_step p (Payload sep cep (f # fs) bad # pks) None (setConnection (ep_Port cep) c p) (Payload sep cep fs bad # pks)"
| next_packet: "sniff_step p (Stamp now # pks) None p pks"
| end_packet: "sniff_step p (Payload sep cep [] False # pks) None
    (setConnection (ep_Port cep) (connectionOf sep cep p) p) pks"
| goroutine: "connections p port = Some c \<Longrightarrow> channels c n = Some ch \<Longrightarrow> channel_step ch w ch' \<Longrightarrow>
    sniff_step p pks w (setConnection port (setChannel n ch' c) p) pks"

fun parse_panics :: "parser \<Rightarrow> input list \<Rightarrow> bool" where
  "parse_panics p (Payload sep cep [] bad # pks) \<longleftrightarrow> bad"
| "parse_panics p (Payload sep cep (f # fs) bad # pks) \<longleftrightarrow> demux f (connectionOf sep cep p) = Inl Panic"
| "parse_panics p pks \<longleftrightarrow> False"

inductive sniff_run ::
  "parser \<Rightarrow> input list \<Rightarrow> wrappedMessage list \<Rightarrow> parser \<Rightarrow> input list \<Rightarrow> bool" where
  sniff_run_nil: "sniff_run p pks [] p pks"
| sniff_run_step: "sniff_run p pks ws p1 pks1 \<Longrightarrow> sniff_step p1 pks1 w p2 pks2 \<Longrightarrow>
    sniff_run p pks (ws @ case_option [] (\<lambda>x. [x]) w) p2 pks2"

section \<open>Projection to the channels\<close>

definition parser_ok :: "parser \<Rightarrow> bool" where
  "parser_ok p \<longleftrightarrow> parserChMsg p \<and> finite (dom (connections p)) \<and>
     (\<forall>port c. connections p port = Some c \<longrightarrow> conn_ok c \<and> ep_Port (ClientEP (info c)) = port)"

lemma parser_ok_new [simp]: "parser_ok (NewParser True)"
  by (simp add: parser_ok_def NewParser_def)

lemma parser_okD:
  "parser_ok p \<Longrightarrow> connections p port = Some c \<Longrightarrow> conn_ok c"
  "parser_ok p \<Longrightarrow> connections p port = Some c \<Longrightarrow> ep_Port (ClientEP (info c)) = port"
  by (simp_all add: parser_ok_def)

lemma parser_ok_set:
  "parser_ok p \<Longrightarrow> conn_ok c \<Longrightarrow> ep_Port (ClientEP (info c)) = port \<Longrightarrow> parser_ok (setConnection port c p)"
  by (simp add: parser_ok_def setConnection_def)

lemma connectionOf_simp:
  "parser_ok p \<Longrightarrow> connectionOf sep cep p =
     (case connections p (ep_Port cep) of None \<Rightarrow> NewConnection sep cep True | Some c \<Rightarrow> c)"
  by (simp add: connectionOf_def getConnection_def parser_ok_def Let_def split: option.split)

lemma connectionOf_ok:
  "parser_ok p \<Longrightarrow> conn_ok (connectionOf sep cep p) \<and> ep_Port (ClientEP (info (connectionOf sep cep p))) = ep_Port cep"
  using parser_okD [of p "ep_Port cep"] by (simp add: connectionOf_simp split: option.split)

text \<open>The endpoints of the connection that a port has or will have: those of its first packet.\<close>

fun firstInfo :: "gostring \<Rightarrow> input list \<Rightarrow> connectionInfo" where
  "firstInfo port [] = \<lparr> ServerEP = noEndpoint, ClientEP = noEndpoint \<rparr>"
| "firstInfo port (Stamp now # pks) = firstInfo port pks"
| "firstInfo port (Payload sep cep fs bad # pks) =
     (if ep_Port cep = port then \<lparr> ServerEP = sep, ClientEP = cep \<rparr> else firstInfo port pks)"

definition infoOf :: "parser \<Rightarrow> input list \<Rightarrow> gostring \<Rightarrow> connectionInfo" where
  "infoOf p pks port =
     (case connections p port of
        Some c \<Rightarrow> info c
      | None \<Rightarrow> firstInfo port pks)"

text \<open>The channel \<open>n\<close> of that connection, and the frames still to come for it.\<close>

definition chanAt :: "parser \<Rightarrow> input list \<Rightarrow> gostring \<Rightarrow> u16 \<Rightarrow> channel" where
  "chanAt p pks port n =
     (case connections p port of
        Some c \<Rightarrow> channelOf n c
      | None \<Rightarrow> newChannel (Some (infoOf p pks port)) True n)"

fun payloadOf :: "gostring \<Rightarrow> input \<Rightarrow> frame list" where
  "payloadOf port (Stamp now) = []"
| "payloadOf port (Payload sep cep fs bad) = (if ep_Port cep = port then fs else [])"

definition framesAt :: "input list \<Rightarrow> gostring \<Rightarrow> u16 \<Rightarrow> frame list" where
  "framesAt pks port n =
     framesOf n (concat (map (payloadOf port) pks))"

definition sentFrom :: "gostring \<Rightarrow> u16 \<Rightarrow> wrappedMessage list \<Rightarrow> wrappedMessage list" where
  "sentFrom port n ws =
     filter (\<lambda>w. ep_Port (ClientEP (wm_ConnectionInfo w)) = port \<and> wm_ChannelID w = n) ws"

lemma sentFrom_append [simp]: "sentFrom port n (ws @ vs) = sentFrom port n ws @ sentFrom port n vs"
  by (simp add: sentFrom_def)

lemma sentFrom_nil [simp]: "sentFrom port n [] = []"
  by (simp add: sentFrom_def)

lemma framesAt_Cons:
  "framesAt (Payload sep cep fs bad # pks) port n = (if ep_Port cep = port then framesOf n fs else []) @ framesAt pks port n"
  by (simp add: framesAt_def framesOf_def)

lemma Stamp_Cons [simp]:
  "framesAt (Stamp now # pks) port n = framesAt pks port n"
  "infoOf p (Stamp now # pks) port = infoOf p pks port"
  "chanAt p (Stamp now # pks) port n = chanAt p pks port n"
  by (simp_all add: framesAt_def infoOf_def chanAt_def split: option.split)

lemma infoOf_Cons: "infoOf p (Payload sep cep fs bad # pks) port =
    (if connections p port = None \<and> ep_Port cep = port then \<lparr> ServerEP = sep, ClientEP = cep \<rparr> else infoOf p pks port)"
  by (simp add: infoOf_def split: option.split)

lemma at_setConnection [simp]:
  "connections (setConnection q c p) = (connections p)(q \<mapsto> c)"
  "infoOf (setConnection q c p) pks port = (if port = q then info c else infoOf p pks port)"
  by (simp_all add: infoOf_def setConnection_def)

lemma chanAt_set [simp]:
  "chanAt (setConnection q c p) pks q n = channelOf n c"
  "port \<noteq> q \<Longrightarrow> infoOf p pks' port = infoOf p pks port \<Longrightarrow> chanAt (setConnection q c p) pks' port n = chanAt p pks port n"
  by (simp_all add: chanAt_def split: option.split)

lemma chanAt_other [simp]: "port \<noteq> ep_Port cep \<Longrightarrow> chanAt p (Payload sep cep fs bad # pks) port n = chanAt p pks port n"
  by (simp add: chanAt_def infoOf_Cons split: option.split)

lemma chan_ok_at: "parser_ok p \<Longrightarrow> chan_ok (infoOf p pks port) n (chanAt p pks port n)"
  using parser_okD(1) [of p port]
  by (auto simp: chanAt_def infoOf_def conn_ok_def split: option.split)

text \<open>
  A step keeps the invariant and who owns a port; of every channel but channel 0 it is a run of that channel
  on the frame that was read, and what it sends is what that channel sends.
\<close>

definition projects :: "parser \<Rightarrow> input list \<Rightarrow> wrappedMessage list \<Rightarrow> parser \<Rightarrow> input list \<Rightarrow> bool" where
  "projects p pks ws p' pks' \<longleftrightarrow> parser_ok p' \<and> infoOf p' pks' = infoOf p pks \<and>
     (\<forall>w \<in> set ws. wm_ChannelID w \<noteq> 0) \<and>
     (\<forall>port n. n \<noteq> 0 \<longrightarrow>
        (\<exists>fs. framesAt pks port n = fs @ framesAt pks' port n \<and>
           channel_run (chanAt p pks port n) fs (sentFrom port n ws) (chanAt p' pks' port n)))"

lemma projectsD:
  assumes "projects p pks ws p' pks'"
  shows "parser_ok p'" "infoOf p' pks' = infoOf p pks" "\<forall>w \<in> set ws. wm_ChannelID w \<noteq> 0"
    "n \<noteq> 0 \<Longrightarrow> \<exists>fs. framesAt pks port n = fs @ framesAt pks' port n \<and>
       channel_run (chanAt p pks port n) fs (sentFrom port n ws) (chanAt p' pks' port n)"
  using assms unfolding projects_def by blast+

lemma projects_refl: "parser_ok p \<Longrightarrow> projects p pks [] p pks"
  unfolding projects_def by (intro conjI allI impI exI [of _ "[]"]) (simp_all add: channel_run_nil)

lemma projects_trans:
  assumes "projects p pks ws p1 pks1" "projects p1 pks1 vs p2 pks2"
  shows "projects p pks (ws @ vs) p2 pks2"
proof -
  have "\<exists>fs. framesAt pks port n = fs @ framesAt pks2 port n \<and>
      channel_run (chanAt p pks port n) fs (sentFrom port n (ws @ vs)) (chanAt p2 pks2 port n)" if nz: "n \<noteq> 0" for port n
  proof -
    obtain fs gs where fs: "framesAt pks port n = fs @ framesAt pks1 port n"
        "channel_run (chanAt p pks port n) fs (sentFrom port n ws) (chanAt p1 pks1 port n)"
      and gs: "framesAt pks1 port n = gs @ framesAt pks2 port n"
        "channel_run (chanAt p1 pks1 port n) gs (sentFrom port n vs) (chanAt p2 pks2 port n)"
      using projectsD(4) [OF assms(1) nz] projectsD(4) [OF assms(2) nz] by blast
    have "framesAt pks port n = (fs @ gs) @ framesAt pks2 port n" by (simp only: fs(1) gs(1) append.assoc)
    then show ?thesis
      unfolding sentFrom_append by (intro exI [of _ "fs @ gs"] conjI run_append [OF fs(2) gs(2)])
  qed
  then show ?thesis
    unfolding projects_def using projectsD(1-3) [OF assms(1)] projectsD(1-3) [OF assms(2)] by auto
qed

lemma step_projects:
  assumes "sniff_step p pks w p' pks'" "parser_ok p"
  shows "projects p pks (case_option [] (\<lambda>x. [x]) w) p' pks'"
  using assms(1)
proof cases
  case (read_frame f sep cep c fs bad rest)
  let ?c = "connectionOf sep cep p"
  have c: "conn_ok ?c" "ep_Port (ClientEP (info ?c)) = ep_Port cep" using connectionOf_ok [OF assms(2)] by simp_all
  have c': "conn_ok c" "info c = info ?c" using conn_ok_demux [OF c(1) read_frame(5)] by simp_all
  have ci: "infoOf p pks (ep_Port cep) = info ?c"
    using assms(2) read_frame(1) by (simp add: infoOf_def connectionOf_simp split: option.split)
  have at: "chanAt p pks (ep_Port cep) n = channelOf n ?c" for n
    using assms(2) ci by (simp add: chanAt_def connectionOf_simp split: option.split)
  have "infoOf p' pks' port = infoOf p pks port" for port
    using ci c'(2) read_frame(1,3,4) by (cases "port = ep_Port cep") (simp_all add: infoOf_Cons)
  moreover have "\<exists>gs. framesAt pks port n = gs @ framesAt pks' port n \<and>
      channel_run (chanAt p pks port n) gs (sentFrom port n []) (chanAt p' pks' port n)"
    if "n \<noteq> 0" for port n
  proof (cases "port = ep_Port cep")
    case True
    have "channel_run (channelOf n ?c) (framesOf n [f]) [] (channelOf n c)"
      using demux_channel [OF read_frame(5) that] recvFrames_run by blast
    then show ?thesis
      using True at read_frame(1,3,4)
      by (intro exI [of _ "framesOf n [f]"]) (simp add: framesAt_Cons, simp add: framesOf_def)
  next
    case False
    then show ?thesis
      using read_frame(1,3,4)
      by (intro exI [of _ "[]"])
        (simp add: framesAt_Cons infoOf_Cons channel_run_nil)
  qed
  ultimately show ?thesis
    using read_frame(2,3) parser_ok_set [OF assms(2) c'(1)] c(2) c'(2) unfolding projects_def by auto
next
  case (next_packet now)
  then show ?thesis
    using assms(2) unfolding projects_def by (auto intro!: ext exI [of _ "[]"] simp: channel_run_nil)
next
  case (end_packet sep cep)
  let ?c = "connectionOf sep cep p"
  have c: "conn_ok ?c" "ep_Port (ClientEP (info ?c)) = ep_Port cep" using connectionOf_ok [OF assms(2)] by simp_all
  have ci: "infoOf p pks (ep_Port cep) = info ?c"
    using assms(2) end_packet(1) by (simp add: infoOf_def connectionOf_simp split: option.split)
  have at: "chanAt p pks (ep_Port cep) n = channelOf n ?c" for n
    using assms(2) ci by (simp add: chanAt_def connectionOf_simp split: option.split)
  have i: "infoOf p' pks' port = infoOf p pks port" for port
    using ci end_packet by (cases "port = ep_Port cep") (simp_all add: infoOf_Cons)
  moreover have "chanAt p' pks' port n = chanAt p pks port n" for port n
    using at [of n] i [of port] end_packet
    by (cases "port = ep_Port cep") simp_all
  moreover have "framesAt pks port n = framesAt pks' port n" for port n
    using end_packet(1) by (simp add: framesAt_Cons framesOf_def)
  ultimately show ?thesis
    using end_packet(2,3) parser_ok_set [OF assms(2) c] unfolding projects_def by (auto simp: channel_run_nil)
next
  case (goroutine port c n ch ch')
  have c: "conn_ok c" "ep_Port (ClientEP (info c)) = port" using parser_okD [OF assms(2) goroutine(3)] by simp_all
  note ok = conn_ok_step [OF c(1) goroutine(4,5)]
  have ch: "channelOf n c = ch" using goroutine(4) by (simp add: channelOf_def)
  have w: "wm_ConnectionInfo m = info c \<and> wm_ChannelID m = n" if "w = Some m" for m
    using chan_ok_step [OF conjunct2 [OF conjunct2 [OF ok]] goroutine(5)] that by blast
  have "infoOf p' pks' q = infoOf p pks q" for q
    using goroutine(1-3) by (simp add: infoOf_def)
  moreover have "channel_run (chanAt p pks q k) [] (sentFrom q k (case_option [] (\<lambda>x. [x]) w)) (chanAt p' pks' q k)" for q k
  proof (cases "q = port \<and> k = n")
    case True
    then have "sentFrom q k (case_option [] (\<lambda>x. [x]) w) = case_option [] (\<lambda>x. [x]) w"
      using w c(2) by (cases w) (simp_all add: sentFrom_def)
    then show ?thesis
      using True goroutine ch channel_run_go [OF goroutine(5) channel_run_nil]
      by (simp add: chanAt_def)
  next
    case False
    then have "sentFrom q k (case_option [] (\<lambda>x. [x]) w) = []"
      using w c(2) by (cases w) (auto simp: sentFrom_def)
    moreover have "chanAt p' pks' q k = chanAt p pks q k"
      using False goroutine(1-3) by (cases "q = port") (auto simp: chanAt_def infoOf_def split: option.split)
    ultimately show ?thesis by (simp add: channel_run_nil)
  qed
  moreover have "wm_ChannelID m \<noteq> 0" if "w = Some m" for m using w [OF that] ok by simp
  ultimately show ?thesis
    using goroutine(1,2) parser_ok_set [OF assms(2) conjunct1 [OF ok]] c(2) unfolding projects_def by auto
qed

lemma run_projects:
  "sniff_run p pks ws p' pks' \<Longrightarrow> parser_ok p \<Longrightarrow> projects p pks ws p' pks'"
  by (induction rule: sniff_run.induct) (blast intro: projects_refl projects_trans step_projects dest: projectsD(1))+

section \<open>Parsing alone is a run\<close>

lemma sniff_run_trans:
  "sniff_run p1 pks1 vs p2 pks2 \<Longrightarrow> sniff_run p pks ws p1 pks1 \<Longrightarrow> sniff_run p pks (ws @ vs) p2 pks2"
  by (induction rule: sniff_run.induct) (auto simp flip: append_assoc intro: sniff_run.intros)

lemma connectionOf_set [simp]: "connectionOf sep cep (setConnection (ep_Port cep) c p) = c"
  by (simp add: connectionOf_def getConnection_def)

lemma setConnection_twice [simp]: "setConnection q c (setConnection q c' p) = setConnection q c p"
  by (simp add: setConnection_def)

lemma sniff_run_first:
  assumes "sniff_step p pks None p1 pks1" "sniff_run p1 pks1 [] p2 pks2"
  shows "sniff_run p pks [] p2 pks2"
  using sniff_run_trans [OF assms(2), of p pks "[]"] sniff_run_step [OF sniff_run_nil assms(1)] by simp

lemma demuxAll_sniff_run:
  "demuxAll fs (connectionOf sep cep p) = Inr c \<Longrightarrow>
     sniff_run p (Payload sep cep fs False # pks) [] (setConnection (ep_Port cep) c p) pks"
proof (induction fs arbitrary: p)
  case Nil
  then have "connectionOf sep cep p = c" by simp
  with sniff_run_first [OF end_packet sniff_run_nil, of p sep cep pks] show ?case by simp
next
  case (Cons f fs)
  then obtain c1 where c1: "demux f (connectionOf sep cep p) = Inr c1" "demuxAll fs c1 = Inr c"
    by (auto split: sum.splits)
  then have "sniff_run (setConnection (ep_Port cep) c1 p) (Payload sep cep fs False # pks) []
      (setConnection (ep_Port cep) c (setConnection (ep_Port cep) c1 p)) pks"
    by (intro Cons.IH) simp
  then show ?case using sniff_run_first [OF read_frame [OF c1(1)]] by simp
qed

lemma parsePackets_sniff_run:
  "parsePackets pks p = Inr p' \<Longrightarrow> sniff_run p (inputs pks) [] p' []"
proof (induction pks arbitrary: p)
  case Nil
  then show ?case by (simp add: inputs_def sniff_run_nil)
next
  case (Cons pk pks)
  then obtain p1 where p1: "printPacketInfo pk p = Inr p1" "sniff_run p1 (inputs pks) [] p' []"
    by (auto split: sum.splits)
  show ?case
  proof (cases "pk_payload pk")
    case None
    then have "inputs (pk # pks) = Stamp (pk_time pk) # inputs pks" "p1 = p"
      using p1(1) by (simp_all add: inputs_def inputOf_def printPacketInfo_def case_prod_unfold)
    then show ?thesis using sniff_run_first [OF next_packet] p1(2) by simp
  next
    case (Some r)
    let ?sep = "fst (endpoints pk)" and ?cep = "snd (endpoints pk)"
    obtain c where c: "demuxAll (fst (scan r)) (connectionOf ?sep ?cep p) = Inr c"
      "p1 = setConnection (ep_Port ?cep) c p" "\<not> snd (scan r)"
      using p1(1) Some
      by (auto simp: printPacketInfo_def case_prod_unfold Parse_connection parseLoop_scan setConnection_def
          split: sum.splits if_splits)
    have "inputs (pk # pks) = Stamp (pk_time pk) # Payload ?sep ?cep (fst (scan r)) False # inputs pks"
      using Some c(3) by (simp add: inputs_def inputOf_def)
    moreover have "sniff_run p (Payload ?sep ?cep (fst (scan r)) False # inputs pks) [] p' []"
      using sniff_run_trans [OF p1(2)] demuxAll_sniff_run [OF c(1)] c(2) by fastforce
    ultimately show ?thesis using sniff_run_first [OF next_packet] by simp
  qed
qed

section \<open>Frames that are accepted in one order are accepted in any\<close>

text \<open>No protocol header, and reading does not panic.\<close>

fun wholesome :: "input \<Rightarrow> bool" where
  "wholesome (Stamp now) = True"
| "wholesome (Payload sep cep fs bad) = (ProtocolHeader \<notin> set fs \<and> \<not> bad)"

definition accepting :: "parser \<Rightarrow> input list \<Rightarrow> bool" where
  "accepting p pks \<longleftrightarrow>
     list_all wholesome pks \<and>
     (\<forall>port n. n \<noteq> 0 \<longrightarrow> acceptable (assemblyOf (chanAt p pks port n)) (framesAt pks port n))"

lemma run_assembles:
  "channel_run ch fs ws ch' \<Longrightarrow> chan_ok ci n ch \<Longrightarrow>
     chan_ok ci n ch' \<and> acceptable (assemblyOf ch) fs \<and> assemblyOf ch' = snd (assembleAll (assemblyOf ch) fs)"
proof (induction rule: channel_run.induct)
  case (channel_run_frame f ch ch1 fs ws ch2)
  have "recvFrames [f] ch = Inr ch1" using channel_run_frame.hyps(1) by simp
  then have "chan_ok ci n ch1 \<and> acceptable (assemblyOf ch) [f] \<and> assembled ch [f] ch1"
    using channel_run_frame.prems chan_ok_frames recvFrames_result unfolding chan_ok_def by blast
  then show ?case using channel_run_frame.IH by (simp add: assembled_def case_prod_unfold)
next
  case (channel_run_go ch w ch1 fs ws ch2)
  then show ?case using chan_ok_step by metis
qed simp

lemma acceptable_append:
  "acceptable a (fs @ gs) \<longleftrightarrow> acceptable a fs \<and> acceptable (snd (assembleAll a fs)) gs"
  by (induction fs arbitrary: a) (auto simp: case_prod_unfold)

text \<open>A packet is readable if reading no field of it panics.\<close>

definition readable :: "packet \<Rightarrow> bool" where
  "readable pk \<longleftrightarrow> (\<forall>payload. pk_payload pk = Some payload \<longrightarrow> \<not> snd (scan payload))"

lemma inputs_wholesome: "list_all wholesome (inputs pks) \<longleftrightarrow> list_all readable pks"
  by (induction pks) (auto simp: inputs_def inputOf_def readable_def scan_not_header split: option.split)

text \<open>What a run has read was wholesome and accepted.\<close>

lemma wholesome_run:
  "sniff_run p pks ws p' pks' \<Longrightarrow> list_all wholesome pks' \<Longrightarrow> list_all wholesome pks"
proof (induction rule: sniff_run.induct)
  case (sniff_run_step p pks ws p1 pks1 w p2 pks2)
  have "list_all wholesome pks1"
    using sniff_run_step.hyps(2) sniff_run_step.prems by (cases rule: sniff_step.cases) (auto simp: demux_def)
  then show ?case using sniff_run_step.IH by simp
qed

lemma run_accepted:
  assumes "sniff_run p pks ws p' []" "parser_ok p"
  shows "accepting p pks"
proof -
  have pr: "projects p pks ws p' []" using run_projects [OF assms] .
  have "acceptable (assemblyOf (chanAt p pks port n)) (framesAt pks port n)" if nz: "n \<noteq> 0" for port n
  proof -
    obtain fs where fs: "framesAt pks port n = fs @ framesAt [] port n"
      "channel_run (chanAt p pks port n) fs (sentFrom port n ws) (chanAt p' [] port n)"
      using projectsD(4) [OF pr nz] by blast
    have "framesAt [] port n = []" by (simp add: framesAt_def framesOf_def)
    then show ?thesis using fs(1) run_assembles [OF fs(2) chan_ok_at [OF assms(2)]] by simp
  qed
  moreover have "list_all wholesome pks" using wholesome_run [OF assms(1)] by simp
  ultimately show ?thesis by (simp add: accepting_def)
qed

lemma accepting_inputs:
  assumes "parsePackets pks p = Inr p'" "parser_ok p"
  shows "accepting p (inputs pks)"
  using run_accepted [OF parsePackets_sniff_run [OF assms(1)] assms(2)] .

lemma projects_accepting:
  assumes "projects p pks ws p' pks'" "parser_ok p" "accepting p pks"
    and "list_all wholesome pks'"
  shows "accepting p' pks'"
proof -
  have "acceptable (assemblyOf (chanAt p' pks' port n)) (framesAt pks' port n)" if nz: "n \<noteq> 0" for port n
  proof -
    obtain fs where fs: "framesAt pks port n = fs @ framesAt pks' port n"
      "channel_run (chanAt p pks port n) fs (sentFrom port n ws) (chanAt p' pks' port n)"
      using projectsD(4) [OF assms(1) nz] by blast
    have "acceptable (assemblyOf (chanAt p pks port n)) (fs @ framesAt pks' port n)"
      using assms(3) nz unfolding accepting_def fs(1) [symmetric] by blast
    then show ?thesis
      using run_assembles [OF fs(2) chan_ok_at [OF assms(2)]] by (simp add: acceptable_append)
  qed
  then show ?thesis using assms(4) by (simp add: accepting_def)
qed

lemma step_accepting:
  assumes "sniff_step p pks w p' pks'" "parser_ok p" "accepting p pks"
  shows "accepting p' pks'"
proof -
  have "list_all wholesome pks" using assms(3) by (simp add: accepting_def)
  then have "list_all wholesome pks'"
    by (cases rule: sniff_step.cases [OF assms(1)]) auto
  then show ?thesis using projects_accepting [OF step_projects [OF assms(1,2)] assms(2,3)] by blast
qed

lemma run_accepting:
  "sniff_run p pks ws p' pks' \<Longrightarrow> parser_ok p \<Longrightarrow> accepting p pks \<Longrightarrow> accepting p' pks'"
proof (induction rule: sniff_run.induct)
  case (sniff_run_step p pks ws p1 pks1 w p2 pks2)
  then show ?case using step_accepting projectsD(1) [OF run_projects] by blast
qed

text \<open>So reading never gets stuck, and goroutines only with nothing under way.\<close>

lemma accepting_payload:
  assumes "accepting p (Payload sep cep (fs @ gs) bad # pks)" "parser_ok p"
  shows "\<exists>c'. demuxAll fs (connectionOf sep cep p) = Inr c'"
proof -
  let ?c = "connectionOf sep cep p" and ?pks = "Payload sep cep (fs @ gs) bad # pks"
  have c: "conn_ok ?c" "ep_Port (ClientEP (info ?c)) = ep_Port cep" using connectionOf_ok [OF assms(2)] by simp_all
  then have inv: "conn_inv ?c" by (simp add: conn_inv_def conn_ok_def chan_ok_def)
  have at: "chanAt p ?pks (ep_Port cep) n = channelOf n ?c" for n
    using assms(2) by (simp add: chanAt_def connectionOf_simp infoOf_Cons split: option.split)
  have "acceptable (assemblyOf (channelOf n ?c)) (framesOf n fs)" if "n \<noteq> 0" for n
  proof -
    have "framesAt ?pks (ep_Port cep) n = framesOf n fs @ framesOf n gs @ framesAt pks (ep_Port cep) n"
      by (simp add: framesAt_Cons framesOf_def)
    then show ?thesis
      using assms(1) that at [of n] unfolding accepting_def by (metis acceptable_append)
  qed
  moreover have "ProtocolHeader \<notin> set fs" using assms(1) by (simp add: accepting_def)
  ultimately have "conn_accepts ?c fs" by (simp add: conn_accepts_def)
  then show ?thesis using demuxAll_result [OF inv, of fs] by auto
qed

lemma accepting_reads:
  assumes "accepting p pks" "parser_ok p" "pks \<noteq> []"
  shows "\<exists>p' pks'. sniff_step p pks None p' pks'"
proof -
  obtain i rest where i: "pks = i # rest" using assms(3) by (cases pks) auto
  show ?thesis
  proof (cases i)
    case (Stamp now)
    then show ?thesis using i next_packet by blast
  next
    case (Payload sep cep fs bad)
    show ?thesis
    proof (cases fs)
      case Nil
      have "\<not> bad" using assms(1) i Payload by (simp add: accepting_def)
      then have "pks = Payload sep cep [] False # rest" using i Payload Nil by simp
      then show ?thesis using end_packet by blast
    next
      case (Cons f fs')
      then have "accepting p (Payload sep cep ([f] @ fs') bad # rest)" using assms(1) i Payload by simp
      then obtain c' where "demux f (connectionOf sep cep p) = Inr c'"
        using accepting_payload [OF _ assms(2)] by (fastforce split: sum.splits)
      then show ?thesis using read_frame i Payload Cons by blast
    qed
  qed
qed

text \<open>Without that, reading goes on or panics.\<close>

lemma reads_or_panics:
  assumes "parser_ok p" "pks \<noteq> []"
  shows "(\<exists>p' pks'. sniff_step p pks None p' pks') \<or> parse_panics p pks"
proof -
  obtain i rest where i: "pks = i # rest" using assms(2) by (cases pks) auto
  show ?thesis
  proof (cases i)
    case (Stamp now)
    then show ?thesis using i next_packet by blast
  next
    case (Payload sep cep fs bad)
    show ?thesis
    proof (cases fs)
      case Nil
      show ?thesis
      proof (cases bad)
        case True
        then show ?thesis using i Payload Nil by simp
      next
        case False
        then have "pks = Payload sep cep [] False # rest" using i Payload Nil by simp
        then show ?thesis using end_packet by blast
      qed
    next
      case (Cons f fs')
      have "conn_inv (connectionOf sep cep p)"
        using connectionOf_ok [OF assms(1)] by (simp add: conn_inv_def conn_ok_def chan_ok_def)
      then have "demux f (connectionOf sep cep p) = Inl Panic \<or> (\<exists>c. demux f (connectionOf sep cep p) = Inr c)"
        using demux_panics by (cases "demux f (connectionOf sep cep p)") auto
      then show ?thesis using read_frame i Payload Cons by fastforce
    qed
  qed
qed

text \<open>A capture is parsed to its end if its frames are accepted and reading no field of it panics.\<close>

lemma accepting_parses:
  assumes "accepting p (inputs pks)" "parser_ok p"
  shows "\<exists>p'. parsePackets pks p = Inr p'"
  using assms
proof (induction pks arbitrary: p)
  case (Cons pk pks)
  show ?case
  proof (cases "pk_payload pk")
    case None
    then have "inputs (pk # pks) = Stamp (pk_time pk) # inputs pks" by (simp add: inputs_def inputOf_def)
    then have "accepting p (inputs pks)" using Cons.prems(1) by (simp add: accepting_def)
    then show ?thesis
      using None Cons.IH [of p] Cons.prems(2) by (simp add: printPacketInfo_def case_prod_unfold)
  next
    case (Some r)
    let ?sep = "fst (endpoints pk)" and ?cep = "snd (endpoints pk)"
    have ok: "\<not> snd (scan r)"
      using Cons.prems(1) Some by (simp add: accepting_def inputs_def inputOf_def)
    then have i: "inputs (pk # pks) = Stamp (pk_time pk) # Payload ?sep ?cep (fst (scan r)) False # inputs pks"
      using Some by (simp add: inputs_def inputOf_def)
    then have acc: "accepting p (Payload ?sep ?cep (fst (scan r) @ []) False # inputs pks)"
      using Cons.prems(1) by (simp add: accepting_def)
    then obtain c' where c': "demuxAll (fst (scan r)) (connectionOf ?sep ?cep p) = Inr c'"
      using accepting_payload Cons.prems(2) by blast
    let ?p = "setConnection (ep_Port ?cep) c' p"
    have run: "sniff_run p (Payload ?sep ?cep (fst (scan r)) False # inputs pks) [] ?p (inputs pks)"
      using demuxAll_sniff_run [OF c'] .
    have "printPacketInfo pk p = Inr ?p"
      using Some c' ok
      by (simp add: printPacketInfo_def case_prod_unfold Parse_connection parseLoop_scan setConnection_def)
    moreover have "accepting ?p (inputs pks)" "parser_ok ?p"
      using run_accepting [OF run Cons.prems(2)] acc projectsD(1) [OF run_projects [OF run Cons.prems(2)]] by simp_all
    ultimately show ?thesis using Cons.IH [of ?p] by simp
  qed
qed simp

text \<open>Packets that carry encoded frames.\<close>

definition carries :: "packet \<Rightarrow> frame list \<Rightarrow> bool" where
  "carries pk fs \<longleftrightarrow> list_all frame_valid fs \<and> (\<exists>bs. encodeFrames fs = Inr bs \<and> pk_payload pk = Some bs)"

lemma carries_input:
  assumes "carries pk fs"
  shows "inputOf pk = [Stamp (pk_time pk), Payload (fst (endpoints pk)) (snd (endpoints pk)) (map frame_canon fs) False]"
    "readable pk"
proof -
  obtain bs where bs: "list_all frame_valid fs" "encodeFrames fs = Inr bs" "pk_payload pk = Some bs"
    using assms by (auto simp: carries_def)
  then have "scan bs = (map frame_canon fs, False)" using scan_frames [OF bs(1,2), of "[]"] by simp
  then show "inputOf pk = [Stamp (pk_time pk), Payload (fst (endpoints pk)) (snd (endpoints pk)) (map frame_canon fs) False]"
    "readable pk" using bs(3) by (simp_all add: inputOf_def readable_def)
qed

lemma inputs_Cons: "inputs (pk # pks) = inputOf pk @ inputs pks"
  by (simp add: inputs_def)

lemma inputs_nil [simp]: "inputs [] = []" "framesAt [] port n = []"
  by (simp_all add: inputs_def framesAt_def framesOf_def)

text \<open>On a fresh parser, what matters is the frames of each channel.\<close>

lemma accepting_New:
  "accepting (NewParser True) (inputs pks) \<longleftrightarrow> list_all readable pks \<and>
     (\<forall>port n. n \<noteq> 0 \<longrightarrow> acceptable WantMethod (framesAt (inputs pks) port n))"
  using inputs_wholesome by (simp add: accepting_def chanAt_def NewParser_def)

lemma stuck_drained:
  assumes "parser_ok p" "\<And>w p'. \<not> sniff_step p pks w p' pks" "n \<noteq> 0"
  shows "allPending (chanAt p pks port n) = {#}"
proof (cases "connections p port")
  case None
  then show ?thesis by (simp add: chanAt_def)
next
  case (Some c)
  show ?thesis
  proof (cases "channels c n")
    case None
    then show ?thesis using Some parser_okD(1) [OF assms(1) Some] by (simp add: chanAt_def channelOf_def conn_ok_def)
  next
    case ch: (Some ch)
    have ok: "chan_ok (infoOf p pks port) n ch"
      using chan_ok_at [OF assms(1), of pks port n] Some ch by (simp add: chanAt_def channelOf_def)
    have "\<not> channel_step ch w ch'" for w ch'
      using goroutine [OF Some ch] assms(2) by blast
    then have "allPending ch = {#}"
      using stuck_empty [of ch "infoOf p pks port"] ok by (simp add: chan_ok_def)
    then show ?thesis using Some ch by (simp add: chanAt_def channelOf_def)
  qed
qed

end
