(* ===== verification/Captured.thy ===== *)
theory Captured
  imports Running
begin

text \<open>
  What a run of the parser over one capture, with the goroutines of its channels, has sent into \<open>chMsg\<close>, at any
  time (\<open>run_at_any_time\<close>) and when nothing can go on (\<open>over_delivers\<close>), in terms of the specification of
  reassembly; and that every run comes to an end (\<open>run_can_end\<close>).
\<close>

section \<open>What a capture delivers\<close>

definition messagesAt :: "packet list \<Rightarrow> gostring \<Rightarrow> u16 \<Rightarrow> message list" where
  "messagesAt pks port n = fst (assembleAll WantMethod (framesAt (inputs pks) port n))"

definition refAt :: "packet list \<Rightarrow> gostring \<Rightarrow> u16 \<Rightarrow> channelRef" where
  "refAt pks port n =
     \<lparr> ref_connection = Some (infoOf (NewParser True) (inputs pks) port), ref_sink = True, ref_id = n \<rparr>"

definition wrapAt :: "packet list \<Rightarrow> gostring \<Rightarrow> u16 \<Rightarrow> channelRef delivery \<Rightarrow> wrappedMessage" where
  "wrapAt pks port n = wrap (infoOf (NewParser True) (inputs pks) port) n"

lemma chanAt_New: "chanAt (NewParser True) (inputs pks) port n =
    newChannel (Some (infoOf (NewParser True) (inputs pks) port)) True n"
  by (simp add: chanAt_def NewParser_def)

lemma inTransit_drained:
  assumes "channel_inv ch" "allPending ch = {#}"
  shows "inTransit t ch = []"
proof (cases "chans (consumers ch) t")
  case (Some i)
  then have "i < length (buffers (consumers ch))"
    using assms(1) consumers_invD(1) by (auto simp: channel_inv_def goroutines_ok_def)
  then have "mset (pending i ch) \<subseteq># allPending ch"
    unfolding allPending_def by (subst sum.remove [of _ i]) auto
  then have "mset (pending i ch) = {#}" using assms(2) by simp
  then show ?thesis using Some by (simp add: inTransit_def)
qed (simp add: inTransit_def)

section \<open>At any time\<close>

text \<open>The frames read so far are those of some messages; what has been sent and what is under way are their deliveries.\<close>

lemma run_so_far:
  assumes "sniff_run (NewParser True) (inputs pks) ws p rest" "n \<noteq> 0"
  shows "\<exists>ms ns. messagesAt pks port n = ms @ ns \<and> (rest = [] \<longrightarrow> ns = []) \<and>
    mset (sentFrom port n ws) + image_mset (wrapAt pks port n) (allPending (chanAt p rest port n)) =
        mset (map (wrapAt pks port n) (deliveriesOf (refAt pks port n) ms)) \<and>
    (list_all (\<lambda>m. \<not> cancels_tag t m) ms \<longrightarrow>
      channel_inv (chanAt p rest port n) \<and>
      sentTo t (sentFrom port n ws) @ map (wrapAt pks port n) (inTransit t (chanAt p rest port n)) =
      map (wrapAt pks port n) (deliveriesFor t (refAt pks port n) ms))"
proof -
  let ?ci = "infoOf (NewParser True) (inputs pks) port" and ?ch = "chanAt p rest port n"
  obtain fs where fs: "framesAt (inputs pks) port n = fs @ framesAt rest port n"
    "channel_run (newChannel (Some ?ci) True n) fs (sentFrom port n ws) ?ch"
    using projectsD(4) [OF run_projects [OF assms(1) parser_ok_new] assms(2), of port] by (auto simp: chanAt_New)
  let ?ms = "fst (assembleAll WantMethod fs)"
  obtain ns where ns: "messagesAt pks port n = ?ms @ ns" "rest = [] \<longrightarrow> ns = []"
    unfolding messagesAt_def fs(1) assembleAll_append by (cases rest) (auto simp: Let_def case_prod_unfold)
  moreover have "mset (sentFrom port n ws) + image_mset (wrapAt pks port n) (allPending ?ch) =
      mset (map (wrapAt pks port n) (deliveriesOf (refAt pks port n) ?ms))"
    using run_conserves [OF fs(2), where info = ?ci] by (simp add: wrapAt_def refAt_def)
  moreover have "list_all (\<lambda>m. \<not> cancels_tag t m) ?ms \<longrightarrow> channel_inv ?ch \<and>
      sentTo t (sentFrom port n ws) @ map (wrapAt pks port n) (inTransit t ?ch) =
      map (wrapAt pks port n) (deliveriesFor t (refAt pks port n) ?ms)"
    using run_fifo [OF fs(2) channel_inv_new transit_inv_new, where info = ?ci] by (simp add: wrapAt_def refAt_def)
  ultimately show ?thesis by blast
qed

lemma run_at_any_time:
  assumes "sniff_run (NewParser True) (inputs pks) (hs @ qs) p rest" "n \<noteq> 0"
  shows "mset (sentFrom port n hs) \<subseteq>#
      mset (map (wrapAt pks port n) (deliveriesOf (refAt pks port n) (messagesAt pks port n)))"
    "list_all (\<lambda>m. \<not> cancels_tag t m) (messagesAt pks port n) \<Longrightarrow>
      prefix (sentTo t (sentFrom port n hs))
        (map (wrapAt pks port n) (deliveriesFor t (refAt pks port n) (messagesAt pks port n)))"
proof -
  let ?w = "wrapAt pks port n" and ?r = "refAt pks port n" and ?ch = "chanAt p rest port n"
  obtain ms ns where ms: "messagesAt pks port n = ms @ ns"
    "mset (sentFrom port n (hs @ qs)) + image_mset ?w (allPending ?ch) = mset (map ?w (deliveriesOf ?r ms))"
    "list_all (\<lambda>m. \<not> cancels_tag t m) ms \<longrightarrow>
      sentTo t (sentFrom port n (hs @ qs)) @ map ?w (inTransit t ?ch) = map ?w (deliveriesFor t ?r ms)"
    using run_so_far [OF assms] by blast
  have "mset (sentFrom port n hs) \<subseteq># mset (map ?w (deliveriesOf ?r ms))"
    unfolding ms(2) [symmetric] by (simp add: add.assoc)
  also have "\<dots> \<subseteq># mset (map ?w (deliveriesOf ?r (messagesAt pks port n)))"
    by (simp add: ms(1) deliveriesOf_append)
  finally show "mset (sentFrom port n hs) \<subseteq># mset (map ?w (deliveriesOf ?r (messagesAt pks port n)))" .
  assume "list_all (\<lambda>m. \<not> cancels_tag t m) (messagesAt pks port n)"
  then have "prefix (sentTo t (sentFrom port n hs)) (map ?w (deliveriesFor t ?r ms))"
    using ms(3) by (simp add: ms(1) sentTo_append) (metis append.assoc prefixI)
  then show "prefix (sentTo t (sentFrom port n hs)) (map ?w (deliveriesFor t ?r (messagesAt pks port n)))"
    by (auto simp: ms(1) deliveriesFor_append prefix_def)
qed

lemma run_channel: "sniff_run (NewParser True) (inputs pks) ws p rest \<Longrightarrow> w \<in> set ws \<Longrightarrow> wm_ChannelID w \<noteq> 0"
  using projectsD(3) [OF run_projects [OF _ parser_ok_new]] by blast

lemma run_delivers:
  assumes "sniff_run (NewParser True) (inputs pks) ws p rest" "w \<in> set ws"
  shows "\<exists>port n m. n \<noteq> 0 \<and> m \<in> set (messagesAt pks port n) \<and> isDelivery m \<and>
    w = wrapAt pks port n (newDelivery (refAt pks port n) m)"
proof -
  let ?port = "ep_Port (ClientEP (wm_ConnectionInfo w))" and ?n = "wm_ChannelID w"
  have n: "?n \<noteq> 0" using run_channel [OF assms] .
  have "w \<in># mset (sentFrom ?port ?n ws)" using assms(2) by (simp add: sentFrom_def)
  then have "w \<in># mset (map (wrapAt pks ?port ?n) (deliveriesOf (refAt pks ?port ?n) (messagesAt pks ?port ?n)))"
    using run_at_any_time(1) [of pks ws "[]", OF _ n] assms(1) by (simp del: mset_map set_mset_mset) (rule mset_subset_eqD)
  then show ?thesis using n by (auto simp: deliveriesOf_def)
qed

section \<open>At the end\<close>

lemma run_at_end:
  assumes "sniff_run (NewParser True) (inputs pks) ws p []" "n \<noteq> 0" "allPending (chanAt p [] port n) = {#}"
  shows "mset (sentFrom port n ws) =
      mset (map (wrapAt pks port n) (deliveriesOf (refAt pks port n) (messagesAt pks port n)))"
    "list_all (\<lambda>m. \<not> cancels_tag t m) (messagesAt pks port n) \<Longrightarrow>
      sentTo t (sentFrom port n ws) =
        map (wrapAt pks port n) (deliveriesFor t (refAt pks port n) (messagesAt pks port n))"
proof -
  let ?w = "wrapAt pks port n" and ?r = "refAt pks port n" and ?ch = "chanAt p [] port n"
  obtain ms where ms: "messagesAt pks port n = ms"
    "mset (sentFrom port n ws) + image_mset ?w (allPending ?ch) = mset (map ?w (deliveriesOf ?r ms))"
    "list_all (\<lambda>m. \<not> cancels_tag t m) ms \<longrightarrow> channel_inv ?ch \<and>
      sentTo t (sentFrom port n ws) @ map ?w (inTransit t ?ch) = map ?w (deliveriesFor t ?r ms)"
    using run_so_far [OF assms(1,2), of port t] by auto
  then show "mset (sentFrom port n ws) = mset (map ?w (deliveriesOf ?r (messagesAt pks port n)))"
    using assms(3) by simp
  show "sentTo t (sentFrom port n ws) = map ?w (deliveriesFor t ?r (messagesAt pks port n))"
    if "list_all (\<lambda>m. \<not> cancels_tag t m) (messagesAt pks port n)"
    using ms that inTransit_drained [OF _ assms(3)] by simp
qed

text \<open>No delivery is too short for \<open>handleMsg\<close>.\<close>

definition decodable_bodies :: "packet list \<Rightarrow> bool" where
  "decodable_bodies pks \<longleftrightarrow>
     (\<forall>port n. n \<noteq> 0 \<longrightarrow> (\<forall>m \<in> set (messagesAt pks port n). isDelivery m \<longrightarrow> 4 \<le> length (snd (getContent m))))"

lemma handleMessage_long: "4 \<le> length (wm_Body w) \<Longrightarrow> \<exists>r. handleMessage pcap now w = Inr r"
  using Unmarshal_panics_iff [of "wm_Body w" zeroMessage]
  by (auto simp: handleMessage_def not_less [symmetric] split: sum.split option.split)

lemma run_long:
  assumes "sniff_run (NewParser True) (inputs pks) ws p rest" "decodable_bodies pks" "w \<in> set ws"
  shows "4 \<le> length (wm_Body w)"
proof -
  obtain port n m where m: "n \<noteq> 0" "m \<in> set (messagesAt pks port n)" "isDelivery m"
    "w = wrapAt pks port n (newDelivery (refAt pks port n) m)"
    using run_delivers [OF assms(1,3)] by blast
  then have "wm_Body w = snd (getContent m)" by (metis newDelivery_Body wrapAt_def wrap_eq_newDelivery(2))
  then show ?thesis using m assms(2) unfolding decodable_bodies_def by auto
qed

lemma run_decodable:
  assumes "sniff_run (NewParser True) (inputs pks) ws p rest" "decodable_bodies pks" "w \<in> set ws"
  shows "\<exists>r. handleMessage pcap now w = Inr r"
  using handleMessage_long [OF run_long [OF assms]] .

section \<open>Every run comes to an end\<close>

definition conn_measure :: "conn \<Rightarrow> nat" where
  "conn_measure c = (\<Sum>n \<in> dom (channels c). channel_measure (the (channels c n)))"

definition parser_measure :: "parser \<Rightarrow> nat" where
  "parser_measure p = (\<Sum>port \<in> dom (connections p). conn_measure (the (connections p port)))"

lemma sum_dom_update:
  assumes "finite (dom m)" "m k = Some x"
  shows "(\<Sum>i \<in> dom (m(k \<mapsto> y)). f (the ((m(k \<mapsto> y)) i))) + f x = (\<Sum>i \<in> dom m. f (the (m i))) + (f y :: nat)"
proof -
  have d: "dom (m(k \<mapsto> y)) = insert k (dom m - {k})" "dom m = insert k (dom m - {k})"
    using assms(2) by auto
  have "(\<Sum>i \<in> dom m - {k}. f (the ((m(k \<mapsto> y)) i))) = (\<Sum>i \<in> dom m - {k}. f (the (m i)))"
    by (intro sum.cong) auto
  moreover have "(\<Sum>i \<in> dom m. f (the (m i))) = f x + (\<Sum>i \<in> dom m - {k}. f (the (m i)))"
    using assms d(2) by (subst sum.remove [of _ k]) auto
  moreover have "(\<Sum>i \<in> insert k (dom m - {k}). f (the ((m(k \<mapsto> y)) i))) =
      f y + (\<Sum>i \<in> dom m - {k}. f (the ((m(k \<mapsto> y)) i)))"
    using assms(1) by (subst sum.insert) auto
  ultimately show ?thesis unfolding d(1) by linarith
qed

lemma goroutine_decreases:
  assumes "parser_ok p" "connections p port = Some c" "channels c n = Some ch" "channel_step ch w ch'"
  shows "parser_measure (setConnection port (setChannel n ch' c) p) < parser_measure p"
proof -
  have c: "conn_ok c" using parser_okD(1) [OF assms(1,2)] .
  then have "channel_inv ch" using conn_ok_step [OF c assms(3,4)] by (simp add: chan_ok_def)
  then have "channel_measure ch' < channel_measure ch" using channel_step_decreases assms(4) by blast
  moreover have "conn_measure (setChannel n ch' c) + channel_measure ch = conn_measure c + channel_measure ch'"
    unfolding conn_measure_def channelOf_setChannel using c assms(3) by (intro sum_dom_update) (simp_all add: conn_ok_def)
  moreover have "parser_measure (setConnection port (setChannel n ch' c) p) + conn_measure c =
      parser_measure p + conn_measure (setChannel n ch' c)"
    unfolding parser_measure_def at_setConnection using assms(1,2) by (intro sum_dom_update) (simp_all add: parser_ok_def)
  ultimately show ?thesis by linarith
qed

fun stepsLeft :: "input \<Rightarrow> nat" where
  "stepsLeft (Stamp now) = 1"
| "stepsLeft (Payload sep cep fs bad) = Suc (length fs)"

definition input_measure :: "input list \<Rightarrow> nat" where
  "input_measure pks = sum_list (map stepsLeft pks)"

lemma sniff_step_decreases:
  assumes "sniff_step p pks w p' pks'" "parser_ok p"
  shows "(input_measure pks' < input_measure pks \<and> w = None) \<or>
    (pks' = pks \<and> parser_measure p' < parser_measure p)"
  using assms(1) by cases (auto simp: input_measure_def goroutine_decreases [OF assms(2)])

text \<open>Nothing can go on: no frame can be handed on and no goroutine has anything left to do.\<close>

definition run_over :: "parser \<Rightarrow> input list \<Rightarrow> bool" where
  "run_over p rest \<longleftrightarrow> (\<forall>w p' rest'. \<not> sniff_step p rest w p' rest')"

lemma run_can_end:
  assumes "sniff_run p0 pks ws p rest" "parser_ok p0"
  shows "\<exists>vs p' rest'. sniff_run p0 pks (ws @ vs) p' rest' \<and> run_over p' rest'"
proof -
  have "\<forall>p rest ws. x = (p, rest) \<and> sniff_run p0 pks ws p rest \<longrightarrow>
      (\<exists>vs p' rest'. sniff_run p0 pks (ws @ vs) p' rest' \<and> run_over p' rest')" for x
  proof (induction x rule: wf_induct_rule [OF wf_measures [of "[\<lambda>(p, rest). input_measure rest, \<lambda>(p, rest). parser_measure p]"]])
    case (1 x)
    show ?case
    proof (intro allI impI, elim conjE)
      fix p rest ws
      assume x: "x = (p, rest)" and run: "sniff_run p0 pks ws p rest"
      show "\<exists>vs p' rest'. sniff_run p0 pks (ws @ vs) p' rest' \<and> run_over p' rest'"
      proof (cases "run_over p rest")
        case True
        then show ?thesis using run by (metis append_Nil2)
      next
        case False
        then obtain w p1 rest1 where st: "sniff_step p rest w p1 rest1" by (auto simp: run_over_def)
        have "((p1, rest1), x) \<in> measures [\<lambda>(p, rest). input_measure rest, \<lambda>(p, rest). parser_measure p]"
          using sniff_step_decreases [OF st projectsD(1) [OF run_projects [OF run assms(2)]]] x by auto
        from "1.IH" [OF this] sniff_run_step [OF run st] show ?thesis by (metis append.assoc)
      qed
    qed
  qed
  then show ?thesis using assms(1) by blast
qed

text \<open>A capture that is parsed is read, and then its goroutines go on until nothing is under way.\<close>

lemma run_stuck:
  assumes "sniff_run (NewParser True) (inputs pks) ws p rest"
    and "\<And>w p'. \<not> sniff_step p rest w p' rest" "n \<noteq> 0"
  shows "allPending (chanAt p rest port n) = {#}"
  using stuck_drained [OF projectsD(1) [OF run_projects [OF assms(1) parser_ok_new]] assms(2,3)] .

lemma over_delivers:
  assumes "parsePackets pks (NewParser True) = Inr p0"
    and "sniff_run (NewParser True) (inputs pks) ws p rest" "run_over p rest" "n \<noteq> 0"
  shows "rest = []"
    and "mset (sentFrom port n ws) =
      mset (map (wrapAt pks port n) (deliveriesOf (refAt pks port n) (messagesAt pks port n)))"
    and "list_all (\<lambda>m. \<not> cancels_tag t m) (messagesAt pks port n) \<Longrightarrow>
      sentTo t (sentFrom port n ws) =
        map (wrapAt pks port n) (deliveriesFor t (refAt pks port n) (messagesAt pks port n))"
proof -
  have "accepting p rest" using run_accepting [OF assms(2) parser_ok_new accepting_inputs [OF assms(1) parser_ok_new]] .
  moreover have "parser_ok p" using projectsD(1) [OF run_projects [OF assms(2) parser_ok_new]] .
  ultimately show rest: "rest = []" using accepting_reads assms(3) unfolding run_over_def by blast
  have run: "sniff_run (NewParser True) (inputs pks) ws p []" using assms(2) rest by simp
  have "allPending (chanAt p [] port n) = {#}"
    using run_stuck [OF run _ assms(4)] assms(3) rest by (simp add: run_over_def)
  note e = run_at_end [OF run assms(4) this]
  show "mset (sentFrom port n ws) =
      mset (map (wrapAt pks port n) (deliveriesOf (refAt pks port n) (messagesAt pks port n)))" by (rule e(1))
  show "list_all (\<lambda>m. \<not> cancels_tag t m) (messagesAt pks port n) \<Longrightarrow>
      sentTo t (sentFrom port n ws) =
        map (wrapAt pks port n) (deliveriesFor t (refAt pks port n) (messagesAt pks port n))" by (rule e(2))
qed

text \<open>What a capture delivers that is read to its end is parsed.\<close>

lemma run_parsed:
  "sniff_run (NewParser True) (inputs pks) ws p [] \<Longrightarrow> \<exists>p0. parsePackets pks (NewParser True) = Inr p0"
  using run_accepted accepting_parses parser_ok_new by blast

end
