(* ===== verification/Rbmq.thy ===== *)
theory Rbmq
  imports Consumers
begin

text \<open>
  The client library under \<open>mq/rabbitmq/rbmq\<close> (\<open>rbmq.go\<close>, \<open>client.go\<close>) and \<open>amqpURL\<close>, with
  \<open>url.PathEscape\<close> of the standard library.  \<open>streadway/amqp\<close>, \<open>pkg/errors\<close> and \<open>math/rand\<close> are
  parameters of the functions that call them.
\<close>

section \<open>Path escaping\<close>

text \<open>\<open>shouldEscape(c, encodePathSegment)\<close> of package \<open>net/url\<close>.\<close>

definition shouldEscape :: "u8 \<Rightarrow> bool" where
  "shouldEscape c =
     (if 97 \<le> c \<and> c \<le> 122 \<or> 65 \<le> c \<and> c \<le> 90 \<or> 48 \<le> c \<and> c \<le> 57 then False
      else if c \<in> set (ascii ''-_.~'') then False
      else if c \<in> set (ascii ''$&+,/:;=?@'') then c \<in> set (ascii ''/;,?'')
      else True)"

definition upperhex :: "nat \<Rightarrow> u8" where
  "upperhex k = ascii ''0123456789ABCDEF'' ! k"

definition escapeByte :: "u8 \<Rightarrow> bytes" where
  "escapeByte c =
     (if shouldEscape c then [37, upperhex (unat c div 16), upperhex (unat c mod 16)] else [c])"

definition PathEscape :: "gostring \<Rightarrow> gostring" where
  "PathEscape s = concat (map escapeByte s)"

definition defaultVHost :: gostring where
  "defaultVHost = PathEscape (ascii ''/'')"

text \<open>\<open>amqpURL\<close> also prints the URL.\<close>

definition amqpURL :: "gostring \<Rightarrow> gostring \<Rightarrow> gostring \<Rightarrow> gostring \<Rightarrow> gostring \<Rightarrow> gostring" where
  "amqpURL username password host port vhost =
     ascii ''amqp://'' @ username @ ascii '':'' @ password @ ascii ''@'' @ host @ ascii '':'' @ port @
     ascii ''/'' @ PathEscape vhost"

text \<open>The inverse, to show that nothing of the vhost is lost.\<close>

definition unhex :: "u8 \<Rightarrow> nat" where
  "unhex c = (if c \<le> 57 then unat c - 48 else unat c - 55)"

fun pathUnescape :: "gostring \<Rightarrow> gostring" where
  "pathUnescape (c # a # b # s) =
     (if c = 37 then of_nat (16 * unhex a + unhex b) # pathUnescape s
      else c # pathUnescape (a # b # s))"
| "pathUnescape s = s"

lemma all_hex: "k < 16 \<Longrightarrow> P 0 \<Longrightarrow> P 1 \<Longrightarrow> P 2 \<Longrightarrow> P 3 \<Longrightarrow> P 4 \<Longrightarrow> P 5 \<Longrightarrow> P 6 \<Longrightarrow> P 7 \<Longrightarrow> P 8 \<Longrightarrow>
    P 9 \<Longrightarrow> P 10 \<Longrightarrow> P 11 \<Longrightarrow> P 12 \<Longrightarrow> P 13 \<Longrightarrow> P 14 \<Longrightarrow> P 15 \<Longrightarrow> P (k :: nat)"
  by (auto simp: numeral_eq_Suc less_Suc_eq)

lemma unhex_upperhex: "k < 16 \<Longrightarrow> unhex (upperhex k) = k"
  by (erule all_hex) (simp_all add: unhex_def upperhex_def)

lemma upperhex_neq: "k < 16 \<Longrightarrow> upperhex k \<noteq> 47"
  by (erule all_hex) (simp_all add: upperhex_def)

lemma nibbles: "unat (c :: u8) div 16 < 16" "unat c mod 16 < 16"
  using unat_bounds(1) [of c] by (simp_all add: less_mult_imp_div_less)

lemma pathUnescape_escapeByte: "pathUnescape (escapeByte c @ s) = c # pathUnescape s"
proof (cases "shouldEscape c")
  case True
  then show ?thesis using nibbles [of c] by (simp add: escapeByte_def unhex_upperhex)
next
  case False
  then have "c \<noteq> 37" by (auto simp: shouldEscape_def)
  then have "pathUnescape (c # s) = c # pathUnescape s"
    by (cases "c # s" rule: pathUnescape.cases) auto
  then show ?thesis using False by (simp add: escapeByte_def)
qed

lemma pathUnescape_PathEscape: "pathUnescape (PathEscape s @ t) = s @ pathUnescape t"
  by (induction s) (simp_all add: PathEscape_def pathUnescape_escapeByte)

lemma PathEscape_no_slash: "47 \<notin> set (PathEscape s)"
proof -
  have "47 \<notin> set (escapeByte c)" for c
  proof (cases "shouldEscape c")
    case True
    then show ?thesis
      using upperhex_neq [OF nibbles(1)] upperhex_neq [OF nibbles(2)]
      by (auto simp: escapeByte_def dest: sym)
  next
    case False
    then show ?thesis by (auto simp: escapeByte_def shouldEscape_def)
  qed
  then show ?thesis by (auto simp: PathEscape_def)
qed

section \<open>The connection pool\<close>

record hostPort =
  hp_Host :: gostring
  hp_Port :: u16

text \<open>The struct without the fields \<open>noCopy\<close>, \<open>m\<close> and \<open>chClosed\<close>, which no function uses.\<close>

record 'c rbmq =
  hostPorts :: "hostPort list"
  conns :: "'c option list"

text \<open>\<open>copy(dst, src)\<close> moves as many elements as fit into \<open>dst\<close>.\<close>

definition goCopy :: "'a list \<Rightarrow> 'a list \<Rightarrow> 'a list" where
  "goCopy dst src = take (length dst) src @ drop (length src) dst"

definition NewRbmq :: "hostPort list \<Rightarrow> 'c rbmq" where
  "NewRbmq hps =
     (let r = \<lparr> hostPorts = [], conns = [] \<rparr> in r\<lparr> hostPorts := goCopy (hostPorts r) hps \<rparr>)"

datatype 'e rbmq_error =
    NotImplemented
  | MissingHostPorts
  | FailedToDial 'e
  | FromLibrary 'e

definition NewClient :: "gostring \<Rightarrow> gostring \<Rightarrow> gostring \<Rightarrow> 'c rbmq \<Rightarrow> 'e rbmq_error + 'client" where
  "NewClient user passwd vhost r = Inl NotImplemented"

text \<open>
  \<open>intn\<close> is \<open>rand.Intn\<close> after \<open>rand.Seed(30)\<close>, \<open>dial\<close> is \<open>amqp.DialConfig\<close> with the empty
  configuration, \<open>openChannel\<close> the method \<open>Channel\<close> of a connection.
\<close>

definition rbmq_channel ::
  "(nat \<Rightarrow> nat) \<Rightarrow> (gostring \<Rightarrow> 'e + 'c) \<Rightarrow> ('c \<Rightarrow> 'e + 'ch) \<Rightarrow>
   gostring \<Rightarrow> gostring \<Rightarrow> gostring \<Rightarrow> 'c rbmq \<Rightarrow> 'e rbmq_error + 'ch" where
  "rbmq_channel intn dial openChannel user passwd vhost r =
     (if length (hostPorts r) = 0 then Inl MissingHostPorts
      else
        (let hp = hostPorts r ! intn (length (hostPorts r));
             url = amqpURL user passwd (hp_Host hp) (formatUint (ucast (hp_Port hp))) vhost in
         case dial url of
           Inl e \<Rightarrow> Inl (FailedToDial e)
         | Inr conn \<Rightarrow> map_sum FromLibrary (\<lambda>ch. ch) (openChannel conn)))"

text \<open>
  \<open>Close\<close>: \<open>closeConn\<close> is the method \<open>Close\<close> of a connection and \<open>wrapErr\<close> is \<open>errors.Wrap\<close> with the
  text of the source.  The variable \<open>err\<close> is overwritten by every connection.
\<close>

fun closeConns :: "('c \<Rightarrow> 'e option) \<Rightarrow> ('e \<Rightarrow> 'e) \<Rightarrow> 'c option list \<Rightarrow> 'e option \<Rightarrow> 'e option \<times> 'c option list" where
  "closeConns closeConn wrapErr [] err = (err, [])"
| "closeConns closeConn wrapErr (None # cs) err =
     (case closeConns closeConn wrapErr cs err of (e, cs') \<Rightarrow> (e, None # cs'))"
| "closeConns closeConn wrapErr (Some c # cs) err =
     (case closeConns closeConn wrapErr cs (map_option wrapErr (closeConn c)) of
        (e, cs') \<Rightarrow> (e, None # cs'))"

definition rbmq_Close :: "('c \<Rightarrow> 'e option) \<Rightarrow> ('e \<Rightarrow> 'e) \<Rightarrow> 'c rbmq \<Rightarrow> 'e option \<times> 'c rbmq" where
  "rbmq_Close closeConn wrapErr r =
     (case closeConns closeConn wrapErr (conns r) None of (err, cs) \<Rightarrow> (err, r\<lparr> conns := cs \<rparr>))"

lemma closeConns_result:
  "closeConns closeConn wrapErr cs err =
     (fold (\<lambda>c _. map_option wrapErr (closeConn c)) (map the (filter (\<lambda>c. c \<noteq> None) cs)) err,
      map (\<lambda>_. None) cs)"
  by (induction closeConn wrapErr cs err rule: closeConns.induct) simp_all

lemma fold_last: "fold (\<lambda>c _. f c) xs e = (if xs = [] then e else f (last xs))"
  by (induction xs arbitrary: e) auto

section \<open>Errors of the library\<close>

text \<open>The values \<open>amqp.ErrClosed\<close> and \<open>amqp.ErrChannelMax\<close> of the library, compared by identity.\<close>

definition isBadConn :: "'err \<Rightarrow> 'err \<Rightarrow> bool" where
  "isBadConn errClosed err \<longleftrightarrow> err = errClosed"

definition isMaxChannelSize :: "'err \<Rightarrow> 'err \<Rightarrow> bool" where
  "isMaxChannelSize errChannelMax err \<longleftrightarrow> err = errChannelMax"

definition needNewConnection :: "'err \<Rightarrow> 'err \<Rightarrow> 'err \<Rightarrow> bool" where
  "needNewConnection errClosed errChannelMax err \<longleftrightarrow>
     isBadConn errClosed err \<or> isMaxChannelSize errChannelMax err"

text \<open>\<open>Client.Publish\<close> returns \<open>errors.Wrap(nil, "not implemented")\<close>; \<open>wrapErr\<close> is that function.\<close>

definition Client_Publish :: "('e option \<Rightarrow> gostring \<Rightarrow> 'e option) \<Rightarrow> 'e option" where
  "Client_Publish wrapErr = wrapErr None (ascii ''not implemented'')"

section \<open>What the pool does not do\<close>

text \<open>
  A pool made by \<open>NewRbmq\<close> has no hosts: \<open>copy\<close> into the nil slice copies nothing, and opening a
  channel always fails with \<open>missing host ports\<close>.
\<close>

lemma new_rbmq_has_no_hosts:
  "rbmq_channel intn dial openChannel user passwd vhost (NewRbmq hps) = Inl MissingHostPorts"
  by (simp add: rbmq_channel_def NewRbmq_def goCopy_def)

text \<open>
  \<open>Close\<close> drops every connection, but it returns the outcome of the last connection only: the
  errors of the others are lost.
\<close>

lemma close_reports_last:
  "rbmq_Close closeConn wrapErr r =
     (let open = map the (filter (\<lambda>c. c \<noteq> None) (conns r)) in
      (if open = [] then None else map_option wrapErr (closeConn (last open)),
       r\<lparr> conns := map (\<lambda>_. None) (conns r) \<rparr>))"
  by (simp add: rbmq_Close_def closeConns_result fold_last Let_def)

text \<open>
  The vhost can be recovered from an AMQP URL: its escaped form has no slash and unescapes to the vhost,
  so URLs that differ only in the vhost differ.
\<close>

lemma url_determines_vhost:
  "47 \<notin> set (PathEscape vhost) \<and> pathUnescape (PathEscape vhost) = vhost \<and>
   (amqpURL user passwd host port vhost = amqpURL user passwd host port vhost' \<longleftrightarrow> vhost = vhost')"
proof -
  have inv: "pathUnescape (PathEscape v) = v" for v
    using pathUnescape_PathEscape [of v "[]"] by simp
  then have "PathEscape vhost = PathEscape vhost' \<longleftrightarrow> vhost = vhost'" by metis
  then show ?thesis using inv PathEscape_no_slash by (simp add: amqpURL_def)
qed

end
