(* ===== verification/Waiting.thy ===== *)
theory Waiting
  imports Publisher
begin

text \<open>
  \<open>main\<close> of \<open>mq/rabbitmq/main.go\<close>: the goroutines \<open>publish\<close>, \<open>consume\<close> and \<open>consumer\<close> under the wait group \<open>wg\<close>
  and the context that the signal cancels.  One step relation interleaves them with the main goroutine; what
  each of them does on its own is the function of \<open>Publisher\<close> that models it.
\<close>

section \<open>The program\<close>

text \<open>
  What the program uses of \<open>streadway/amqp\<close>.  The two calls of \<open>Dial\<close> can end differently.
\<close>

record ('c, 's, 'd, 'e) broker =
  br_dialPublish :: "gostring \<Rightarrow> 'e + 'c"
  br_dialConsume :: "gostring \<Rightarrow> 'e + 'c"
  br_channel :: "'c \<Rightarrow> 'e + 's"
  br_publish :: "('s, 'e) publish_op"
  br_qos :: "'s \<Rightarrow> int \<Rightarrow> int \<Rightarrow> bool \<Rightarrow> 's \<times> 'e option"
  br_consume :: "'s \<Rightarrow> gostring \<Rightarrow> gostring \<Rightarrow> bool \<Rightarrow> bool \<Rightarrow> bool \<Rightarrow> bool \<Rightarrow> 's \<times> 'e option"
  br_body :: "'d \<Rightarrow> bytes"
  br_ack :: "'s \<Rightarrow> 'd \<Rightarrow> bool \<Rightarrow> 's \<times> 'e option"

text \<open>Where a goroutine is; at its end, the deferred calls it still has to make.\<close>

datatype (plugins only: code size) main_pc =
  MainAdd | MainGoPublish | MainGoConsume | MainSignal | MainCancel | MainWait | MainReturned

datatype (plugins only: code size) 's publisher = PubIdle | PubStart | PubLoop u32 's | PubEnding 's "deferred list"

datatype (plugins only: code size) consuming = ConsumeIdle | ConsumeStart | ConsumeWait | ConsumeEnding "deferred list"

datatype (plugins only: code size) ('c, 's, 'e) consuming1 =
  ConsumerIdle | ConsumerStart 'c u64 | ConsumerLoop u64 's | ConsumerEnding "(time_error + 'e) ending" 's "deferred list"

text \<open>How the process ends before \<open>main\<close> returns; \<open>NegativeCounter\<close> is the panic of \<open>WaitGroup.Done\<close>.\<close>

datatype (plugins only: code size) 'e stop =
  PublisherStopped "'e ending" | ConsumeFailed gostring 'e | ConsumerStopped "(time_error + 'e) ending" | NegativeCounter

record ('c, 's, 'e) process =
  mn_pc :: main_pc
  mn_wg :: int
  mn_ctx :: bool
  mn_id :: u64
  mn_pub :: "'s publisher"
  mn_consume :: consuming
  mn_consumer :: "('c, 's, 'e) consuming1"
  mn_stop :: "'e stop option"

definition processStart :: "('c, 's, 'e) process" where
  "processStart = \<lparr> mn_pc = MainAdd, mn_wg = 0, mn_ctx = False, mn_id = 0, mn_pub = PubIdle,
     mn_consume = ConsumeIdle, mn_consumer = ConsumerIdle, mn_stop = None \<rparr>"

definition live :: "('c, 's, 'e) process \<Rightarrow> bool" where
  "live s \<longleftrightarrow> mn_stop s = None \<and> mn_pc s \<noteq> MainReturned"

text \<open>The deferred calls; those that close a channel or a connection do not touch this state.\<close>

fun callDeferred :: "deferred \<Rightarrow> ('c, 's, 'e) process \<Rightarrow> ('c, 's, 'e) process" where
  "callDeferred WgDone s =
     (if mn_wg s - 1 < 0 then s\<lparr> mn_stop := Some NegativeCounter \<rparr> else s\<lparr> mn_wg := mn_wg s - 1 \<rparr>)"
| "callDeferred ChClose s = s"
| "callDeferred ConnClose s = s"

text \<open>
  One turn of \<open>publish\<close>: its start, or one \<open>select\<close>, which takes the default only while the context has not
  ended.
\<close>

fun publisherTurn :: "('c, 's, 'd, 'e) broker \<Rightarrow> bool \<Rightarrow> btime \<Rightarrow> 's publisher \<Rightarrow> 'e stop + 's publisher" where
  "publisherTurn b ctxDone now PubStart =
     (case br_dialPublish b brokerURL of
        Inl err \<Rightarrow> Inl (PublisherStopped (FatalError (ascii ''failed to connect'') err))
      | Inr conn \<Rightarrow>
          (case br_channel b conn of
             Inl err \<Rightarrow> Inl (PublisherStopped (FatalError (ascii ''failed to get channel'') err))
           | Inr ch \<Rightarrow> Inr (PubLoop 0 ch)))"
| "publisherTurn b ctxDone now (PubLoop cnt ch) =
     (if ctxDone then Inr (PubEnding ch [ChClose, ConnClose, WgDone])
      else (case br_publish b ch [] queueName False False (publishingLit (publishBody cnt now)) of
              (ch', Some err) \<Rightarrow> Inl (PublisherStopped (FatalError (ascii ''failed to publish'') err))
            | (ch', None) \<Rightarrow> Inr (PubLoop (cnt + 1) ch')))"
| "publisherTurn b ctxDone now p = Inr p"

fun publisherRuns :: "'s publisher \<Rightarrow> bool" where
  "publisherRuns PubStart = True"
| "publisherRuns (PubLoop cnt ch) = True"
| "publisherRuns p = False"

text \<open>
  One turn of \<open>consumer\<close>: its start, or one \<open>select\<close>, whose cases are chosen from at random when both are ready.
\<close>

fun consumerTurn ::
  "('c, 's, 'd, 'e) broker \<Rightarrow> 'd consumer_event \<Rightarrow> ('c, 's, 'e) consuming1 \<Rightarrow> 'e stop + ('c, 's, 'e) consuming1" where
  "consumerTurn b ev (ConsumerStart conn n) =
     (case br_channel b conn of
        Inl err \<Rightarrow> Inl (ConsumerStopped (FatalError (ascii ''failed to get channel'') (Inr err)))
      | Inr ch \<Rightarrow>
          (case br_consume b (fst (br_qos b ch 1 0 False)) queueName (consumerName n) False False False False of
             (ch', Some err) \<Rightarrow> Inl (ConsumerStopped (FatalError (ascii ''failed to consume message'') (Inr err)))
           | (ch', None) \<Rightarrow> Inr (ConsumerLoop 0 ch')))"
| "consumerTurn b ConsumerDone (ConsumerLoop cnt ch) = Inr (ConsumerEnding Finished ch [ChClose])"
| "consumerTurn b MsgsClosed (ConsumerLoop cnt ch) = Inr (ConsumerEnding Finished ch [ChClose])"
| "consumerTurn b (Msg msg) (ConsumerLoop cnt ch) =
     (case Unmarshal (br_body b msg) zeroMessage of
        Inl _ \<Rightarrow> Inr (ConsumerEnding Panicked ch [ChClose])
      | Inr (Some err, _) \<Rightarrow> Inl (ConsumerStopped (FatalError (ascii ''failed to unmarshal message'') (Inl err)))
      | Inr (None, mymsg) \<Rightarrow>
          (case br_ack b ch msg False of
             (ch', Some err) \<Rightarrow> Inl (ConsumerStopped (FatalError (ascii ''failed to consume message'') (Inr err)))
           | (ch', None) \<Rightarrow> Inr (ConsumerLoop (cnt + 1) ch')))"
| "consumerTurn b ev c = Inr c"

fun consumerRuns :: "('c, 's, 'e) consuming1 \<Rightarrow> bool" where
  "consumerRuns (ConsumerStart conn n) = True"
| "consumerRuns (ConsumerLoop cnt ch) = True"
| "consumerRuns c = False"

inductive process_step ::
  "('c, 's, 'd, 'e) broker \<Rightarrow> ('c, 's, 'e) process \<Rightarrow> ('c, 's, 'e) process \<Rightarrow> bool" for b where
  add: "live s \<Longrightarrow> mn_pc s = MainAdd \<Longrightarrow>
    process_step b s (s\<lparr> mn_wg := mn_wg s + 2, mn_pc := MainGoPublish \<rparr>)"
| goPublish: "live s \<Longrightarrow> mn_pc s = MainGoPublish \<Longrightarrow>
    process_step b s (s\<lparr> mn_pub := PubStart, mn_pc := MainGoConsume \<rparr>)"
| goConsume: "live s \<Longrightarrow> mn_pc s = MainGoConsume \<Longrightarrow>
    process_step b s (s\<lparr> mn_consume := ConsumeStart, mn_pc := MainSignal \<rparr>)"
| signal: "live s \<Longrightarrow> mn_pc s = MainSignal \<Longrightarrow> process_step b s (s\<lparr> mn_pc := MainCancel \<rparr>)"
| cancel: "live s \<Longrightarrow> mn_pc s = MainCancel \<Longrightarrow> process_step b s (s\<lparr> mn_ctx := True, mn_pc := MainWait \<rparr>)"
| waited: "live s \<Longrightarrow> mn_pc s = MainWait \<Longrightarrow> mn_wg s = 0 \<Longrightarrow> process_step b s (s\<lparr> mn_pc := MainReturned \<rparr>)"
| publisher: "live s \<Longrightarrow> publisherRuns (mn_pub s) \<Longrightarrow> publisherTurn b (mn_ctx s) now (mn_pub s) = Inr p \<Longrightarrow>
    process_step b s (s\<lparr> mn_pub := p \<rparr>)"
| publisherStops: "live s \<Longrightarrow> publisherRuns (mn_pub s) \<Longrightarrow> publisherTurn b (mn_ctx s) now (mn_pub s) = Inl e \<Longrightarrow>
    process_step b s (s\<lparr> mn_stop := Some e \<rparr>)"
| publisherDeferred: "live s \<Longrightarrow> mn_pub s = PubEnding ch (d # ds) \<Longrightarrow>
    process_step b s (callDeferred d (s\<lparr> mn_pub := PubEnding ch ds \<rparr>))"
| consumeDials: "live s \<Longrightarrow> mn_consume s = ConsumeStart \<Longrightarrow> br_dialConsume b brokerURL = Inr conn \<Longrightarrow>
    process_step b s (s\<lparr> mn_id := mn_id s + 1, mn_consumer := ConsumerStart conn (mn_id s + 1),
      mn_consume := ConsumeWait \<rparr>)"
| consumeStops: "live s \<Longrightarrow> mn_consume s = ConsumeStart \<Longrightarrow> br_dialConsume b brokerURL = Inl err \<Longrightarrow>
    process_step b s (s\<lparr> mn_stop := Some (ConsumeFailed (ascii ''failed to connect'') err) \<rparr>)"
| consumeCancelled: "live s \<Longrightarrow> mn_consume s = ConsumeWait \<Longrightarrow> mn_ctx s \<Longrightarrow>
    process_step b s (s\<lparr> mn_consume := ConsumeEnding [WgDone, ConnClose] \<rparr>)"
| consumeDeferred: "live s \<Longrightarrow> mn_consume s = ConsumeEnding (d # ds) \<Longrightarrow>
    process_step b s (callDeferred d (s\<lparr> mn_consume := ConsumeEnding ds \<rparr>))"
| consumer: "live s \<Longrightarrow> consumerRuns (mn_consumer s) \<Longrightarrow> (ev = ConsumerDone \<Longrightarrow> mn_ctx s) \<Longrightarrow> consumerTurn b ev (mn_consumer s) = Inr c \<Longrightarrow>
    process_step b s (s\<lparr> mn_consumer := c \<rparr>)"
| consumerStops: "live s \<Longrightarrow> consumerRuns (mn_consumer s) \<Longrightarrow> consumerTurn b ev (mn_consumer s) = Inl e \<Longrightarrow>
    process_step b s (s\<lparr> mn_stop := Some e \<rparr>)"
| consumerDeferred: "live s \<Longrightarrow> mn_consumer s = ConsumerEnding e ch (d # ds) \<Longrightarrow>
    process_step b s (callDeferred d (s\<lparr> mn_consumer := ConsumerEnding e ch ds \<rparr>))"
| consumerPanics: "live s \<Longrightarrow> mn_consumer s = ConsumerEnding Panicked ch [] \<Longrightarrow>
    process_step b s (s\<lparr> mn_stop := Some (ConsumerStopped Panicked) \<rparr>)"

section \<open>The goroutines on their own\<close>

text \<open>What a goroutine has come to is what its function gives for the events it has seen.\<close>

lemma publishLoop_append:
  "publishLoop pub ts cnt ch = (StillRunning, cnt', ch') \<Longrightarrow>
     publishLoop pub (ts @ us) cnt ch = publishLoop pub us cnt' ch'"
  by (induction ts arbitrary: cnt ch rule: list.induct)
    (auto split: tick.splits prod.splits option.splits elim: publishLoop.elims)

lemma consumerLoop_append:
  "consumerLoop bodyOf ack evs cnt ch = (StillRunning, cnt', ch') \<Longrightarrow>
     consumerLoop bodyOf ack (evs @ evs') cnt ch = consumerLoop bodyOf ack evs' cnt' ch'"
  by (induction evs arbitrary: cnt ch rule: list.induct)
    (auto split: consumer_event.splits prod.splits option.splits sum.splits elim: consumerLoop.elims)

abbreviation publishOf :: "('c, 's, 'd, 'e) broker \<Rightarrow> tick list \<Rightarrow> 'e ending \<times> 's option \<times> deferred list" where
  "publishOf b \<equiv> publish_fun (br_dialPublish b) (br_channel b) (br_publish b)"

abbreviation consumerOf ::
  "('c, 's, 'd, 'e) broker \<Rightarrow> 'c \<Rightarrow> u64 \<Rightarrow> 'd consumer_event list \<Rightarrow>
     (time_error + 'e) ending \<times> 's option \<times> deferred list" where
  "consumerOf b \<equiv> consumer (br_channel b) (br_qos b) (br_consume b) (br_body b) (br_ack b)"

fun publisher_reached :: "('c, 's, 'd, 'e) broker \<Rightarrow> 's publisher \<Rightarrow> bool" where
  "publisher_reached b (PubLoop cnt ch) \<longleftrightarrow>
     (\<exists>conn ch0 ts. br_dialPublish b brokerURL = Inr conn \<and> br_channel b conn = Inr ch0 \<and>
       publishLoop (br_publish b) ts 0 ch0 = (StillRunning, cnt, ch))"
| "publisher_reached b (PubEnding ch ds) \<longleftrightarrow>
     (\<exists>ts. publishOf b ts = (Finished, Some ch, [ChClose, ConnClose, WgDone])) \<and>
     suffix ds [ChClose, ConnClose, WgDone]"
| "publisher_reached b p \<longleftrightarrow> True"

fun consumer_reached :: "('c, 's, 'd, 'e) broker \<Rightarrow> ('c, 's, 'e) consuming1 \<Rightarrow> bool" where
  "consumer_reached b (ConsumerLoop cnt ch) \<longleftrightarrow>
     (\<exists>conn n ch0 ch1 evs. br_channel b conn = Inr ch0 \<and>
       br_consume b (fst (br_qos b ch0 1 0 False)) queueName (consumerName n) False False False False = (ch1, None) \<and>
       consumerLoop (br_body b) (br_ack b) evs 0 ch1 = (StillRunning, cnt, ch))"
| "consumer_reached b (ConsumerEnding e ch ds) \<longleftrightarrow>
     (\<exists>conn n evs. consumerOf b conn n evs = (e, Some ch, [ChClose])) \<and> suffix ds [ChClose]"
| "consumer_reached b c \<longleftrightarrow> True"

fun stop_reached :: "('c, 's, 'd, 'e) broker \<Rightarrow> 'e stop \<Rightarrow> bool" where
  "stop_reached b (PublisherStopped e) \<longleftrightarrow> (\<exists>ts x. publishOf b ts = (e, x))"
| "stop_reached b (ConsumeFailed msg err) \<longleftrightarrow> (\<exists>n. consume (br_dialConsume b) n False = Inl (msg, err))"
| "stop_reached b (ConsumerStopped e) \<longleftrightarrow> (\<exists>conn n evs x. consumerOf b conn n evs = (e, x))"
| "stop_reached b NegativeCounter \<longleftrightarrow> False"

lemma publisher_reached_loop:
  assumes "publisher_reached b (PubLoop cnt ch)" "publishLoop (br_publish b) us cnt ch = (e, cnt', ch')"
  shows "\<exists>ts. publishOf b ts = (e, Some ch', deferredCalls e [ChClose, ConnClose, WgDone])"
proof -
  obtain conn ch0 ts where "br_dialPublish b brokerURL = Inr conn" "br_channel b conn = Inr ch0"
    "publishLoop (br_publish b) ts 0 ch0 = (StillRunning, cnt, ch)" using assms(1) by auto
  then show ?thesis
    using assms(2) by (intro exI [of _ "ts @ us"]) (simp add: publish_fun_def publishLoop_append)
qed

lemma publisherTurn_reached:
  assumes "publisher_reached b p" "publisherTurn b ctxDone now p = Inr p'"
  shows "publisher_reached b p'"
  using assms
proof (induction b ctxDone now p rule: publisherTurn.induct)
  case (1 b ctxDone now)
  then show ?case by (auto split: sum.splits intro!: exI [of _ "[] :: tick list"])
next
  case (2 b ctxDone now cnt ch)
  show ?case
  proof (cases ctxDone)
    case True
    show ?thesis using publisher_reached_loop [OF 2(1), of "[CtxDone]"] 2(2) True by auto
  next
    case False
    then obtain ch' where ch': "br_publish b ch [] queueName False False (publishingLit (publishBody cnt now)) = (ch', None)"
      "p' = PubLoop (cnt + 1) ch'"
      using 2(2) by (auto split: prod.splits option.splits)
    from 2(1) obtain conn ch0 ts where "br_dialPublish b brokerURL = Inr conn" "br_channel b conn = Inr ch0"
      "publishLoop (br_publish b) ts 0 ch0 = (StillRunning, cnt, ch)" by auto
    moreover from this(3) have "publishLoop (br_publish b) (ts @ [Default now]) 0 ch0 = (StillRunning, cnt + 1, ch')"
      using ch'(1) by (simp add: publishLoop_append)
    ultimately show ?thesis unfolding ch'(2) publisher_reached.simps by blast
  qed
qed auto

lemma publisherTurn_stops:
  assumes "publisher_reached b p" "publisherTurn b ctxDone now p = Inl e"
  shows "stop_reached b e"
  using assms
proof (induction b ctxDone now p rule: publisherTurn.induct)
  case (1 b ctxDone now)
  then show ?case by (auto simp: publish_fun_def split: sum.splits)
next
  case (2 b ctxDone now cnt ch)
  obtain ch' err where "br_publish b ch [] queueName False False (publishingLit (publishBody cnt now)) = (ch', Some err)"
    "e = PublisherStopped (FatalError (ascii ''failed to publish'') err)"
    using 2(2) by (auto simp del: ascii_simps split: if_splits prod.splits option.splits)
  then show ?case using publisher_reached_loop [OF 2(1), of "[Default now]"] by simp blast
qed simp_all

lemma consumer_reached_loop:
  assumes "consumer_reached b (ConsumerLoop cnt ch)"
    and "consumerLoop (br_body b) (br_ack b) evs cnt ch = (e, cnt', ch')"
  shows "\<exists>conn n evs. consumerOf b conn n evs = (e, Some ch', deferredCalls e [ChClose])"
proof -
  obtain conn n ch0 ch1 evs0 where "br_channel b conn = Inr ch0"
    "br_consume b (fst (br_qos b ch0 1 0 False)) queueName (consumerName n) False False False False = (ch1, None)"
    "consumerLoop (br_body b) (br_ack b) evs0 0 ch1 = (StillRunning, cnt, ch)" using assms(1) by auto
  then show ?thesis
    using assms(2)
    by (intro exI [of _ conn] exI [of _ n] exI [of _ "evs0 @ evs"]) (simp add: consumer_def consumerLoop_append)
qed

lemma consumerTurn_reached:
  assumes "consumer_reached b c" "consumerTurn b ev c = Inr c'"
  shows "consumer_reached b c'"
  using assms
proof (induction b ev c rule: consumerTurn.induct)
  case (1 b ev conn n)
  then obtain ch ch' where c': "c' = ConsumerLoop 0 ch'" and "br_channel b conn = Inr ch"
    "br_consume b (fst (br_qos b ch 1 0 False)) queueName (consumerName n) False False False False = (ch', None)"
    by (auto split: sum.splits prod.splits option.splits)
  moreover have "consumerLoop (br_body b) (br_ack b) [] 0 ch' = (StillRunning, 0, ch')" by simp
  ultimately show ?case unfolding c' consumer_reached.simps by blast
next
  case (2 b cnt ch)
  show ?case using consumer_reached_loop [OF 2(1), of "[ConsumerDone]"] 2(2) by auto blast
next
  case (3 b cnt ch)
  show ?case using consumer_reached_loop [OF 3(1), of "[MsgsClosed]"] 3(2) by auto blast
next
  case (4 b msg cnt ch)
  show ?case
  proof (cases c')
    case (ConsumerLoop cnt' ch')
    from 4(1) obtain conn n ch0 ch1 evs where
      "br_channel b conn = Inr ch0"
      "br_consume b (fst (br_qos b ch0 1 0 False)) queueName (consumerName n) False False False False = (ch1, None)"
      "consumerLoop (br_body b) (br_ack b) evs 0 ch1 = (StillRunning, cnt, ch)" by auto
    moreover have "consumerLoop (br_body b) (br_ack b) [Msg msg] cnt ch = (StillRunning, cnt', ch')"
      using 4(2) ConsumerLoop by (auto split: sum.splits prod.splits option.splits)
    ultimately show ?thesis
      unfolding ConsumerLoop consumer_reached.simps using consumerLoop_append [of "br_body b"] by metis
  next
    case (ConsumerEnding e ch' ds)
    then show ?thesis
      using consumer_reached_loop [OF 4(1), of "[Msg msg]"] 4(2) by (auto split: sum.splits prod.splits option.splits)
  qed simp_all
qed fastforce+

lemma consumerTurn_stops:
  assumes "consumer_reached b c" "consumerTurn b ev c = Inl e"
  shows "stop_reached b e"
  using assms
proof (induction b ev c rule: consumerTurn.induct)
  case (1 b ev conn n)
  then obtain e' where e: "e = ConsumerStopped e'" "\<exists>x. consumerOf b conn n [] = (e', x)"
    by (auto simp: consumer_def simp del: ascii_simps split: sum.splits prod.splits option.splits)
  then show ?case unfolding e(1) stop_reached.simps by blast
next
  case (4 b msg cnt ch)
  then obtain e' ch' where e: "e = ConsumerStopped e'"
    "consumerLoop (br_body b) (br_ack b) [Msg msg] cnt ch = (e', ch')"
    by (auto simp del: ascii_simps split: sum.splits prod.splits option.splits)
  then show ?case
    using consumer_reached_loop [OF 4(1), of "[Msg msg]"] unfolding e(1) stop_reached.simps by (cases ch') blast
qed simp_all

section \<open>The wait group\<close>

text \<open>What a goroutine still owes to the wait group.\<close>

fun owedByPublisher :: "'s publisher \<Rightarrow> int" where
  "owedByPublisher (PubEnding ch ds) = (if WgDone \<in> set ds then 1 else 0)"
| "owedByPublisher p = 1"

fun owedByConsume :: "consuming \<Rightarrow> int" where
  "owedByConsume (ConsumeEnding ds) = (if WgDone \<in> set ds then 1 else 0)"
| "owedByConsume c = 1"

lemma owed_nonneg [simp]: "0 \<le> owedByPublisher p" "0 \<le> owedByConsume c"
    "\<not> owedByPublisher p < 0" "\<not> owedByConsume c < 0"
proof -
  show "0 \<le> owedByPublisher p" "0 \<le> owedByConsume c" by (cases p; simp) (cases c; simp)
  then show "\<not> owedByPublisher p < 0" "\<not> owedByConsume c < 0" by simp_all
qed

definition process_inv :: "('c, 's, 'd, 'e) broker \<Rightarrow> ('c, 's, 'e) process \<Rightarrow> bool" where
  "process_inv b s \<longleftrightarrow>
     mn_wg s = (if mn_pc s = MainAdd then 0 else owedByPublisher (mn_pub s) + owedByConsume (mn_consume s)) \<and>
     (mn_pub s = PubIdle \<longleftrightarrow> mn_pc s \<in> {MainAdd, MainGoPublish}) \<and>
     (mn_consume s = ConsumeIdle \<longleftrightarrow> mn_pc s \<in> {MainAdd, MainGoPublish, MainGoConsume}) \<and>
     (mn_ctx s \<longleftrightarrow> mn_pc s \<in> {MainWait, MainReturned}) \<and>
     (mn_pc s = MainReturned \<longrightarrow> mn_wg s = 0) \<and>
     (\<forall>ds. mn_consume s = ConsumeEnding ds \<longrightarrow> suffix ds [WgDone, ConnClose]) \<and>
     publisher_reached b (mn_pub s) \<and> consumer_reached b (mn_consumer s) \<and>
     (\<forall>e. mn_stop s = Some e \<longrightarrow> stop_reached b e)"

lemma process_inv_start: "process_inv b processStart"
  by (simp add: process_inv_def processStart_def)

lemma publisherTurn_owes:
  "publisherTurn b ctxDone now p = Inr p' \<Longrightarrow>
     owedByPublisher p' = owedByPublisher p \<and> (p' = PubIdle \<longleftrightarrow> p = PubIdle)"
  by (induction b ctxDone now p rule: publisherTurn.induct) (auto split: sum.splits if_splits prod.splits option.splits)

lemma process_inv_step:
  assumes "process_step b s s'" "process_inv b s"
  shows "process_inv b s'"
  using assms
proof (induction rule: process_step.induct)
  case (publisher s now p)
  then show ?case
    using publisherTurn_owes [OF publisher(3)] publisherTurn_reached [OF _ publisher(3)]
    by (simp add: process_inv_def live_def)
next
  case (publisherStops s now e)
  then show ?case using publisherTurn_stops [OF _ publisherStops(3)] by (simp add: process_inv_def live_def)
next
  case (publisherDeferred s ch d ds)
  then show ?case
    by (cases d) (auto simp: process_inv_def live_def suffix_Cons split: if_splits)
next
  case (consumeDials s conn)
  then show ?case by (simp add: process_inv_def live_def)
next
  case (consumeStops s err)
  then show ?case by (simp add: process_inv_def live_def consume_def)
next
  case (consumeDeferred s d ds)
  then show ?case
    by (cases d) (auto simp: process_inv_def live_def suffix_Cons split: if_splits)
next
  case (consumer s ev c)
  then show ?case
    using consumerTurn_reached [OF _ consumer(4)] by (simp add: process_inv_def live_def)
next
  case (consumerStops s ev e)
  then show ?case using consumerTurn_stops [OF _ consumerStops(3)] by (simp add: process_inv_def live_def)
next
  case (consumerDeferred s e ch d ds)
  then show ?case by (auto simp: process_inv_def live_def suffix_Cons)
next
  case (consumerPanics s ch)
  then have "consumer_reached b (ConsumerEnding Panicked ch [])" by (simp add: process_inv_def)
  then have "stop_reached b (ConsumerStopped Panicked)" by simp blast
  then show ?case using consumerPanics by (simp add: process_inv_def live_def)
qed (auto simp: process_inv_def live_def)

lemma process_inv_steps:
  "(process_step b)\<^sup>*\<^sup>* s s' \<Longrightarrow> process_inv b s \<Longrightarrow> process_inv b s'"
  by (induction rule: rtranclp_induct) (auto intro: process_inv_step)

text \<open>When \<open>main\<close> has returned, both goroutines it waits for have called \<open>Done\<close>, \<open>publish\<close> at its very end.\<close>

lemma returned_waited:
  assumes "process_inv b s" "mn_pc s = MainReturned"
  shows "\<exists>ts ch. publishOf b ts = (Finished, Some ch, [ChClose, ConnClose, WgDone]) \<and> mn_pub s = PubEnding ch []"
    "mn_consume s \<in> {ConsumeEnding [ConnClose], ConsumeEnding []}"
proof -
  have "owedByPublisher (mn_pub s) + owedByConsume (mn_consume s) = 0" using assms by (simp add: process_inv_def)
  then have o: "owedByPublisher (mn_pub s) = 0" "owedByConsume (mn_consume s) = 0"
    by (metis add_nonneg_eq_0_iff owed_nonneg)+
  show "\<exists>ts ch. publishOf b ts = (Finished, Some ch, [ChClose, ConnClose, WgDone]) \<and> mn_pub s = PubEnding ch []"
    using o(1) assms(1)
    by (cases "mn_pub s") (auto simp: process_inv_def suffix_Cons split: if_splits)
  show "mn_consume s \<in> {ConsumeEnding [ConnClose], ConsumeEnding []}"
    using o(2) assms(1)
    by (cases "mn_consume s") (auto simp: process_inv_def suffix_Cons split: if_splits)
qed

section \<open>The end of the process\<close>

text \<open>Some step brings a process that is live closer to its end.\<close>

fun mainRank :: "main_pc \<Rightarrow> nat" where
  "mainRank MainAdd = 6"
| "mainRank MainGoPublish = 5"
| "mainRank MainGoConsume = 4"
| "mainRank MainSignal = 3"
| "mainRank MainCancel = 2"
| "mainRank MainWait = 1"
| "mainRank MainReturned = 0"

fun publisherRank :: "'s publisher \<Rightarrow> nat" where
  "publisherRank PubIdle = 6"
| "publisherRank PubStart = 5"
| "publisherRank (PubLoop cnt ch) = 4"
| "publisherRank (PubEnding ch ds) = length ds"

fun consumeRank :: "consuming \<Rightarrow> nat" where
  "consumeRank ConsumeIdle = 5"
| "consumeRank ConsumeStart = 4"
| "consumeRank ConsumeWait = 3"
| "consumeRank (ConsumeEnding ds) = length ds"

definition processRank :: "('c, 's, 'e) process \<Rightarrow> nat" where
  "processRank s = mainRank (mn_pc s) + publisherRank (mn_pub s) + consumeRank (mn_consume s)"

lemma publisher_nears_end:
  assumes "live s" "process_inv b s" "mn_pc s = MainWait" "owedByPublisher (mn_pub s) \<noteq> 0"
  shows "\<exists>s'. process_step b s s' \<and> (live s' \<longrightarrow> processRank s' < processRank s)"
proof (cases "mn_pub s")
  case PubIdle
  then show ?thesis using assms by (simp add: process_inv_def)
next
  case PubStart
  show ?thesis
  proof (cases "publisherTurn b (mn_ctx s) zeroBtime PubStart")
    case (Inl e)
    then show ?thesis using process_step.publisherStops [OF assms(1)] PubStart by (fastforce simp: live_def)
  next
    case (Inr p)
    then have "publisherRank p < publisherRank (mn_pub s)" using PubStart by (auto split: sum.splits)
    then show ?thesis using process_step.publisher [OF assms(1)] Inr PubStart by (fastforce simp: processRank_def)
  qed
next
  case (PubLoop cnt ch)
  then have "publisherTurn b (mn_ctx s) zeroBtime (mn_pub s) = Inr (PubEnding ch [ChClose, ConnClose, WgDone])"
    using assms(2,3) by (simp add: process_inv_def)
  then show ?thesis using process_step.publisher [OF assms(1)] PubLoop by (fastforce simp: processRank_def)
next
  case (PubEnding ch ds)
  then obtain d ds' where "ds = d # ds'" using assms(4) by (cases ds) auto
  then show ?thesis
    using process_step.publisherDeferred [OF assms(1)] PubEnding
    by (cases d) (fastforce simp: processRank_def live_def)+
qed

lemma consume_nears_end:
  assumes "live s" "process_inv b s" "mn_pc s = MainWait" "owedByConsume (mn_consume s) \<noteq> 0"
  shows "\<exists>s'. process_step b s s' \<and> (live s' \<longrightarrow> processRank s' < processRank s)"
proof (cases "mn_consume s")
  case ConsumeIdle
  then show ?thesis using assms by (simp add: process_inv_def)
next
  case ConsumeStart
  then show ?thesis
    using process_step.consumeDials [OF assms(1)] process_step.consumeStops [OF assms(1)]
    by (cases "br_dialConsume b brokerURL") (fastforce simp: processRank_def live_def)+
next
  case ConsumeWait
  then show ?thesis
    using process_step.consumeCancelled [OF assms(1)] assms(2,3) by (fastforce simp: processRank_def process_inv_def)
next
  case (ConsumeEnding ds)
  then obtain d ds' where "ds = d # ds'" using assms(4) by (cases ds) auto
  then show ?thesis
    using process_step.consumeDeferred [OF assms(1)] ConsumeEnding
    by (cases d) (fastforce simp: processRank_def live_def)+
qed

lemma process_nears_end:
  assumes "live s" "process_inv b s"
  shows "\<exists>s'. process_step b s s' \<and> (live s' \<longrightarrow> processRank s' < processRank s)"
proof (cases "mn_pc s")
  case MainAdd
  then show ?thesis using process_step.add [OF assms(1)] by (fastforce simp: processRank_def)
next
  case MainGoPublish
  then show ?thesis
    using process_step.goPublish [OF assms(1)] assms(2) by (fastforce simp: processRank_def process_inv_def)
next
  case MainGoConsume
  then show ?thesis
    using process_step.goConsume [OF assms(1)] assms(2) by (fastforce simp: processRank_def process_inv_def)
next
  case MainSignal
  then show ?thesis using process_step.signal [OF assms(1)] by (fastforce simp: processRank_def)
next
  case MainCancel
  then show ?thesis using process_step.cancel [OF assms(1)] by (fastforce simp: processRank_def)
next
  case MainWait
  show ?thesis
  proof (cases "mn_wg s = 0")
    case True
    then show ?thesis using process_step.waited [OF assms(1) MainWait] by (fastforce simp: live_def)
  next
    case False
    then have "owedByPublisher (mn_pub s) \<noteq> 0 \<or> owedByConsume (mn_consume s) \<noteq> 0"
      using assms(2) MainWait by (auto simp: process_inv_def)
    then show ?thesis using publisher_nears_end [OF assms MainWait] consume_nears_end [OF assms MainWait] by blast
  qed
next
  case MainReturned
  then show ?thesis using assms(1) by (simp add: live_def)
qed

lemma process_can_end:
  "process_inv b s \<Longrightarrow> \<exists>s'. (process_step b)\<^sup>*\<^sup>* s s' \<and> \<not> live s'"
proof (induction "processRank s" arbitrary: s rule: less_induct)
  case less
  show ?case
  proof (cases "live s")
    case True
    obtain s1 where s1: "process_step b s s1" "live s1 \<longrightarrow> processRank s1 < processRank s"
      using process_nears_end [OF True less.prems] by blast
    then show ?thesis
    proof (cases "live s1")
      case True
      then obtain s' where "(process_step b)\<^sup>*\<^sup>* s1 s'" "\<not> live s'"
        using less.hyps s1 process_inv_step [OF s1(1) less.prems] by blast
      then show ?thesis using s1(1) by (meson converse_rtranclp_into_rtranclp)
    qed blast
  qed blast
qed

section \<open>A bounded end\<close>

text \<open>
  Once the context has ended, every step of \<open>main\<close>, \<open>publish\<close> and \<open>consume\<close> brings the process closer to its end;
  only \<open>consumer\<close> can go on.
\<close>

lemma publisherTurn_rank:
  "publisherTurn b True now p = Inr p' \<Longrightarrow> publisherRuns p \<Longrightarrow> publisherRank p' < publisherRank p"
  by (cases p) (auto split: sum.splits)

lemma consumerTurn_moves:
  assumes "consumerTurn b ev c = Inr c'" "consumerRuns c"
  shows "c' \<noteq> c"
  using assms by (cases "(b, ev, c)" rule: consumerTurn.cases) (auto split: sum.splits prod.splits option.splits)

lemma processRank_bound:
  assumes "process_inv b s" "mn_ctx s"
  shows "processRank s \<le> 10"
proof -
  have "suffix ds xs \<Longrightarrow> length ds \<le> length xs" for ds xs :: "deferred list" by (auto simp: suffix_def)
  then have "publisherRank (mn_pub s) \<le> 5" "consumeRank (mn_consume s) \<le> 4"
    using assms by (cases "mn_pub s"; cases "mn_consume s"; fastforce simp: process_inv_def)+
  then show ?thesis using assms by (auto simp: process_inv_def processRank_def)
qed

lemma step_nears_end:
  assumes "process_step b s s'" "process_inv b s" "mn_ctx s" "live s'"
  shows "processRank s' < processRank s \<or>
    s' = s\<lparr> mn_consumer := mn_consumer s' \<rparr> \<and> mn_consumer s' \<noteq> mn_consumer s"
  using assms
proof (cases rule: process_step.cases)
  case (publisher now p)
  then show ?thesis using publisherTurn_rank [of b now "mn_pub s" p] assms(3) by (simp add: processRank_def)
next
  case (publisherDeferred ch d ds)
  then show ?thesis using assms(4) by (cases d) (auto simp: processRank_def live_def split: if_splits)
next
  case (consumeDeferred d ds)
  then show ?thesis using assms(4) by (cases d) (auto simp: processRank_def live_def split: if_splits)
next
  case (consumer ev c)
  then show ?thesis using consumerTurn_moves [of b ev "mn_consumer s" c] by simp
next
  case (consumerDeferred e ch d ds)
  then have "d = ChClose" using assms(2) by (auto simp: process_inv_def suffix_Cons)
  then show ?thesis using consumerDeferred by simp
qed (use assms in \<open>auto simp: process_inv_def processRank_def live_def\<close>)

section \<open>The goroutine that is not awaited\<close>

lemma consumer_run:
  assumes "live s" "mn_consumer s = ConsumerLoop cnt0 ch0"
    and "consumerLoop (br_body b) (br_ack b) evs cnt0 ch0 = (StillRunning, cnt, ch)"
  shows "(process_step b)\<^sup>*\<^sup>* s (s\<lparr> mn_consumer := ConsumerLoop cnt ch \<rparr>)"
  using assms
proof (induction evs arbitrary: s cnt0 ch0)
  case Nil
  then have "s\<lparr> mn_consumer := ConsumerLoop cnt ch \<rparr> = s" by (cases s) simp
  then show ?case by simp
next
  case (Cons ev evs)
  then obtain msg ch1 where ev: "ev = Msg msg"
    "consumerTurn b ev (mn_consumer s) = Inr (ConsumerLoop (cnt0 + 1) ch1)"
    "consumerLoop (br_body b) (br_ack b) evs (cnt0 + 1) ch1 = (StillRunning, cnt, ch)"
    by (cases ev) (auto split: sum.splits prod.splits option.splits)
  have "process_step b s (s\<lparr> mn_consumer := ConsumerLoop (cnt0 + 1) ch1 \<rparr>)"
    using ev(1) Cons.prems(2) by (intro process_step.consumer [OF Cons.prems(1) _ _ ev(2)]) simp_all
  moreover have "(process_step b)\<^sup>*\<^sup>* (s\<lparr> mn_consumer := ConsumerLoop (cnt0 + 1) ch1 \<rparr>)
      (s\<lparr> mn_consumer := ConsumerLoop (cnt0 + 1) ch1, mn_consumer := ConsumerLoop cnt ch \<rparr>)"
    using Cons.prems(1) by (intro Cons.IH [OF _ _ ev(3)]) (simp_all add: live_def)
  ultimately show ?case by (simp add: converse_rtranclp_into_rtranclp)
qed

lemma starts_up:
  fixes b :: "('c, 's, 'd, 'e) broker"
  assumes "br_dialPublish b brokerURL = Inr c1" "br_channel b c1 = Inr ch1"
    and "br_dialConsume b brokerURL = Inr c2" "br_channel b c2 = Inr ch2"
    and "br_consume b (fst (br_qos b ch2 1 0 False)) queueName (consumerName 1) False False False False = (ch3, None)"
  shows "(process_step b)\<^sup>*\<^sup>* processStart
    \<lparr> mn_pc = MainSignal, mn_wg = 2, mn_ctx = False, mn_id = 1, mn_pub = PubLoop 0 ch1, mn_consume = ConsumeWait,
      mn_consumer = ConsumerLoop 0 ch3, mn_stop = None \<rparr>"
proof -
  let ?R = "(process_step b)\<^sup>*\<^sup>* processStart"
  let ?st = "\<lambda>pc wg ctx n p c c1. \<lparr> mn_pc = pc, mn_wg = wg, mn_ctx = ctx, mn_id = n, mn_pub = p, mn_consume = c,
    mn_consumer = c1, mn_stop = None \<rparr> :: ('c, 's, 'e) process"
  have step: "?R s''" if "?R s" "process_step b s s'" "s' = s''" for s s' s'' using that by auto
  have r1: "?R (?st MainGoPublish 2 False 0 PubIdle ConsumeIdle ConsumerIdle)"
    by (rule step [OF rtranclp.rtrancl_refl process_step.add]) (simp add: live_def processStart_def assms(1,2,4,5))+
  have r2: "?R (?st MainGoConsume 2 False 0 PubStart ConsumeIdle ConsumerIdle)"
    by (rule step [OF r1 process_step.goPublish]) (simp add: live_def processStart_def assms(1,2,4,5))+
  have r3: "?R (?st MainSignal 2 False 0 PubStart ConsumeStart ConsumerIdle)"
    by (rule step [OF r2 process_step.goConsume]) (simp add: live_def processStart_def assms(1,2,4,5))+
  have r4: "?R (?st MainSignal 2 False 0 (PubLoop 0 ch1) ConsumeStart ConsumerIdle)"
    by (rule step [OF r3 process_step.publisher]) (simp add: live_def processStart_def assms(1,2,4,5))+
  have r5: "?R (?st MainSignal 2 False 1 (PubLoop 0 ch1) ConsumeWait (ConsumerStart c2 1))"
    by (rule step [OF r4 process_step.consumeDials [OF _ _ assms(3)]]) (simp add: live_def processStart_def assms(1,2,4,5))+
  have r6: "?R (?st MainSignal 2 False 1 (PubLoop 0 ch1) ConsumeWait (ConsumerLoop 0 ch3))"
    by (rule step [OF r5 process_step.consumer [where ev = MsgsClosed]]) (simp add: live_def processStart_def assms(1,2,4,5))+
  show ?thesis by (rule r6)
qed

lemma shuts_down:
  fixes b :: "('c, 's, 'd, 'e) broker"
  shows "(process_step b)\<^sup>*\<^sup>*
    \<lparr> mn_pc = MainSignal, mn_wg = 2, mn_ctx = False, mn_id = 1, mn_pub = PubLoop 0 ch1, mn_consume = ConsumeWait,
      mn_consumer = c, mn_stop = None \<rparr>
    \<lparr> mn_pc = MainReturned, mn_wg = 0, mn_ctx = True, mn_id = 1, mn_pub = PubEnding ch1 [],
      mn_consume = ConsumeEnding [ConnClose], mn_consumer = c, mn_stop = None \<rparr>"
proof -
  let ?st = "\<lambda>pc wg ctx n p c c1. \<lparr> mn_pc = pc, mn_wg = wg, mn_ctx = ctx, mn_id = n, mn_pub = p, mn_consume = c,
    mn_consumer = c1, mn_stop = None \<rparr> :: ('c, 's, 'e) process"
  let ?R = "(process_step b)\<^sup>*\<^sup>* (?st MainSignal 2 False 1 (PubLoop 0 ch1) ConsumeWait c)"
  have step: "?R s''" if "?R s" "process_step b s s'" "s' = s''" for s s' s'' using that by auto
  have r1: "?R (?st MainCancel 2 False 1 (PubLoop 0 ch1) ConsumeWait c)"
    by (rule step [OF rtranclp.rtrancl_refl process_step.signal]) (simp add: live_def)+
  have r2: "?R (?st MainWait 2 True 1 (PubLoop 0 ch1) ConsumeWait c)"
    by (rule step [OF r1 process_step.cancel]) (simp add: live_def)+
  have r3: "?R (?st MainWait 2 True 1 (PubEnding ch1 [ChClose, ConnClose, WgDone]) ConsumeWait c)"
    by (rule step [OF r2 process_step.publisher]) (simp add: live_def)+
  have r4: "?R (?st MainWait 2 True 1 (PubEnding ch1 [ConnClose, WgDone]) ConsumeWait c)"
    by (rule step [OF r3 process_step.publisherDeferred]) (simp add: live_def)+
  have r5: "?R (?st MainWait 2 True 1 (PubEnding ch1 [WgDone]) ConsumeWait c)"
    by (rule step [OF r4 process_step.publisherDeferred]) (simp add: live_def)+
  have r6: "?R (?st MainWait 1 True 1 (PubEnding ch1 []) ConsumeWait c)"
    by (rule step [OF r5 process_step.publisherDeferred]) (simp add: live_def)+
  have r7: "?R (?st MainWait 1 True 1 (PubEnding ch1 []) (ConsumeEnding [WgDone, ConnClose]) c)"
    by (rule step [OF r6 process_step.consumeCancelled]) (simp add: live_def)+
  have r8: "?R (?st MainWait 0 True 1 (PubEnding ch1 []) (ConsumeEnding [ConnClose]) c)"
    by (rule step [OF r7 process_step.consumeDeferred]) (simp add: live_def)+
  have r9: "?R (?st MainReturned 0 True 1 (PubEnding ch1 []) (ConsumeEnding [ConnClose]) c)"
    by (rule step [OF r8 process_step.waited]) (simp add: live_def)+
  show ?thesis by (rule r9)
qed

lemma returns_over_consumer:
  fixes b :: "('c, 's, 'd, 'e) broker"
  assumes "br_dialPublish b brokerURL = Inr c1" "br_channel b c1 = Inr ch1"
    and "br_dialConsume b brokerURL = Inr c2" "br_channel b c2 = Inr ch2"
    and "br_consume b (fst (br_qos b ch2 1 0 False)) queueName (consumerName 1) False False False False = (ch3, None)"
    and "consumerLoop (br_body b) (br_ack b) evs 0 ch3 = (StillRunning, cnt, ch)"
  shows "\<exists>s. (process_step b)\<^sup>*\<^sup>* processStart s \<and> mn_pc s = MainReturned \<and> mn_stop s = None \<and>
    mn_consume s = ConsumeEnding [ConnClose] \<and> mn_consumer s = ConsumerLoop cnt ch"
proof -
  let ?s = "\<lparr> mn_pc = MainSignal, mn_wg = 2, mn_ctx = False, mn_id = 1, mn_pub = PubLoop 0 ch1,
    mn_consume = ConsumeWait, mn_consumer = ConsumerLoop 0 ch3, mn_stop = None \<rparr> :: ('c, 's, 'e) process"
  have "(process_step b)\<^sup>*\<^sup>* ?s (?s\<lparr> mn_consumer := ConsumerLoop cnt ch \<rparr>)"
    by (rule consumer_run [OF _ _ assms(6)]) (simp_all add: live_def)
  then have "(process_step b)\<^sup>*\<^sup>* processStart (?s\<lparr> mn_consumer := ConsumerLoop cnt ch \<rparr>)"
    using starts_up [OF assms(1-5)] by (rule rtranclp_trans [rotated])
  from rtranclp_trans [OF this, simplified, OF shuts_down] show ?thesis
    by (intro exI conjI) (assumption, simp_all)
qed

end
