(* ===== verification/Captures.thy ===== *)
theory Captures
  imports Captured
begin

text \<open>
  \<open>main\<close> of the sniffer with its two captures, one after the other, each with a parser of its own whose goroutines
  live on while the next is parsed; \<open>handleMsg\<close>, which they share; how the program crashes, where it blocks for
  ever, and the interrupt that ends it.
\<close>

section \<open>The main program\<close>

record capture =
  cp_parser :: parser
  cp_input :: "input list"

text \<open>
  \<open>mn_captures\<close> are the captures begun, \<open>mn_todo\<close> those to come, with their names and packets (\<open>parsePcap\<close> returns at
  once if there is no name).  \<open>mn_now\<close> is the global \<open>currentPacketTimestamp\<close>, \<open>mn_pcap\<close> the local \<open>pcap\<close> of
  \<open>handleMsg\<close>.  The messages in \<open>chMsg\<close> and those handled are kept with the number of the capture they come from, which
  the program does not know, and those handled with \<open>pcap\<close> and the global at that moment.
\<close>

datatype (plugins only: code size) main_status = Active | MainDone | PanicExit

record main_state =
  mn_captures :: "capture list"
  mn_todo :: "(gostring \<times> packet list) list"
  mn_now :: btime
  mn_pcap :: gostring
  mn_chMsg :: "(nat \<times> wrappedMessage) list"
  mn_handled :: "(nat \<times> gostring \<times> btime \<times> wrappedMessage) list"
  mn_out :: "(time_error + report) list"
  mn_status :: main_status

definition main_start :: "(gostring \<times> packet list) list \<Rightarrow> main_state" where
  "main_start caps =
     \<lparr> mn_captures = [], mn_todo = caps, mn_now = zeroBtime, mn_pcap = [], mn_chMsg = [],
       mn_handled = [], mn_out = [], mn_status = Active \<rparr>"

text \<open>What a step of the parsing thread makes of the global: a packet that begins sets it.\<close>

fun timeAfter :: "input list \<Rightarrow> input list \<Rightarrow> btime \<Rightarrow> btime" where
  "timeAfter (Stamp t # pks) pks' now = (if pks' = pks then t else now)"
| "timeAfter pks pks' now = now"

definition chMsg_capacity :: nat where
  "chMsg_capacity = 1"

definition all_read :: "main_state \<Rightarrow> bool" where
  "all_read s \<longleftrightarrow> list_all (\<lambda>c. cp_input c = []) (mn_captures s)"

text \<open>
  \<open>made\<close>: whether \<open>currentPcap\<close> is made (without a buffer).  As the code is, it is \<open>nil\<close> (\<open>currentPcap_made\<close>), and the
  send in \<open>parsePcap\<close> blocks for ever: there is no \<open>begin_capture\<close>.  If it is made, the send and its receipt in
  \<open>handleMsg\<close> are one step.  After the last capture \<open>main\<close> waits for an interrupt, cancels the context and
  returns, which ends the program.  A panic of the parsing thread or of \<open>handleMsg\<close> ends it, too.  The captures are
  those whose files can be opened; otherwise \<open>main\<close> ends in \<open>log.Fatal\<close>.
\<close>

definition currentPcap_made :: bool where
  "currentPcap_made = (currentPcap_init \<noteq> None)"

inductive main_step :: "bool \<Rightarrow> main_state \<Rightarrow> main_state \<Rightarrow> bool" for made where
  begin_capture: "mn_status s = Active \<Longrightarrow> made \<Longrightarrow> all_read s \<Longrightarrow> mn_todo s = (name, pks) # todo \<Longrightarrow>
    main_step made s
      (s\<lparr> mn_captures := mn_captures s @ [\<lparr> cp_parser = NewParser True, cp_input = inputs pks \<rparr>],
          mn_todo := todo, mn_pcap := name \<rparr>)"
| capture_silent: "mn_status s = Active \<Longrightarrow> i < length (mn_captures s) \<Longrightarrow> c = mn_captures s ! i \<Longrightarrow>
    sniff_step (cp_parser c) (cp_input c) None p' pks' \<Longrightarrow>
    main_step made s
      (s\<lparr> mn_captures := (mn_captures s)[i := \<lparr> cp_parser = p', cp_input = pks' \<rparr>],
          mn_now := timeAfter (cp_input c) pks' (mn_now s) \<rparr>)"
| capture_send: "mn_status s = Active \<Longrightarrow> i < length (mn_captures s) \<Longrightarrow> c = mn_captures s ! i \<Longrightarrow>
    sniff_step (cp_parser c) (cp_input c) (Some w) p' pks' \<Longrightarrow> length (mn_chMsg s) < chMsg_capacity \<Longrightarrow>
    main_step made s
      (s\<lparr> mn_captures := (mn_captures s)[i := \<lparr> cp_parser = p', cp_input = pks' \<rparr>],
          mn_chMsg := mn_chMsg s @ [(i, w)] \<rparr>)"
| capture_panic: "mn_status s = Active \<Longrightarrow> i < length (mn_captures s) \<Longrightarrow> c = mn_captures s ! i \<Longrightarrow>
    parse_panics (cp_parser c) (cp_input c) \<Longrightarrow> main_step made s (s\<lparr> mn_status := PanicExit \<rparr>)"
| main_handle: "mn_status s = Active \<Longrightarrow> mn_chMsg s = (i, w) # ws \<Longrightarrow>
    handleMessage (mn_pcap s) (mn_now s) w = Inr r \<Longrightarrow>
    main_step made s
      (s\<lparr> mn_chMsg := ws, mn_handled := mn_handled s @ [(i, mn_pcap s, mn_now s, w)], mn_out := mn_out s @ [r] \<rparr>)"
| handle_panic: "mn_status s = Active \<Longrightarrow> mn_chMsg s = (i, w) # ws \<Longrightarrow>
    handleMessage (mn_pcap s) (mn_now s) w = Inl e \<Longrightarrow> main_step made s (s\<lparr> mn_status := PanicExit \<rparr>)"
| interrupt: "mn_status s = Active \<Longrightarrow> mn_todo s = [] \<Longrightarrow> all_read s \<Longrightarrow>
    main_step made s (s\<lparr> mn_status := MainDone \<rparr>)"

text \<open>Where \<open>main\<close> is when the captures begun are read: at \<open><-sg\<close>, or at the send of the next name.\<close>

definition at_interrupt :: "main_state \<Rightarrow> bool" where
  "at_interrupt s \<longleftrightarrow> mn_status s = Active \<and> mn_todo s = [] \<and> all_read s"

definition at_nil_send :: "bool \<Rightarrow> main_state \<Rightarrow> bool" where
  "at_nil_send made s \<longleftrightarrow> mn_status s = Active \<and> \<not> made \<and> mn_todo s \<noteq> [] \<and> all_read s"

abbreviation main_steps :: "bool \<Rightarrow> main_state \<Rightarrow> main_state \<Rightarrow> bool" where
  "main_steps made \<equiv> (main_step made)\<^sup>*\<^sup>*"

section \<open>Each capture by itself\<close>

text \<open>Of the messages with the number of their capture, those of capture \<open>i\<close>.\<close>

definition handledOf :: "nat \<Rightarrow> main_state \<Rightarrow> wrappedMessage list" where
  "handledOf i s = map (\<lambda>(j, pcap, now, w). w) (filter (\<lambda>x. fst x = i) (mn_handled s))"

definition queuedOf :: "nat \<Rightarrow> main_state \<Rightarrow> wrappedMessage list" where
  "queuedOf i s = map snd (filter (\<lambda>x. fst x = i) (mn_chMsg s))"

definition capture_runs :: "(gostring \<times> packet list) list \<Rightarrow> main_state \<Rightarrow> nat \<Rightarrow> bool" where
  "capture_runs caps s i \<longleftrightarrow>
     sniff_run (NewParser True) (inputs (snd (caps ! i))) (handledOf i s @ queuedOf i s)
       (cp_parser (mn_captures s ! i)) (cp_input (mn_captures s ! i))"

definition main_inv :: "(gostring \<times> packet list) list \<Rightarrow> main_state \<Rightarrow> bool" where
  "main_inv caps s \<longleftrightarrow>
     length (mn_captures s) \<le> length caps \<and> mn_todo s = drop (length (mn_captures s)) caps \<and>
     (\<forall>i < length (mn_captures s). capture_runs caps s i) \<and>
     (\<forall>(i, w) \<in> set (mn_chMsg s). i < length (mn_captures s)) \<and>
     (\<forall>(i, pcap, now, w) \<in> set (mn_handled s). i < length (mn_captures s)) \<and>
     map Inr (mn_out s) = map (\<lambda>(i, pcap, now, w). handleMessage pcap now w) (mn_handled s)"

lemma main_invD:
  assumes "main_inv caps s"
  shows "length (mn_captures s) \<le> length caps" "mn_todo s = drop (length (mn_captures s)) caps"
    "i < length (mn_captures s) \<Longrightarrow> capture_runs caps s i"
    "(i, w) \<in> set (mn_chMsg s) \<Longrightarrow> i < length (mn_captures s)"
    "(i, pcap, now, w) \<in> set (mn_handled s) \<Longrightarrow> i < length (mn_captures s)"
  using assms by (auto simp: main_inv_def)

lemma main_inv_start: "main_inv caps (main_start caps)"
  by (simp add: main_inv_def main_start_def)

lemma queuedOf_simps [simp]:
  "queuedOf i (s\<lparr> mn_captures := cs \<rparr>) = queuedOf i s" "handledOf i (s\<lparr> mn_captures := cs \<rparr>) = handledOf i s"
  "queuedOf i (s\<lparr> mn_now := t \<rparr>) = queuedOf i s" "handledOf i (s\<lparr> mn_now := t \<rparr>) = handledOf i s"
  "queuedOf i (s\<lparr> mn_todo := td \<rparr>) = queuedOf i s" "handledOf i (s\<lparr> mn_todo := td \<rparr>) = handledOf i s"
  "queuedOf i (s\<lparr> mn_pcap := f \<rparr>) = queuedOf i s" "handledOf i (s\<lparr> mn_pcap := f \<rparr>) = handledOf i s"
  "queuedOf i (s\<lparr> mn_status := b \<rparr>) = queuedOf i s" "handledOf i (s\<lparr> mn_status := b \<rparr>) = handledOf i s"
  "queuedOf i (s\<lparr> mn_out := out \<rparr>) = queuedOf i s" "handledOf i (s\<lparr> mn_out := out \<rparr>) = handledOf i s"
  "queuedOf i (s\<lparr> mn_handled := hs \<rparr>) = queuedOf i s" "handledOf i (s\<lparr> mn_chMsg := qs \<rparr>) = handledOf i s"
  "queuedOf i (s\<lparr> mn_chMsg := (j, w) # qs \<rparr>) = (if i = j then [w] else []) @ queuedOf i (s\<lparr> mn_chMsg := qs \<rparr>)"
  "queuedOf i (s\<lparr> mn_chMsg := qs @ [(j, w)] \<rparr>) = queuedOf i (s\<lparr> mn_chMsg := qs \<rparr>) @ (if i = j then [w] else [])"
  "handledOf i (s\<lparr> mn_handled := hs @ [(j, f, t, w)] \<rparr>) =
     handledOf i (s\<lparr> mn_handled := hs \<rparr>) @ (if i = j then [w] else [])"
  by (auto simp: queuedOf_def handledOf_def)

lemma queuedOf_same [simp]: "queuedOf i (s\<lparr> mn_chMsg := mn_chMsg s \<rparr>) = queuedOf i s"
  "handledOf i (s\<lparr> mn_handled := mn_handled s \<rparr>) = handledOf i s"
  by simp_all

text \<open>A step of one capture leaves the runs of the others alone and prolongs its own.\<close>

lemma capture_runs_step:
  assumes "capture_runs caps s j" "i < length (mn_captures s)" "c = mn_captures s ! i"
    and "sniff_step (cp_parser c) (cp_input c) x p' pks'"
    and "handledOf j s' @ queuedOf j s' = handledOf j s @ queuedOf j s @ (if i = j then case_option [] (\<lambda>w. [w]) x else [])"
    and "mn_captures s' = (mn_captures s)[i := \<lparr> cp_parser = p', cp_input = pks' \<rparr>]"
  shows "capture_runs caps s' j"
proof (cases "i = j")
  case True
  have "sniff_run (NewParser True) (inputs (snd (caps ! j))) ((handledOf j s @ queuedOf j s) @ case_option [] (\<lambda>w. [w]) x) p' pks'"
    using assms(1,3,4) True by (intro sniff_run_step) (simp_all add: capture_runs_def)
  then show ?thesis using assms(2,5,6) True by (simp add: capture_runs_def)
next
  case False
  then show ?thesis using assms(1,5,6) by (simp add: capture_runs_def)
qed

lemma main_inv_status: "main_inv caps (s\<lparr> mn_status := x \<rparr>) \<longleftrightarrow> main_inv caps s"
  by (simp add: main_inv_def capture_runs_def)

lemma main_inv_step:
  assumes "main_step made s s'" "main_inv caps s"
  shows "main_inv caps s'"
  using assms(1)
proof cases
  case (begin_capture name pks todo)
  let ?k = "length (mn_captures s)"
  have k: "?k < length caps" "caps ! ?k = (name, pks)" "todo = drop (Suc ?k) caps"
    using main_invD(1,2) [OF assms(2)] begin_capture(5)
    by (metis drop_all list.distinct(1) not_le_imp_less, metis Cons_nth_drop_Suc drop_all list.distinct(1) list.inject not_le_imp_less,
        metis Cons_nth_drop_Suc drop_all list.distinct(1) list.inject not_le_imp_less)
  have "handledOf ?k s = [] \<and> queuedOf ?k s = []"
    using main_invD(4,5) [OF assms(2)] by (fastforce simp: handledOf_def queuedOf_def filter_empty_conv)
  then have new: "capture_runs caps s' ?k"
    using k(2) by (simp add: begin_capture(1) capture_runs_def sniff_run_nil)
  have "capture_runs caps s' i" if "i < ?k" for i
    using main_invD(3) [OF assms(2) that] that by (simp add: begin_capture(1) capture_runs_def nth_append)
  with new have "\<forall>i < length (mn_captures s'). capture_runs caps s' i"
    by (auto simp: begin_capture(1) less_Suc_eq)
  then show ?thesis
    using assms(2) k begin_capture(2) unfolding main_inv_def by (auto simp: begin_capture(1) less_Suc_eq)
next
  case (capture_silent i c p' pks')
  have "capture_runs caps s' j" if "j < length (mn_captures s)" for j
    using capture_runs_step [OF main_invD(3) [OF assms(2) that] capture_silent(3,4,5)] by (simp add: capture_silent(1))
  then show ?thesis using assms(2) capture_silent(2) unfolding main_inv_def by (simp add: capture_silent(1))
next
  case (capture_send i c w p' pks')
  have "capture_runs caps s' j" if "j < length (mn_captures s)" for j
    using capture_runs_step [OF main_invD(3) [OF assms(2) that] capture_send(3,4,5)] by (simp add: capture_send(1))
  then show ?thesis using assms(2) capture_send(2,3) unfolding main_inv_def by (simp add: capture_send(1))
next
  case (main_handle i w ws r)
  have "handledOf j s' @ queuedOf j s' = handledOf j s @ queuedOf j s" for j
    by (simp add: main_handle(1,3) queuedOf_def handledOf_def)
  then have "capture_runs caps s' j" if "j < length (mn_captures s)" for j
    using main_invD(3) [OF assms(2) that] by (simp add: capture_runs_def) (simp add: main_handle(1))
  then show ?thesis
    using assms(2) main_handle(2,3,4) unfolding main_inv_def by (simp add: main_handle(1))
qed (use assms(2) main_inv_status in simp_all)

lemma main_inv_steps: "main_steps made s s' \<Longrightarrow> main_inv caps s \<Longrightarrow> main_inv caps s'"
  by (induction rule: rtranclp_induct) (auto intro: main_inv_step)

section \<open>The program halts\<close>

definition main_order :: "(main_state \<times> main_state) set" where
  "main_order = measures
     [\<lambda>s. length (mn_todo s) + (if mn_status s = Active then 1 else 0),
      \<lambda>s. \<Sum>c \<leftarrow> mn_captures s. input_measure (cp_input c),
      \<lambda>s. 2 * (\<Sum>c \<leftarrow> mn_captures s. parser_measure (cp_parser c)) + length (mn_chMsg s)]"

lemma wf_main_order: "wf main_order"
  by (simp add: main_order_def)

lemma sum_list_map_update:
  "i < length xs \<Longrightarrow> (\<Sum>x \<leftarrow> xs[i := y]. f x) + f (xs ! i) = (\<Sum>x \<leftarrow> xs. f x) + (f y :: nat)"
  by (induction xs arbitrary: i) (auto simp: nth_Cons split: nat.split)

lemma capture_parser_ok: "main_inv caps s \<Longrightarrow> i < length (mn_captures s) \<Longrightarrow> parser_ok (cp_parser (mn_captures s ! i))"
  using main_invD(3) run_projects [THEN projectsD(1)] parser_ok_new unfolding capture_runs_def by blast

lemma main_step_decreases:
  assumes "main_step made s s'" "main_inv caps s"
  shows "(s', s) \<in> main_order"
proof -
  have moved: "(s\<lparr> mn_captures := (mn_captures s)[i := \<lparr> cp_parser = p', cp_input = pks' \<rparr>], mn_now := now, mn_chMsg := qs \<rparr>, s) \<in> main_order"
    if i: "i < length (mn_captures s)" "c = mn_captures s ! i" "sniff_step (cp_parser c) (cp_input c) x p' pks'"
      and qs: "x = None \<longrightarrow> qs = mn_chMsg s" "length qs \<le> Suc (length (mn_chMsg s))" for i c x p' pks' now qs
    using sniff_step_decreases [OF i(3)] capture_parser_ok [OF assms(2) i(1)]
      sum_list_map_update [OF i(1), of "\<lambda>c. input_measure (cp_input c)" "\<lparr> cp_parser = p', cp_input = pks' \<rparr>"]
      sum_list_map_update [OF i(1), of "\<lambda>c. parser_measure (cp_parser c)" "\<lparr> cp_parser = p', cp_input = pks' \<rparr>"] qs
    unfolding main_order_def i(2) by (auto simp: in_measures)
  show ?thesis
    using assms(1)
  proof cases
    case (capture_silent i c p' pks')
    then show ?thesis using moved [OF capture_silent(3,4,5), of "mn_chMsg s"] by simp
  next
    case (capture_send i c w p' pks')
    then show ?thesis using moved [OF capture_send(3,4,5), of "mn_chMsg s @ [(i, w)]" "mn_now s"] by simp
  qed (auto simp: main_order_def)
qed

lemma main_no_infinite_run:
  assumes "f 0 = main_start caps"
  shows "\<not> (\<forall>i. main_step made (f i) (f (Suc i)))"
proof
  assume f: "\<forall>i. main_step made (f i) (f (Suc i))"
  have "main_inv caps (f i)" for i
    using assms f by (induction i) (auto intro: main_inv_start main_inv_step)
  then have "(f (Suc i), f i) \<in> main_order" for i
    using f main_step_decreases by blast
  then show False using wf_main_order unfolding wf_iff_no_infinite_down_chain by blast
qed

text \<open>Nothing can move any more but for the interrupt.\<close>

definition at_rest :: "bool \<Rightarrow> main_state \<Rightarrow> bool" where
  "at_rest made s \<longleftrightarrow> mn_status s = Active \<and> (\<forall>s'. main_step made s s' \<longrightarrow> mn_status s' = MainDone)"

lemma main_comes_to_rest:
  "main_inv caps s \<Longrightarrow> mn_status s = Active \<Longrightarrow>
     \<exists>s'. main_steps made s s' \<and> (at_rest made s' \<or> mn_status s' = PanicExit)"
proof (induction s rule: wf_induct_rule [OF wf_main_order])
  case (1 s)
  show ?case
  proof (cases "at_rest made s")
    case False
    then obtain s1 where s1: "main_step made s s1" "mn_status s1 \<noteq> MainDone" using "1.prems"(2) by (auto simp: at_rest_def)
    show ?thesis
    proof (cases "mn_status s1 = Active")
      case True
      then show ?thesis
        using "1.IH" [OF main_step_decreases [OF s1(1) "1.prems"(1)] main_inv_step [OF s1(1) "1.prems"(1)]] s1(1)
        by (blast intro: converse_rtranclp_into_rtranclp)
    next
      case False
      then have "mn_status s1 = PanicExit" using s1(2) by (cases "mn_status s1") auto
      then show ?thesis using s1(1) by blast
    qed
  qed blast
qed

lemma main_blocked:
  assumes "main_steps False (main_start (c # caps)) s"
  shows "s = main_start (c # caps)"
proof -
  have "\<not> main_step False (main_start (c # caps)) s'" for s'
    by (auto simp: main_start_def elim: main_step.cases)
  then show ?thesis using assms by (auto elim: converse_rtranclpE)
qed

section \<open>At any time\<close>

lemma handledOf_not_begun: "main_inv caps s \<Longrightarrow> length (mn_captures s) \<le> i \<Longrightarrow> handledOf i s = []"
  using main_invD(5) by (fastforce simp: handledOf_def filter_empty_conv)

lemma handledOf_run:
  assumes "main_inv caps s" "i < length (mn_captures s)"
  obtains qs p rest where "sniff_run (NewParser True) (inputs (snd (caps ! i))) (handledOf i s @ qs) p rest"
  using main_invD(3) [OF assms] by (auto simp: capture_runs_def)

lemma handled_channel:
  assumes "main_inv caps s" "(i, pcap, now, w) \<in> set (mn_handled s)"
  shows "i < length caps \<and> wm_ChannelID w \<noteq> 0"
proof -
  have i: "i < length (mn_captures s)" using main_invD(5) [OF assms] .
  have "w \<in> set (handledOf i s)" using assms(2) by (force simp: handledOf_def)
  then have "wm_ChannelID w \<noteq> 0" using handledOf_run [OF assms(1) i] run_channel by (metis UnCI set_append)
  then show ?thesis using i main_invD(1) [OF assms(1)] by simp
qed

lemma captures_at_any_time:
  assumes "main_inv caps s" "n \<noteq> 0"
  shows "mset (sentFrom port n (handledOf i s)) \<subseteq>#
      mset (map (wrapAt (snd (caps ! i)) port n)
        (deliveriesOf (refAt (snd (caps ! i)) port n) (messagesAt (snd (caps ! i)) port n)))"
    "list_all (\<lambda>m. \<not> cancels_tag t m) (messagesAt (snd (caps ! i)) port n) \<Longrightarrow>
      prefix (sentTo t (sentFrom port n (handledOf i s)))
        (map (wrapAt (snd (caps ! i)) port n)
          (deliveriesFor t (refAt (snd (caps ! i)) port n) (messagesAt (snd (caps ! i)) port n)))"
proof (goal_cases)
  case 1
  show ?case
  proof (cases "i < length (mn_captures s)")
    case True
    then show ?thesis using handledOf_run [OF assms(1)] run_at_any_time(1) [OF _ assms(2)] by metis
  qed (simp add: handledOf_not_begun [OF assms(1)])
next
  case 2
  show ?case
  proof (cases "i < length (mn_captures s)")
    case True
    then show ?thesis using handledOf_run [OF assms(1)] run_at_any_time(2) [OF _ assms(2) 2] by metis
  qed (simp add: handledOf_not_begun [OF assms(1)] sentTo_def)
qed

text \<open>If the parser of a capture never sends anything, nothing is handled.\<close>

lemma no_message_handled:
  assumes "main_steps made (main_start [(name, pks)]) s"
    and "\<And>ws p rest. sniff_run (NewParser True) (inputs pks) ws p rest \<Longrightarrow> ws = []"
  shows "mn_handled s = []"
proof (rule ccontr)
  assume "mn_handled s \<noteq> []"
  then obtain i pcap now w where h: "(i, pcap, now, w) \<in> set (mn_handled s)" by (cases "mn_handled s") auto
  have inv: "main_inv [(name, pks)] s" using main_inv_steps [OF assms(1) main_inv_start] .
  have i: "i < length (mn_captures s)" "i = 0" using main_invD(5,1) [OF inv] h by fastforce+
  obtain qs p rest where "sniff_run (NewParser True) (inputs pks) (handledOf i s @ qs) p rest"
    using handledOf_run [OF inv i(1)] i(2) by auto
  then have "handledOf i s = []" using assms(2) by blast
  then show False using h by (force simp: handledOf_def filter_empty_conv)
qed

section \<open>At rest\<close>

text \<open>
  Progress: a program at rest has read the captures it has begun, \<open>chMsg\<close> is empty and nothing is under way; and
  \<open>main\<close> waits for the interrupt, or is blocked by the channel that is \<open>nil\<close>.
\<close>

definition nothing_under_way :: "main_state \<Rightarrow> bool" where
  "nothing_under_way s \<longleftrightarrow> all_read s \<and> mn_chMsg s = [] \<and>
     (\<forall>i port n. i < length (mn_captures s) \<and> n \<noteq> 0 \<longrightarrow>
        allPending (chanAt (cp_parser (mn_captures s ! i)) [] port n) = {#})"

lemma rest_progress:
  assumes "main_inv caps s" "at_rest made s"
  shows "nothing_under_way s" "at_interrupt s \<or> at_nil_send made s"
proof -
  have active: "mn_status s = Active" and stuck: "\<And>s'. main_step made s s' \<Longrightarrow> mn_status s' = MainDone"
    using assms(2) by (simp_all add: at_rest_def)
  have ok: "parser_ok (cp_parser (mn_captures s ! i))" if "i < length (mn_captures s)" for i
    using capture_parser_ok [OF assms(1) that] .
  have silent: "\<not> sniff_step (cp_parser (mn_captures s ! i)) (cp_input (mn_captures s ! i)) None p' pks'"
    if "i < length (mn_captures s)" for i p' pks'
    using stuck [OF capture_silent [OF active that refl, of p' pks']] active by auto
  have "\<not> parse_panics (cp_parser (mn_captures s ! i)) (cp_input (mn_captures s ! i))"
    if "i < length (mn_captures s)" for i
    using stuck [OF capture_panic [OF active that refl]] by auto
  then have read: "cp_input (mn_captures s ! i) = []" if "i < length (mn_captures s)" for i
    using reads_or_panics [OF ok [OF that], of "cp_input (mn_captures s ! i)"] silent [OF that] that by blast
  then have all: "all_read s" by (simp add: all_read_def list_all_length)
  have chMsg: "mn_chMsg s = []"
  proof (cases "mn_chMsg s")
    case (Cons x ws)
    obtain i w where x: "x = (i, w)" by (cases x)
    show ?thesis
    proof (cases "handleMessage (mn_pcap s) (mn_now s) w")
      case (Inl e)
      then show ?thesis using stuck [OF handle_panic [OF active]] Cons x by fastforce
    next
      case (Inr r)
      then show ?thesis using stuck [OF main_handle [OF active]] Cons x active by fastforce
    qed
  qed
  have "\<not> sniff_step (cp_parser (mn_captures s ! i)) [] (Some w) p' []" if "i < length (mn_captures s)" for i w p'
    using stuck [OF capture_send [OF active that refl, of w p' "[]"]] active chMsg read [OF that]
    by (auto simp: chMsg_capacity_def)
  then have "\<not> sniff_step (cp_parser (mn_captures s ! i)) [] x p' []" if "i < length (mn_captures s)" for i x p'
    using that silent [OF that] read [OF that] by (cases x) auto
  then show "nothing_under_way s"
    using all chMsg stuck_drained [OF ok] unfolding nothing_under_way_def by blast
  show "at_interrupt s \<or> at_nil_send made s"
  proof (cases "mn_todo s")
    case (Cons x todo)
    then show ?thesis
      using stuck [OF begin_capture [OF active _ all, where name = "fst x" and pks = "snd x" and todo = todo]] active all
      by (auto simp: at_nil_send_def)
  qed (simp add: at_interrupt_def active all)
qed

text \<open>The captures by which the program does not crash: they are parsed, and have no body too short for \<open>handleMsg\<close>.\<close>

definition sound_captures :: "(gostring \<times> packet list) list \<Rightarrow> bool" where
  "sound_captures caps \<longleftrightarrow>
     (\<forall>(name, pks) \<in> set caps. (\<exists>p0. parsePackets pks (NewParser True) = Inr p0) \<and> decodable_bodies pks)"

lemma sound_captureD:
  assumes "sound_captures caps" "i < length caps"
  shows "\<exists>p0. parsePackets (snd (caps ! i)) (NewParser True) = Inr p0" "decodable_bodies (snd (caps ! i))"
proof -
  have "caps ! i \<in> set caps" using assms(2) by simp
  then show "\<exists>p0. parsePackets (snd (caps ! i)) (NewParser True) = Inr p0" "decodable_bodies (snd (caps ! i))"
    using assms(1) unfolding sound_captures_def case_prod_unfold by blast+
qed

lemma accepting_no_panic:
  assumes "accepting p pks" "parser_ok p"
  shows "\<not> parse_panics p pks"
proof (cases "(p, pks)" rule: parse_panics.cases)
  case (2 q sep cep f fs bad rest)
  then have "accepting q (Payload sep cep ([f] @ fs) bad # rest)" "parser_ok q" using assms by simp_all
  from accepting_payload [OF this] show ?thesis using 2 by (auto split: sum.splits)
qed (use assms in \<open>auto simp: accepting_def\<close>)

lemma sound_no_panic:
  assumes "main_step made s s'" "main_inv caps s" "sound_captures caps" "mn_status s \<noteq> PanicExit"
  shows "mn_status s' \<noteq> PanicExit"
  using assms(1)
proof cases
  case (capture_panic i c)
  have i: "i < length caps" using capture_panic(3) main_invD(1) [OF assms(2)] by simp
  obtain p0 where "parsePackets (snd (caps ! i)) (NewParser True) = Inr p0" using sound_captureD(1) [OF assms(3) i] by blast
  then have "accepting (cp_parser c) (cp_input c)"
    using run_accepting [OF _ parser_ok_new accepting_inputs [OF _ parser_ok_new]]
      main_invD(3) [OF assms(2) capture_panic(3)] capture_panic(4) unfolding capture_runs_def by blast
  then show ?thesis using accepting_no_panic capture_parser_ok [OF assms(2) capture_panic(3)] capture_panic(4,5) by blast
next
  case (handle_panic i w ws e)
  have i: "i < length (mn_captures s)" using main_invD(4) [OF assms(2), of i w] handle_panic(3) by simp
  then have dec: "decodable_bodies (snd (caps ! i))" using sound_captureD(2) [OF assms(3)] main_invD(1) [OF assms(2)] by simp
  have "w \<in> set (handledOf i s @ queuedOf i s)" using handle_panic(3) by (auto simp: queuedOf_def)
  then have "\<exists>r. handleMessage (mn_pcap s) (mn_now s) w = Inr r"
    using main_invD(3) [OF assms(2) i] run_decodable [OF _ dec] unfolding capture_runs_def by blast
  then show ?thesis using handle_panic(4) by simp
qed (use assms(4) in simp_all)

lemma sound_never_panics:
  "main_steps made s s' \<Longrightarrow> main_inv caps s \<Longrightarrow> sound_captures caps \<Longrightarrow> mn_status s \<noteq> PanicExit \<Longrightarrow> mn_status s' \<noteq> PanicExit"
proof (induction rule: rtranclp_induct)
  case (step s1 s2)
  then show ?case using sound_no_panic [OF step.hyps(2) main_inv_steps [OF step.hyps(1)]] by blast
qed simp

section \<open>Waiting for the interrupt\<close>

definition settled :: "bool \<Rightarrow> main_state \<Rightarrow> bool" where
  "settled made s \<longleftrightarrow> at_interrupt s \<and> at_rest made s"

definition all_handled :: "(gostring \<times> packet list) list \<Rightarrow> main_state \<Rightarrow> bool" where
  "all_handled caps s \<longleftrightarrow> length (mn_captures s) = length caps \<and>
     (\<forall>i name pks port n. i < length caps \<and> caps ! i = (name, pks) \<and> n \<noteq> 0 \<longrightarrow>
        mset (sentFrom port n (handledOf i s)) =
          mset (map (wrapAt pks port n) (deliveriesOf (refAt pks port n) (messagesAt pks port n))) \<and>
        (\<forall>t. list_all (\<lambda>m. \<not> cancels_tag t m) (messagesAt pks port n) \<longrightarrow>
           sentTo t (sentFrom port n (handledOf i s)) =
             map (wrapAt pks port n) (deliveriesFor t (refAt pks port n) (messagesAt pks port n))))"

lemma settled_runs:
  assumes "main_inv caps s" "settled made s"
  shows "length (mn_captures s) = length caps" "mn_chMsg s = []"
    "i < length caps \<Longrightarrow>
       sniff_run (NewParser True) (inputs (snd (caps ! i))) (handledOf i s) (cp_parser (mn_captures s ! i)) []"
proof -
  have w: "at_interrupt s" "at_rest made s" using assms(2) by (simp_all add: settled_def)
  have rest: "nothing_under_way s" using rest_progress(1) [OF assms(1) w(2)] .
  show len: "length (mn_captures s) = length caps"
    using main_invD(1,2) [OF assms(1)] w(1) by (simp add: at_interrupt_def)
  show chMsg: "mn_chMsg s = []" using rest by (simp add: nothing_under_way_def)
  assume i: "i < length caps"
  then have "cp_input (mn_captures s ! i) = []" "queuedOf i s = []"
    using rest len chMsg by (simp_all add: nothing_under_way_def all_read_def list_all_length queuedOf_def)
  then show "sniff_run (NewParser True) (inputs (snd (caps ! i))) (handledOf i s) (cp_parser (mn_captures s ! i)) []"
    using main_invD(3) [OF assms(1)] len i unfolding capture_runs_def by (metis append_Nil2)
qed

lemma settled_all_handled:
  assumes "main_inv caps s" "settled made s"
  shows "all_handled caps s"
proof -
  note runs = settled_runs [OF assms]
  have rest: "nothing_under_way s" using rest_progress(1) [OF assms(1)] assms(2) unfolding settled_def by blast
  have pending: "allPending (chanAt (cp_parser (mn_captures s ! i)) [] port n) = {#}"
    if "i < length caps" "n \<noteq> 0" for i port n
    using rest runs(1) that by (simp add: nothing_under_way_def)
  show ?thesis
    unfolding all_handled_def
  proof (intro conjI allI impI runs(1); elim conjE)
    fix i name pks port n t
    assume i: "i < length caps" "caps ! i = (name, pks)" "n \<noteq> (0 :: u16)"
    have run: "sniff_run (NewParser True) (inputs pks) (handledOf i s) (cp_parser (mn_captures s ! i)) []"
      using runs(3) [OF i(1)] i(2) by simp
    show "mset (sentFrom port n (handledOf i s)) =
        mset (map (wrapAt pks port n) (deliveriesOf (refAt pks port n) (messagesAt pks port n)))"
      using run_at_end(1) [OF run i(3) pending [OF i(1,3)]] .
    show "sentTo t (sentFrom port n (handledOf i s)) =
        map (wrapAt pks port n) (deliveriesFor t (refAt pks port n) (messagesAt pks port n))"
      if "list_all (\<lambda>m. \<not> cancels_tag t m) (messagesAt pks port n)"
      using run_at_end(2) [OF run i(3) pending [OF i(1,3)] that] .
  qed
qed

text \<open>A program that waits for the interrupt has had sound captures.\<close>

lemma handleMessage_not_short: "handleMessage pcap now w = Inr r \<Longrightarrow> 4 \<le> length (wm_Body w)"
  using short_body_panics [of "[NewMessage now w]" pcap "[]" Panic] by (simp add: not_less)

lemma settled_sound:
  assumes "main_inv caps s" "settled made s"
  shows "sound_captures caps"
proof -
  have "(\<exists>p0. parsePackets pks (NewParser True) = Inr p0) \<and> decodable_bodies pks" if "(name, pks) \<in> set caps" for name pks
  proof -
    obtain i where i: "i < length caps" "caps ! i = (name, pks)" using \<open>(name, pks) \<in> set caps\<close> by (auto simp: in_set_conv_nth)
    have run: "sniff_run (NewParser True) (inputs pks) (handledOf i s) (cp_parser (mn_captures s ! i)) []"
      using settled_runs(3) [OF assms i(1)] i(2) by simp
    have "4 \<le> length (snd (getContent m))"
      if "n \<noteq> 0" "m \<in> set (messagesAt pks port n)" "isDelivery m" for port n m
    proof -
      let ?w = "wrapAt pks port n (newDelivery (refAt pks port n) m)"
      have body: "wm_Body ?w = snd (getContent m)" by (metis newDelivery_Body wrapAt_def wrap_eq_newDelivery(2))
      have "mset (sentFrom port n (handledOf i s)) =
          mset (map (wrapAt pks port n) (deliveriesOf (refAt pks port n) (messagesAt pks port n)))"
        using settled_all_handled [OF assms] i that(1) unfolding all_handled_def by blast
      then have "set (sentFrom port n (handledOf i s)) =
          set (map (wrapAt pks port n) (deliveriesOf (refAt pks port n) (messagesAt pks port n)))"
        by (rule mset_eq_setD)
      moreover have "?w \<in> set (map (wrapAt pks port n) (deliveriesOf (refAt pks port n) (messagesAt pks port n)))"
        using that(2,3) by (simp add: deliveriesOf_def del: newDelivery.simps)
      ultimately have "?w \<in> set (sentFrom port n (handledOf i s))" by (simp only:)
      then have "?w \<in> set (handledOf i s)" by (simp add: sentFrom_def)
      then obtain pcap now where "(i, pcap, now, ?w) \<in> set (mn_handled s)" by (auto simp: handledOf_def)
      then have "handleMessage pcap now ?w \<in> set (map (\<lambda>(i, pcap, now, w). handleMessage pcap now w) (mn_handled s))"
        by force
      also have "\<dots> = set (map Inr (mn_out s))" using assms(1) by (simp add: main_inv_def)
      finally obtain r where "handleMessage pcap now ?w = Inr r" by auto
      then show ?thesis using handleMessage_not_short body by metis
    qed
    then show ?thesis using run_parsed [OF run] by (auto simp: decodable_bodies_def)
  qed
  then show ?thesis by (auto simp: sound_captures_def)
qed

text \<open>Sound captures, and \<open>currentPcap\<close> made: \<open>main\<close> comes to wait for the interrupt.\<close>

lemma sound_settles:
  assumes "main_inv caps s" "sound_captures caps" "mn_status s = Active"
  shows "\<exists>s'. main_steps True s s' \<and> settled True s'"
proof -
  obtain s' where s': "main_steps True s s'" "at_rest True s' \<or> mn_status s' = PanicExit"
    using main_comes_to_rest [OF assms(1,3)] by blast
  moreover have "mn_status s' \<noteq> PanicExit" using sound_never_panics [OF s'(1) assms(1,2)] assms(3) by simp
  moreover have "at_interrupt s'" if "at_rest True s'"
    using rest_progress(2) [OF main_inv_steps [OF s'(1) assms(1)] that] by (simp add: at_nil_send_def)
  ultimately show ?thesis by (auto simp: settled_def)
qed

section \<open>What is printed of a message that comes late\<close>

text \<open>The time of the last packet that begins in the rest of a capture.\<close>

fun lastTime :: "input list \<Rightarrow> btime \<Rightarrow> btime" where
  "lastTime [] now = now"
| "lastTime (Stamp t # pks) now = lastTime pks t"
| "lastTime (Payload sep cep fs bad # pks) now = lastTime pks now"

lemma lastTime_append: "lastTime (pks @ qs) now = lastTime qs (lastTime pks now)"
  by (induction pks now rule: lastTime.induct) simp_all

lemma lastTime_inputs: "lastTime (inputs (pks @ [pk])) now = pk_time pk"
proof -
  have "inputs (pks @ [pk]) = inputs pks @ inputOf pk" by (simp add: inputs_def)
  then show ?thesis by (simp add: lastTime_append inputOf_def split: option.split)
qed

lemma lastTime_goroutine: "timeAfter pks pks now = now"
  by (cases "(pks, pks, now)" rule: timeAfter.cases) auto

lemma lastTime_sniff_step:
  "sniff_step p pks w p' pks' \<Longrightarrow> w = None \<Longrightarrow> lastTime pks' (timeAfter pks pks' now) = lastTime pks now"
  by (cases rule: sniff_step.cases) (auto simp: lastTime_goroutine)

text \<open>A capture can be read to its end before any goroutine moves.\<close>

lemma read_capture:
  assumes "sniff_run p pks ws p' pks'" "ws = []"
  shows "i < length (mn_captures s) \<Longrightarrow> mn_captures s ! i = \<lparr> cp_parser = p, cp_input = pks \<rparr> \<Longrightarrow> mn_status s = Active \<Longrightarrow>
    \<exists>now. main_steps made s (s\<lparr> mn_captures := (mn_captures s)[i := \<lparr> cp_parser = p', cp_input = pks' \<rparr>], mn_now := now \<rparr>) \<and>
      lastTime pks' now = lastTime pks (mn_now s)"
  using assms
proof (induction rule: sniff_run.induct)
  case (sniff_run_nil p pks)
  have "s\<lparr> mn_captures := (mn_captures s)[i := \<lparr> cp_parser = p, cp_input = pks \<rparr>], mn_now := mn_now s \<rparr> = s"
    unfolding sniff_run_nil.prems(2) [symmetric] by simp
  then show ?case by (metis rtranclp.rtrancl_refl)
next
  case (sniff_run_step p pks ws p1 pks1 w p2 pks2)
  then have w: "ws = []" "w = None" by (auto split: option.splits)
  let ?s1 = "\<lambda>now. s\<lparr> mn_captures := (mn_captures s)[i := \<lparr> cp_parser = p1, cp_input = pks1 \<rparr>], mn_now := now \<rparr>"
  obtain now where now: "main_steps made s (?s1 now)" "lastTime pks1 now = lastTime pks (mn_now s)"
    using sniff_run_step w by blast
  have "main_step made (?s1 now) ((?s1 now)\<lparr> mn_captures := (mn_captures (?s1 now))[i := \<lparr> cp_parser = p2, cp_input = pks2 \<rparr>],
      mn_now := timeAfter pks1 pks2 now \<rparr>)"
    using capture_silent [of "?s1 now" i "\<lparr> cp_parser = p1, cp_input = pks1 \<rparr>" p2 pks2 made]
      sniff_run_step.hyps(2) sniff_run_step.prems(1,3) w by simp
  moreover have "lastTime pks2 (timeAfter pks1 pks2 now) = lastTime pks (mn_now s)"
    using lastTime_sniff_step [OF sniff_run_step.hyps(2) w(2)] now(2) by simp
  ultimately show ?case
    using now(1) by (intro exI [of _ "timeAfter pks1 pks2 now"]) (auto intro: rtranclp.rtrancl_into_rtrancl)
qed

text \<open>So can all the captures: nothing has been sent, and \<open>handleMsg\<close> has the name of the last one.\<close>

lemma read_captures:
  assumes "\<forall>(name, pks) \<in> set caps. \<exists>p0. parsePackets pks (NewParser True) = Inr p0"
    and "mn_todo s = caps" "all_read s" "mn_status s = Active" "mn_handled s = []" "caps \<noteq> []"
  shows "\<exists>s'. main_steps True s s' \<and> mn_todo s' = [] \<and> all_read s' \<and> mn_status s' = Active \<and> mn_handled s' = [] \<and>
    mn_pcap s' = fst (last caps) \<and> (\<exists>now. mn_now s' = lastTime (inputs (snd (last caps))) now)"
  using assms
proof (induction caps arbitrary: s)
  case (Cons cap caps)
  obtain name pks where cap: "cap = (name, pks)" by (cases cap)
  obtain p0 where p0: "parsePackets pks (NewParser True) = Inr p0" using Cons.prems(1) cap by auto
  let ?k = "length (mn_captures s)"
  let ?s1 = "s\<lparr> mn_captures := mn_captures s @ [\<lparr> cp_parser = NewParser True, cp_input = inputs pks \<rparr>],
    mn_todo := caps, mn_pcap := name \<rparr>"
  have s1: "main_step True s ?s1" using begin_capture [of s True name pks caps] Cons.prems cap by simp
  obtain now where now: "main_steps True ?s1 (?s1\<lparr> mn_captures := (mn_captures ?s1)[?k := \<lparr> cp_parser = p0, cp_input = [] \<rparr>],
      mn_now := now \<rparr>)" "lastTime [] now = lastTime (inputs pks) (mn_now s)"
    using read_capture [OF parsePackets_sniff_run [OF p0] refl, of ?k ?s1 True] Cons.prems(4) by auto
  let ?s2 = "?s1\<lparr> mn_captures := (mn_captures ?s1)[?k := \<lparr> cp_parser = p0, cp_input = [] \<rparr>], mn_now := now \<rparr>"
  have s2: "main_steps True s ?s2" using s1 now(1) by (rule converse_rtranclp_into_rtranclp)
  have read: "all_read ?s2" using Cons.prems(3) by (simp add: all_read_def)
  show ?case
  proof (cases "caps = []")
    case True
    then show ?thesis using s2 read Cons.prems(4,5) now(2) cap by (intro exI [of _ ?s2]) auto
  next
    case False
    have "\<exists>s'. main_steps True ?s2 s' \<and> mn_todo s' = [] \<and> all_read s' \<and> mn_status s' = Active \<and> mn_handled s' = [] \<and>
      mn_pcap s' = fst (last caps) \<and> (\<exists>now. mn_now s' = lastTime (inputs (snd (last caps))) now)"
      using Cons.prems False read by (intro Cons.IH) simp_all
    then show ?thesis using s2 False by (auto intro: rtranclp_trans)
  qed
qed simp

lemma list_all_update: "list_all P xs \<Longrightarrow> P x \<Longrightarrow> list_all P (xs[i := x])"
  using set_update_subset_insert [of xs i x] by (auto simp: list_all_iff)

lemma main_after_reading:
  "main_steps made s s' \<Longrightarrow> mn_todo s = [] \<Longrightarrow> all_read s \<Longrightarrow> mn_handled s = [] \<Longrightarrow>
     mn_todo s' = [] \<and> all_read s' \<and> mn_pcap s' = mn_pcap s \<and> mn_now s' = mn_now s \<and>
     (\<forall>(i, pcap, now, w) \<in> set (mn_handled s'). pcap = mn_pcap s \<and> now = mn_now s)"
proof (induction rule: rtranclp_induct)
  case (step s1 s2)
  note IH = step.IH [OF step.prems]
  from step.hyps(2) show ?case
  proof cases
    case (capture_silent i c p' pks')
    then have "cp_input c = []" using IH by (auto simp: all_read_def list_all_length)
    then have "pks' = []" using capture_silent(5) by (auto elim: sniff_step.cases)
    then show ?thesis
      using IH \<open>cp_input c = []\<close> by (simp add: capture_silent(1) all_read_def list_all_update)
  next
    case (capture_send i c w p' pks')
    then have "cp_input c = []" using IH by (auto simp: all_read_def list_all_length)
    then have "pks' = []" using capture_send(5) by (auto elim: sniff_step.cases)
    then show ?thesis using IH by (simp add: capture_send(1) all_read_def list_all_update)
  qed (use IH in \<open>auto simp: all_read_def\<close>)
qed simp

lemma handleMessage_prints:
  "handleMessage pcap now w = Inr (Inr r) \<Longrightarrow> rp_pcap r = pcap \<and> rp_packetTime r = now"
  by (auto simp: handleMessage_def split: sum.splits option.splits)

lemma reports_late:
  assumes "sound_captures (caps @ [(name, pks @ [pk])])"
  shows "\<exists>s. main_steps True (main_start (caps @ [(name, pks @ [pk])])) s \<and> settled True s \<and>
    (\<forall>r. Inr r \<in> set (mn_out s) \<longrightarrow> rp_pcap r = name \<and> rp_packetTime r = pk_time pk)"
proof -
  let ?caps = "caps @ [(name, pks @ [pk])]"
  let ?s0 = "main_start ?caps"
  have "\<forall>(name, pks) \<in> set ?caps. \<exists>p0. parsePackets pks (NewParser True) = Inr p0"
    using assms unfolding sound_captures_def by blast
  from read_captures [OF this, of ?s0] obtain s1 where
    s1: "main_steps True ?s0 s1" "mn_todo s1 = []" "all_read s1" "mn_status s1 = Active" "mn_handled s1 = []"
    "mn_pcap s1 = name" "mn_now s1 = pk_time pk"
    by (auto simp: main_start_def all_read_def lastTime_inputs)
  have inv: "main_inv ?caps s1" using main_inv_steps [OF s1(1) main_inv_start] .
  obtain s where s: "main_steps True s1 s" "settled True s" using sound_settles [OF inv assms s1(4)] by blast
  have late: "\<forall>(i, pcap, now, w) \<in> set (mn_handled s). pcap = name \<and> now = pk_time pk"
    using main_after_reading [OF s(1) s1(2,3,5)] s1(6,7) by simp
  have out: "map Inr (mn_out s) = map (\<lambda>(i, pcap, now, w). handleMessage pcap now w) (mn_handled s)"
    using main_inv_steps [OF s(1) inv] by (simp add: main_inv_def)
  have "rp_pcap r = name \<and> rp_packetTime r = pk_time pk" if "Inr r \<in> set (mn_out s)" for r
  proof -
    have "Inr (Inr r) \<in> set (map Inr (mn_out s) :: (go_error + time_error + report) list)" using that by simp
    then obtain i pcap now w where "(i, pcap, now, w) \<in> set (mn_handled s)" "handleMessage pcap now w = Inr (Inr r)"
      unfolding out by auto
    then show ?thesis using late handleMessage_prints by fastforce
  qed
  then show ?thesis using s1(1) s by (intro exI [of _ s]) (auto intro: rtranclp_trans)
qed

end
