(* ===== verification/Directions.thy ===== *)
theory Directions
  imports Captured Captures
begin

text \<open>
  What becomes of a delivery when the other direction of the connection, which shares its channels, puts a method
  between its frames, and how a channel recovers from what it has lost.
\<close>

section \<open>A content that is interrupted\<close>

fun contentFrame :: "frame \<Rightarrow> bool" where
  "contentFrame (HeaderFrame h) = True"
| "contentFrame (BodyFrame b) = True"
| "contentFrame f = False"

lemma assemble_dropped:
  "list_all contentFrame fs \<Longrightarrow> assembleAll WantMethod fs = ([], WantMethod)"
proof (induction fs)
  case (Cons f fs)
  then show ?case by (cases f) simp_all
qed simp

lemma assemble_part:
  assumes "length (bs @ concat ps) < k" "k < 2 ^ 64" "hf_Size h = of_nat k"
  shows "assembleAll (WantBody m h bs) (map (\<lambda>p. BodyFrame \<lparr> bf_ChannelId = n, bf_Body = p \<rparr>) ps) =
    ([], WantBody m h (bs @ concat ps))"
  using assms
proof (induction ps arbitrary: bs)
  case (Cons p ps)
  then have "length (bs @ p) < k" by simp
  then have "\<not> hf_Size h \<le> of_nat (length (bs @ p))"
    using u64_size_le [of "length (bs @ p)" k] Cons.prems(2,3) by simp
  moreover have "assembleAll (WantBody m h (bs @ p)) (map (\<lambda>p. BodyFrame \<lparr> bf_ChannelId = n, bf_Body = p \<rparr>) ps) =
      ([], WantBody m h ((bs @ p) @ concat ps))"
    using Cons.prems by (intro Cons.IH) simp_all
  ultimately show ?case by simp
qed simp

text \<open>
  A method without content between two frames of a content: the content is given up, and what comes of it
  after the method is dropped.
\<close>

lemma assemble_interrupted:
  assumes "hasContent m" "hf_Size h = of_nat (length (concat pieces))" "length (concat pieces) < 2 ^ 64"
    and "pieces \<noteq> [] \<longrightarrow> last pieces \<noteq> []"
    and "contentFrames n m h pieces = pre @ post" "pre \<noteq> []" "post \<noteq> []"
    and "mf_Method mf = Some x" "\<not> hasContent x"
  shows "assembleAll a (pre @ MethodFrame mf # post) = ([x], WantMethod)"
proof -
  have cut: "\<exists>b. assembleAll a pre = ([], b)" "list_all contentFrame post"
  proof -
    obtain pre' where pre: "pre = hd (contentFrames n m h pieces) # pre'" "pre' @ post = tl (contentFrames n m h pieces)"
      using assms(5,6) by (cases pre) auto
    then show post: "list_all contentFrame post"
      by (cases pre') (auto simp: contentFrames_def list_all_iff append_eq_map_conv)
    show "\<exists>b. assembleAll a pre = ([], b)"
    proof (cases pre')
      case Nil
      then show ?thesis using pre(1) assms(1) by (simp add: contentFrames_def)
    next
      case (Cons f fs)
      then obtain ps qs where p: "f = HeaderFrame h" "pieces = ps @ qs"
        "fs = map (\<lambda>p. BodyFrame \<lparr> bf_ChannelId = n, bf_Body = p \<rparr>) ps"
        "post = map (\<lambda>p. BodyFrame \<lparr> bf_ChannelId = n, bf_Body = p \<rparr>) qs"
        using pre(2) by (auto simp: contentFrames_def append_eq_map_conv)
      then have "concat qs \<noteq> []" using assms(4,7) by (auto dest: last_in_set)
      then have l: "length ([] @ concat ps) < length (concat pieces)" by (simp add: p(2))
      then have "hf_Size h \<noteq> 0"
        using assms(2,3) by (metis unat_of_nat_u64 length_0_conv list.size(3) not_less_zero unat_0)
      then show ?thesis
        using pre(1) Cons p(1,3) assms(1) assemble_part [OF l assms(3,2)] by (simp add: contentFrames_def)
    qed
  qed
  then show ?thesis using assms(8,9) assemble_dropped [of post] by (auto simp: assembleAll_append)
qed

section \<open>Both directions on the wire\<close>

text \<open>
  Three packets of one conversation: the server sends a content in two packets, and between them the client
  sends a method on the same channel.
\<close>

definition between :: "packet \<Rightarrow> bytes \<Rightarrow> btime \<Rightarrow> packet" where
  "between pk payload t = (reversed pk)\<lparr> pk_payload := Some payload, pk_time := t \<rparr>"

definition continued :: "packet \<Rightarrow> bytes \<Rightarrow> btime \<Rightarrow> packet" where
  "continued pk payload t = pk\<lparr> pk_payload := Some payload, pk_time := t \<rparr>"

lemma endpoints_update [simp]: "endpoints (pk\<lparr> pk_payload := pl, pk_time := t \<rparr>) = endpoints pk"
  by (simp add: endpoints_def)

lemma conversation_endpoints [simp]:
  "endpoints (continued pk payload t) = endpoints pk"
  "oneServer pk \<Longrightarrow> endpoints (between pk payload t) = endpoints pk"
  by (simp_all add: continued_def between_def endpoints_reversed_eq)

lemma carries_framesAt:
  assumes "carries pk fs" "map frame_canon fs = fs"
  shows "framesAt (inputs (pk # pks)) port n =
    (if ep_Port (snd (endpoints pk)) = port then framesOf n fs else []) @ framesAt (inputs pks) port n"
  using carries_input(1) [OF assms(1)] assms(2) by (simp add: inputs_Cons framesAt_Cons)

lemma framesOf_content:
  assumes "hf_ChannelId h = n" "contentFrames n m h pieces = pre @ post"
  shows "framesOf k pre = (if k = n then pre else [])" "framesOf k post = (if k = n then post else [])"
proof -
  have "\<forall>f \<in> set (contentFrames n m h pieces). frame_channel f = Inr n"
    using assms(1) by (auto simp: contentFrames_def)
  then show "framesOf k pre = (if k = n then pre else [])" "framesOf k post = (if k = n then post else [])"
    by (auto simp: assms(2) framesOf_def filter_id_conv filter_empty_conv)
qed

lemma interrupted_delivery:
  assumes "oneServer pk" "hasContent m" "hf_ChannelId h = n"
    and "hf_Size h = of_nat (length (concat pieces))" "length (concat pieces) < 2 ^ 64"
    and "pieces \<noteq> [] \<longrightarrow> last pieces \<noteq> []"
    and "contentFrames n m h pieces = pre @ post" "pre \<noteq> []" "post \<noteq> []"
    and "f = MethodFrame mf" "mf_ChannelId mf = n" "mf_Method mf = Some x" "\<not> hasContent x"
    and "carries pk pre" "carries (between pk b2 t2) [f]" "carries (continued pk b3 t3) post"
    and "map frame_canon pre = pre" "frame_canon f = f" "map frame_canon post = post"
  shows "messagesAt [pk, continued pk b3 t3] port k =
      (if port = ep_Port (snd (endpoints pk)) \<and> k = n then [setContent (hf_Properties h) (concat pieces) m] else [])"
    "messagesAt [pk, between pk b2 t2, continued pk b3 t3] port k =
      (if port = ep_Port (snd (endpoints pk)) \<and> k = n then [x] else [])"
proof -
  note frames = framesOf_content [OF assms(3,7)]
  note at = carries_framesAt [OF assms(14,17)] carries_framesAt [OF assms(16,19)]
    carries_framesAt [OF assms(15), simplified assms(18) list.map, OF refl]
  have "assembleAll WantMethod (pre @ post) = ([setContent (hf_Properties h) (concat pieces) m], WantMethod)"
    using assemble_content [OF assms(2,4-6)] assms(7) by metis
  then show "messagesAt [pk, continued pk b3 t3] port k =
      (if port = ep_Port (snd (endpoints pk)) \<and> k = n then [setContent (hf_Properties h) (concat pieces) m] else [])"
    by (simp add: messagesAt_def at frames)
  have "assembleAll WantMethod (pre @ f # post) = ([x], WantMethod)"
    unfolding assms(10) by (rule assemble_interrupted [OF assms(2,4-9,12,13)])
  moreover have "framesOf k [f] = (if k = n then [f] else [])" for k using assms(10,11) by (simp add: framesOf_def)
  ultimately show "messagesAt [pk, between pk b2 t2, continued pk b3 t3] port k =
      (if port = ep_Port (snd (endpoints pk)) \<and> k = n then [x] else [])"
    using assms(1) by (simp add: messagesAt_def at frames)
qed

section \<open>Recovery\<close>

text \<open>A method starts afresh, whatever has come before it.\<close>

fun methodFirst :: "frame list \<Rightarrow> bool" where
  "methodFirst (MethodFrame mf # fs) = True"
| "methodFirst (f # fs) = False"
| "methodFirst [] = True"

lemma assembleAll_methodFirst: "methodFirst fs \<Longrightarrow> fst (assembleAll a fs) = fst (assembleAll b fs)"
  by (cases fs rule: methodFirst.cases) simp_all

lemma framesAt_append: "framesAt (xs @ ys) port n = framesAt xs port n @ framesAt ys port n"
  by (simp add: framesAt_def framesOf_def)

lemma messagesAt_append:
  assumes "methodFirst (framesAt (inputs qs) port n)"
  shows "messagesAt (pks @ qs) port n = messagesAt pks port n @ messagesAt qs port n"
proof -
  have "inputs (pks @ qs) = inputs pks @ inputs qs" by (simp add: inputs_def)
  then show ?thesis
    using assembleAll_methodFirst [OF assms, of "snd (assembleAll WantMethod (framesAt (inputs pks) port n))" WantMethod]
    by (simp add: messagesAt_def framesAt_append assembleAll_append case_prod_unfold Let_def)
qed

text \<open>The protocol header that opens a connection has no frame in it.\<close>

lemma handshake_scan: "scan protocolHeader_bytes = ([], False)"
proof -
  have "ReadFrame protocolHeader_bytes = (Inl ErrFrame, [1])"
    by (simp add: ReadFrame_def protocolHeader_bytes_def readFull_def rbind_def parseFrame_def frame_codes beU16_def beU32_def rfail_def)
  moreover have "scan [1] = ([], False)" by (subst scan.simps) (simp add: ReadFrame_def readFull_def rbind_def)
  ultimately show ?thesis by (subst scan.simps) (simp add: ErrFrame_def)
qed

lemma handshake_framesAt:
  "pk_payload pk = Some protocolHeader_bytes \<Longrightarrow> framesAt (inputs (pk # pks)) port n = framesAt (inputs pks) port n"
  by (simp add: inputs_Cons inputOf_def framesAt_Cons handshake_scan framesOf_def)

end
