(* ===== verification/Session.thy ===== *)
theory Session
  imports Directions
begin

text \<open>
  Sessions of well-formed traffic: on every channel of every connection whole methods and contents, cut into
  frames in any permitted way, the frames of the channels interleaved, and the whole frames divided among packets in
  any way.  The parser and its goroutines make of such a session exactly the deliveries that were sent.
\<close>

section \<open>One content\<close>

lemma content_reassembled:
  assumes "channel_inv ch" "\<not> confirming ch" "hasContent m" "length (concat pieces) \<le> maxAlloc"
    and "hf_Size h = of_nat (length (concat pieces))" "pieces \<noteq> [] \<longrightarrow> last pieces \<noteq> []"
  shows "\<exists>ch'. recvFrames (contentFrames n m h pieces) ch = Inr ch' \<and> recv ch' = RecvMethod \<and>
    dispatch (setContent (hf_Properties h) (concat pieces) m) (outputs ch) = Inr (outputs ch')"
proof -
  have small: "length (concat pieces) < 2 ^ 64" using assms(4) by (simp add: maxAlloc_def)
  have a: "assembleAll (assemblyOf ch) (contentFrames n m h pieces) =
      ([setContent (hf_Properties h) (concat pieces) m], WantMethod)"
    by (rule assemble_content) (use assms small in simp_all)
  have "unat (hf_Size h) \<le> maxAlloc" using assms(4,5) small unat_of_nat_u64 by metis
  then have "acceptable (assemblyOf ch) (contentFrames n m h pieces)" by (rule acceptable_content)
  then obtain ch' where "recvFrames (contentFrames n m h pieces) ch = Inr ch'"
    "assembled ch (contentFrames n m h pieces) ch'"
    by (rule recvFrames_accepted [OF assms(1,2)])
  then show ?thesis
    using a by (auto simp: assembled_def assemblyOf_def split: recv_state.splits sum.splits)
qed

section \<open>What is sent on a channel\<close>

datatype transmission = Plain message | WithContent message headerFrame "bytes list"

fun framesFor :: "u16 \<Rightarrow> transmission \<Rightarrow> frame list" where
  "framesFor n (Plain m) =
     [MethodFrame \<lparr> mf_ChannelId = n, mf_ClassId = fst (message_id m), mf_MethodId = snd (message_id m),
        mf_Method = Some m \<rparr>]"
| "framesFor n (WithContent m h pieces) = contentFrames n m h pieces"

fun messageFor :: "transmission \<Rightarrow> message" where
  "messageFor (Plain m) = m"
| "messageFor (WithContent m h pieces) = setContent (hf_Properties h) (concat pieces) m"

fun sendable :: "transmission \<Rightarrow> bool" where
  "sendable (Plain m) \<longleftrightarrow> \<not> hasContent m"
| "sendable (WithContent m h pieces) \<longleftrightarrow>
     hasContent m \<and> length (concat pieces) \<le> maxAlloc \<and> hf_Size h = of_nat (length (concat pieces)) \<and>
     (pieces \<noteq> [] \<longrightarrow> last pieces \<noteq> [])"

lemma assemble_transmission:
  assumes "sendable t"
  shows "assembleAll a (framesFor n t) = ([messageFor t], WantMethod)" "acceptable a (framesFor n t)"
proof -
  show "assembleAll a (framesFor n t) = ([messageFor t], WantMethod)"
  proof (cases t)
    case (WithContent m h pieces)
    then have "length (concat pieces) < 2 ^ 64" using assms by (simp add: maxAlloc_def)
    then show ?thesis using assms WithContent assemble_content by simp
  qed (use assms in simp)
  show "acceptable a (framesFor n t)"
  proof (cases t)
    case (WithContent m h pieces)
    then have "unat (hf_Size h) \<le> maxAlloc"
      using assms unat_of_nat_u64 [of "length (concat pieces)"] by (simp add: maxAlloc_def)
    then show ?thesis using WithContent acceptable_content by simp
  qed (use assms in simp)
qed

lemma assemble_transmissions:
  assumes "list_all sendable ts"
  shows "assembleAll WantMethod (concat (map (framesFor n) ts)) = (map messageFor ts, WantMethod) \<and>
    acceptable WantMethod (concat (map (framesFor n) ts))"
  using assms
proof (induction ts)
  case (Cons t ts)
  then show ?case
    using assemble_transmission [of t WantMethod n] by (simp add: assembleAll_append acceptable_append)
qed simp

section \<open>The session\<close>

text \<open>The packets with the frames they carry, and what a channel gets of them.\<close>

definition framesSent :: "(packet \<times> frame list) list \<Rightarrow> gostring \<Rightarrow> u16 \<Rightarrow> frame list" where
  "framesSent sent port n =
     concat (map (\<lambda>(pk, fs). if ep_Port (snd (endpoints pk)) = port then framesOf n fs else []) sent)"

lemma framesAt_sent:
  assumes "\<forall>(pk, fs) \<in> set sent. carries pk fs \<and> map frame_canon fs = fs"
  shows "framesAt (inputs (map fst sent)) port n = framesSent sent port n \<and> list_all readable (map fst sent)"
  using assms
proof (induction sent)
  case (Cons x sent)
  obtain pk fs where x: "x = (pk, fs)" by (cases x)
  then have "carries pk fs" "map frame_canon fs = fs" using Cons.prems by simp_all
  then show ?case
    using Cons x carries_framesAt carries_input(2) by (simp add: framesSent_def)
qed (simp add: framesSent_def)

lemma session_parsed:
  assumes "\<forall>(pk, fs) \<in> set sent. carries pk fs \<and> map frame_canon fs = fs"
    and "\<forall>port n. n \<noteq> 0 \<longrightarrow> framesSent sent port n = concat (map (framesFor n) (script port n))"
    and "\<forall>port n. list_all sendable (script port n)"
  shows "\<exists>p0. parsePackets (map fst sent) (NewParser True) = Inr p0"
    and "n \<noteq> 0 \<Longrightarrow> messagesAt (map fst sent) port n = map messageFor (script port n)"
proof -
  note at = framesAt_sent [OF assms(1)]
  have "acceptable WantMethod (framesAt (inputs (map fst sent)) port n)" if "n \<noteq> 0" for port n
    using at assemble_transmissions assms(2,3) that by simp
  then show "\<exists>p0. parsePackets (map fst sent) (NewParser True) = Inr p0"
    using at by (intro accepting_parses) (simp_all add: accepting_New)
  show "messagesAt (map fst sent) port n = map messageFor (script port n)" if "n \<noteq> 0"
    using at assemble_transmissions assms(2,3) that by (simp add: messagesAt_def)
qed

text \<open>The bodies that the application is to get.\<close>

definition bodiesFor :: "(message \<Rightarrow> bool) \<Rightarrow> transmission list \<Rightarrow> bytes list" where
  "bodiesFor P ts = map (\<lambda>m. snd (getContent m)) (filter P (map messageFor ts))"

lemma session_over:
  assumes "\<forall>(pk, fs) \<in> set sent. carries pk fs \<and> map frame_canon fs = fs"
    and "\<forall>port n. n \<noteq> 0 \<longrightarrow> framesSent sent port n = concat (map (framesFor n) (script port n))"
    and "\<forall>port n. list_all sendable (script port n)"
    and "sniff_run (NewParser True) (inputs (map fst sent)) ws p rest" "run_over p rest" "n \<noteq> 0"
  shows "rest = []"
    and "mset (map wm_Body (sentFrom port n ws)) = mset (bodiesFor isDelivery (script port n))"
    and "list_all (\<lambda>x. \<not> cancels_tag t (messageFor x)) (script port n) \<Longrightarrow>
      map wm_Body (sentTo t (sentFrom port n ws)) = bodiesFor (deliveredTo t) (script port n)"
proof -
  note ms = session_parsed(2) [OF assms(1-3)]
  obtain p0 where p0: "parsePackets (map fst sent) (NewParser True) = Inr p0"
    using session_parsed(1) [OF assms(1-3)] by blast
  note over = over_delivers(1) [OF p0 assms(4-6)] over_delivers(2,3) [OF p0 assms(4-6), where port = port]
  have body: "wm_Body (wrapAt pks port n (newDelivery r m)) = snd (getContent m)" for pks r m
    by (simp add: wrapAt_def del: newDelivery.simps)
  show "rest = []" by (rule over(1))
  show "mset (map wm_Body (sentFrom port n ws)) = mset (bodiesFor isDelivery (script port n))"
    unfolding mset_map over(2) deliveriesOf_def ms [OF assms(6)] bodiesFor_def
    by (simp add: multiset.map_comp comp_def body del: newDelivery.simps)
  assume "list_all (\<lambda>x. \<not> cancels_tag t (messageFor x)) (script port n)"
  then have "list_all (\<lambda>m. \<not> cancels_tag t m) (messagesAt (map fst sent) port n)"
    unfolding ms [OF assms(6)] by (simp add: list_all_iff)
  from over(3) [OF this] show
    "map wm_Body (sentTo t (sentFrom port n ws)) = bodiesFor (deliveredTo t) (script port n)"
    unfolding deliveriesFor_def ms [OF assms(6)] bodiesFor_def by (simp add: body del: newDelivery.simps)
qed

end
