(* ===== verification/Registry.thy ===== *)
theory Registry
  imports Consumers Simulation "HOL-Library.Multiset"
begin

text \<open>
  What the consumers of a channel are: a registry that maps each tag to the queue of its deliveries, with the
  queues of the tags that have been cancelled or replaced being handed out to their end.  The operations of
  \<open>consumers.go\<close> and the goroutines behind them are this registry, step by step in both directions.
\<close>

section \<open>The registry\<close>

type_synonym 'd registry = "(gostring \<rightharpoonup> 'd list) \<times> 'd list multiset"

definition leave :: "'d list \<Rightarrow> 'd list multiset \<Rightarrow> 'd list multiset" where
  "leave q B = (if q = [] then B else add_mset q B)"

fun reg_cancel :: "gostring \<Rightarrow> 'd registry \<Rightarrow> bool \<times> 'd registry" where
  "reg_cancel tag (A, B) =
     (case A tag of None \<Rightarrow> (False, A, B) | Some q \<Rightarrow> (True, A(tag := None), leave q B))"

fun reg_add :: "gostring \<Rightarrow> 'd registry \<Rightarrow> 'd registry" where
  "reg_add tag (A, B) = (case reg_cancel tag (A, B) of (_, A', B') \<Rightarrow> (A'(tag \<mapsto> []), B'))"

fun reg_send :: "gostring \<Rightarrow> 'd \<Rightarrow> 'd registry \<Rightarrow> bool \<times> 'd registry" where
  "reg_send tag d (A, B) =
     (case A tag of None \<Rightarrow> (False, A, B) | Some q \<Rightarrow> (True, A(tag \<mapsto> q @ [d]), B))"

text \<open>Some queue hands out its first delivery.\<close>

inductive reg_serve :: "'d registry \<Rightarrow> 'd \<Rightarrow> 'd registry \<Rightarrow> bool" where
  serve_tag: "A tag = Some (d # ds) \<Longrightarrow> reg_serve (A, B) d (A(tag \<mapsto> ds), B)"
| serve_left: "d # ds \<in># B \<Longrightarrow> reg_serve (A, B) d (A, leave ds (B - {# d # ds #}))"

section \<open>The registry of the consumers\<close>

definition untagged :: "'d consumers \<Rightarrow> nat set" where
  "untagged c = {i. i < length (buffers c) \<and> i \<notin> ran (chans c)}"

definition leftQueues :: "'d list list \<Rightarrow> nat set \<Rightarrow> 'd list multiset" where
  "leftQueues qs I = filter_mset (\<lambda>q. q \<noteq> []) (image_mset (\<lambda>i. qs ! i) (mset_set I))"

definition registry :: "'d consumers \<Rightarrow> 'd registry" where
  "registry c =
     (\<lambda>tag. map_option (\<lambda>i. queue (buffers c ! i)) (chans c tag),
      leftQueues (map queue (buffers c)) (untagged c))"

lemma registry_eqI:
  assumes "\<And>tag. map_option (\<lambda>i. queue (buffers c ! i)) (chans c tag) = A tag"
    and "leftQueues (map queue (buffers c)) (untagged c) = B"
  shows "registry c = (A, B)"
  unfolding registry_def assms by simp

lemma finite_untagged [simp]: "finite (untagged c)"
  by (simp add: untagged_def)

lemma leftQueues_insert:
  "finite I \<Longrightarrow> i \<notin> I \<Longrightarrow> leftQueues qs (insert i I) = leave (qs ! i) (leftQueues qs I)"
  by (simp add: leftQueues_def leave_def)

lemma leftQueues_cong:
  "(\<And>i. i \<in> I \<Longrightarrow> qs ! i = qs' ! i) \<Longrightarrow> leftQueues qs I = leftQueues qs' I"
  unfolding leftQueues_def
  by (intro arg_cong [of _ _ "filter_mset _"] image_mset_cong) (metis finite_set_mset_mset_set mset_set.infinite set_mset_empty empty_iff)

lemma leftQueues_update:
  "finite I \<Longrightarrow> i \<notin> I \<Longrightarrow> leftQueues (qs[i := q]) I = leftQueues qs I"
  by (rule leftQueues_cong) (metis nth_list_update_neq)

lemma registry_update_queue:
  assumes "consumers_inv c" "chans c tag = Some i"
  shows "registry (c\<lparr> buffers := (buffers c)[i := b] \<rparr>) =
    ((fst (registry c))(tag \<mapsto> queue b), snd (registry c))"
proof (rule registry_eqI)
  note i = consumers_invD [OF assms]
  show "map_option (\<lambda>j. queue (buffers (c\<lparr> buffers := (buffers c)[i := b] \<rparr>) ! j))
      (chans (c\<lparr> buffers := (buffers c)[i := b] \<rparr>) t) = ((fst (registry c))(tag \<mapsto> queue b)) t" for t
    using i(1) i(4) [of t] assms(2) by (cases "chans c t") (auto simp: registry_def nth_list_update)
  have "i \<notin> untagged c" using assms(2) by (auto simp: untagged_def ran_def)
  then show "leftQueues (map queue (buffers (c\<lparr> buffers := (buffers c)[i := b] \<rparr>)))
      (untagged (c\<lparr> buffers := (buffers c)[i := b] \<rparr>)) = snd (registry c)"
    using leftQueues_update [of "untagged c" i "map queue (buffers c)"]
    by (simp add: map_update registry_def) (simp add: untagged_def)
qed

lemma registry_update_left:
  assumes "consumers_inv c" "i < length (buffers c)" "i \<notin> ran (chans c)"
  shows "registry (c\<lparr> buffers := (buffers c)[i := b] \<rparr>) =
      (fst (registry c), leave (queue b) (leftQueues (map queue (buffers c)) (untagged c - {i})))"
    and "snd (registry c) = leave (queue (buffers c ! i)) (leftQueues (map queue (buffers c)) (untagged c - {i}))"
proof -
  have i: "untagged c = insert i (untagged c - {i})" using assms(2,3) by (auto simp: untagged_def)
  have "leftQueues (map queue (buffers c)) (untagged c) =
      leave (map queue (buffers c) ! i) (leftQueues (map queue (buffers c)) (untagged c - {i}))"
    using leftQueues_insert [of "untagged c - {i}" i] i by simp
  then show "snd (registry c) = leave (queue (buffers c ! i)) (leftQueues (map queue (buffers c)) (untagged c - {i}))"
    using assms(2) by (simp add: registry_def)
  have "untagged (c\<lparr> buffers := (buffers c)[i := b] \<rparr>) = insert i (untagged c - {i})"
    using i by (simp add: untagged_def)
  moreover have "leftQueues ((map queue (buffers c))[i := queue b]) (insert i (untagged c - {i})) =
      leave (queue b) (leftQueues (map queue (buffers c)) (untagged c - {i}))"
    using assms(2) by (simp add: leftQueues_insert leftQueues_update del: insert_Diff_single)
  moreover have "map_option (\<lambda>j. queue ((buffers c)[i := b] ! j)) (chans c t) =
      map_option (\<lambda>j. queue (buffers c ! j)) (chans c t)" for t
    using assms(3) by (cases "chans c t") (auto simp: ran_def intro!: arg_cong [of _ _ queue] nth_list_update_neq)
  ultimately show "registry (c\<lparr> buffers := (buffers c)[i := b] \<rparr>) =
      (fst (registry c), leave (queue b) (leftQueues (map queue (buffers c)) (untagged c - {i})))"
    by (simp add: registry_def map_update del: insert_Diff_single)
qed

section \<open>Each step of the consumers is one of the registry\<close>

lemma registry_make: "registry makeConsumers = (Map.empty, {#})"
  by (simp add: registry_def makeConsumers_def untagged_def leftQueues_def)

lemma registry_send:
  assumes "consumers_inv c" "sendTo tag d c = Found b c'"
  shows "(b, registry c') = reg_send tag d (registry c)"
proof (cases "chans c tag")
  case None
  then show ?thesis using assms(2) by (simp add: sendTo_def registry_def)
next
  case (Some i)
  then have c': "b" "c' = c\<lparr> buffers := (buffers c)[i := enqueue d (buffers c ! i)] \<rparr>"
    using assms(2) by (auto simp: sendTo_def Let_def split: if_splits)
  show ?thesis
    unfolding c'(2) registry_update_queue [OF assms(1) Some] using Some c'(1)
    by (simp add: registry_def enqueue_def)
qed

lemma registry_cancel:
  assumes "consumers_inv c" "cancel tag c = Inr (b, c')"
  shows "(b, registry c') = reg_cancel tag (registry c)"
proof (cases "chans c tag")
  case None
  then show ?thesis using assms(2) by (simp add: cancel_def registry_def)
next
  case (Some i)
  note i = consumers_invD [OF assms(1) Some]
  let ?b = "(buffers c ! i)\<lparr> in_closed := True \<rparr>"
  have c': "b" "c' = c\<lparr> chans := (chans c)(tag := None), buffers := (buffers c)[i := ?b] \<rparr>"
    using assms(2) Some i(2) by (auto simp: cancel_def closeIn_def)
  have same: "queue ((buffers c)[i := ?b] ! j) = queue (buffers c ! j)" for j
    using i(1) by (simp add: nth_list_update)
  have "ran ((chans c)(tag := None)) = ran (chans c) - {i}"
  proof -
    have "(\<exists>t. t \<noteq> tag \<and> chans c t = Some j) \<longleftrightarrow> (\<exists>t. chans c t = Some j) \<and> j \<noteq> i" for j
      using Some i(4) by (metis option.inject)
    then show ?thesis unfolding ran_def by (intro set_eqI) (simp cong: conj_cong)
  qed
  moreover have "i \<in> ran (chans c)" using Some by (rule ranI)
  ultimately have "untagged c' = insert i (untagged c)" "i \<notin> untagged c"
    using i(1) by (auto simp: untagged_def c'(2))
  moreover have "leftQueues (map queue (buffers c')) I = leftQueues (map queue (buffers c)) I" if "I \<subseteq> {..<length (buffers c)}" for I
    using that same by (intro leftQueues_cong) (auto simp: c'(2))
  moreover have "untagged c \<subseteq> {..<length (buffers c)}" by (auto simp: untagged_def)
  ultimately have "leftQueues (map queue (buffers c')) (untagged c') = leave (queue (buffers c ! i)) (snd (registry c))"
    using i(1) same [of i] by (simp add: leftQueues_insert registry_def) (simp add: c'(2))
  moreover have "map_option (\<lambda>j. queue (buffers c' ! j)) (chans c' t) = ((fst (registry c))(tag := None)) t" for t
    by (simp add: c'(2) registry_def same)
  ultimately have "registry c' = ((fst (registry c))(tag := None), leave (queue (buffers c ! i)) (snd (registry c)))"
    by (intro registry_eqI)
  then show ?thesis using Some c'(1) by (simp add: registry_def)
qed

lemma registry_start:
  assumes "consumers_inv c" "chans c tag = None"
  shows "registry (startBuffer tag c) = ((fst (registry c))(tag \<mapsto> []), snd (registry c))"
proof -
  have old: "i < length (buffers c)" if "chans c t = Some i" for t i
    using that assms(1) consumers_invD(1) by blast
  have "ran ((chans c)(tag \<mapsto> length (buffers c))) = insert (length (buffers c)) (ran (chans c))"
    using assms(2) by (rule ran_map_upd)
  then have "untagged (startBuffer tag c) = untagged c"
    unfolding untagged_def by (intro Collect_cong) (auto simp: startBuffer_def less_Suc_eq)
  moreover have "leftQueues (map queue (buffers c @ [newBuffer])) (untagged c) = leftQueues (map queue (buffers c)) (untagged c)"
    by (rule leftQueues_cong) (auto simp: untagged_def nth_append)
  ultimately have "leftQueues (map queue (buffers (startBuffer tag c))) (untagged (startBuffer tag c)) = snd (registry c)"
    by (simp add: startBuffer_def registry_def)
  moreover have "map_option (\<lambda>i. queue (buffers (startBuffer tag c) ! i)) (chans (startBuffer tag c) t) =
      ((fst (registry c))(tag \<mapsto> [])) t" for t
    using old [of t] by (cases "chans c t") (auto simp: startBuffer_def nth_append registry_def newBuffer_def)
  ultimately show ?thesis by (intro registry_eqI)
qed

lemma registry_add:
  assumes "consumers_inv c" "add tag c = Inr c'"
  shows "registry c' = reg_add tag (registry c)"
proof -
  from cancel_inv [OF assms(1), of tag] obtain c1 where
    c1: "cancel tag c = Inr (chans c tag \<noteq> None, c1)" "consumers_inv c1" "chans c1 = (chans c)(tag := None)" by blast
  then have "c' = startBuffer tag c1" using assms(2) by (simp add: add_cancel)
  moreover have "(chans c tag \<noteq> None, registry c1) = reg_cancel tag (registry c)"
    using registry_cancel [OF assms(1) c1(1)] .
  ultimately show ?thesis
    using registry_start [OF c1(2), of tag] c1(3) by (cases "registry c") (auto split: prod.splits)
qed

text \<open>A step of a goroutine.\<close>

lemma registry_unchanged:
  assumes "consumers_inv c" "i < length (buffers c)" "queue b = queue (buffers c ! i)"
  shows "registry (c\<lparr> buffers := (buffers c)[i := b] \<rparr>) = registry c"
proof (cases "i \<in> ran (chans c)")
  case True
  then obtain tag where tag: "chans c tag = Some i" by (auto simp: ran_def)
  then have "fst (registry c) tag = Some (queue b)" using assms(3) by (simp add: registry_def)
  then show ?thesis
    unfolding registry_update_queue [OF assms(1) tag] by (cases "registry c") (simp add: fun_upd_idem)
next
  case False
  show ?thesis
    using registry_update_left [OF assms(1,2) False] assms(3) by (cases "registry c") simp
qed

lemma registry_internal:
  assumes "consumers_inv c" "consumers_step c Internal c'"
  shows "registry c' = registry c"
  using assms(2)
proof (cases rule: consumers_step.cases)
  case (1 i b)
  then have "queue b = queue (buffers c ! i)" using buffer_step_fifo by fastforce
  then show ?thesis using registry_unchanged [OF assms(1) 1(2)] 1(1) by simp
qed

lemma registry_serves:
  assumes "consumers_inv c" "consumers_step c (Sent d) c'"
  shows "reg_serve (registry c) d (registry c')"
  using assms(2)
proof (cases rule: consumers_step.cases)
  case (1 i b)
  then have q: "queue (buffers c ! i) = d # queue b" using buffer_step_fifo by fastforce
  show ?thesis
  proof (cases "i \<in> ran (chans c)")
    case True
    then obtain tag where tag: "chans c tag = Some i" by (auto simp: ran_def)
    then have "fst (registry c) tag = Some (d # queue b)" using q by (simp add: registry_def)
    then show ?thesis
      unfolding 1(1) registry_update_queue [OF assms(1) tag] by (cases "registry c") (auto intro: serve_tag)
  next
    case False
    note left = registry_update_left [OF assms(1) 1(2) False]
    have "d # queue b \<in># snd (registry c)"
      and rest: "snd (registry c) - {# d # queue b #} = leftQueues (map queue (buffers c)) (untagged c - {i})"
      by (simp_all add: left(2) q leave_def)
    from serve_left [OF this(1), of "fst (registry c)"]
    show ?thesis unfolding 1(1) left(1) rest by simp
  qed
qed

lemma leftQueues_in:
  assumes "q \<in># leftQueues (map queue (buffers c)) (untagged c)"
  obtains i where "i < length (buffers c)" "i \<notin> ran (chans c)" "queue (buffers c ! i) = q"
  using assms by (auto simp: leftQueues_def untagged_def)

lemma registry_can_serve:
  assumes "consumers_inv c" "\<not> closed c" "reg_serve (registry c) d r"
  shows "\<exists>c'. consumers_step c (Sent d) c' \<and> registry c' = r"
proof -
  have step: "consumers_step c (Sent d) (c\<lparr> buffers := (buffers c)[i := (buffers c ! i)\<lparr> queue := ds,
      pc := (if ds = [] then RangeIn else SelectLoop) \<rparr>] \<rparr>)"
    if "i < length (buffers c)" "queue (buffers c ! i) = d # ds" for i ds
  proof -
    have "buffer_inv False (buffers c ! i)"
      using that(1) assms(1,2) by (auto simp: consumers_inv_def list_all_length)
    then have "pc (buffers c ! i) = SelectLoop"
      using that(2) by (cases "pc (buffers c ! i)") (auto simp: buffer_inv_def)
    then show ?thesis
      using that by (intro consumers_step.intros [OF that(1)] select_send) simp_all
  qed
  show ?thesis
    using assms(3)
  proof (cases rule: reg_serve.cases)
    case (serve_tag A tag ds B)
    then obtain i where i: "chans c tag = Some i" "queue (buffers c ! i) = d # ds" by (auto simp: registry_def)
    then show ?thesis
      using step [OF consumers_invD(1) [OF assms(1) i(1)] i(2)] registry_update_queue [OF assms(1) i(1)] serve_tag
      by (intro exI conjI) (assumption, simp)
  next
    case (serve_left ds B A)
    then obtain i where i: "i < length (buffers c)" "i \<notin> ran (chans c)" "queue (buffers c ! i) = d # ds"
      using leftQueues_in [of "d # ds" c] by (auto simp: registry_def)
    note left = registry_update_left [OF assms(1) i(1,2)]
    have "B = leave (d # ds) (leftQueues (map queue (buffers c)) (untagged c - {i}))"
      using left(2) serve_left(1) i(3) by simp
    then show ?thesis
      using step [OF i(1,3)] left(1) serve_left by (intro exI conjI) (assumption, simp add: leave_def)
  qed
qed

section \<open>Runs\<close>

text \<open>
  The calls with their results, and the steps of the goroutines, as labels.  \<open>Silent\<close>: a step of a goroutine that
  hands out nothing.
\<close>

datatype (plugins only: code size) 'd call =
    Adding gostring
  | Cancelling gostring bool
  | Sending gostring 'd bool
  | Handing 'd
  | Silent

inductive consumers_call :: "'d consumers \<Rightarrow> 'd call \<Rightarrow> 'd consumers \<Rightarrow> bool" where
  call_add: "add tag c = Inr c' \<Longrightarrow> consumers_call c (Adding tag) c'"
| call_cancel: "cancel tag c = Inr (b, c') \<Longrightarrow> consumers_call c (Cancelling tag b) c'"
| call_send: "sendTo tag d c = Found b c' \<Longrightarrow> consumers_call c (Sending tag d b) c'"
| call_hand: "consumers_step c (Sent d) c' \<Longrightarrow> consumers_call c (Handing d) c'"
| call_silent: "consumers_step c Internal c' \<Longrightarrow> consumers_call c Silent c'"

inductive reg_call :: "'d registry \<Rightarrow> 'd call \<Rightarrow> 'd registry \<Rightarrow> bool" where
  reg_adding: "reg_call r (Adding tag) (reg_add tag r)"
| reg_cancelling: "reg_cancel tag r = (b, r') \<Longrightarrow> reg_call r (Cancelling tag b) r'"
| reg_sending: "reg_send tag d r = (b, r') \<Longrightarrow> reg_call r (Sending tag d b) r'"
| reg_handing: "reg_serve r d r' \<Longrightarrow> reg_call r (Handing d) r'"

inductive_simps reg_call_simps [simp]:
  "reg_call r (Adding tag) r'" "reg_call r (Cancelling tag b) r'" "reg_call r (Sending tag d b) r'"
  "reg_call r (Handing d) r'" "reg_call r Silent r'"

definition represents :: "'d consumers \<Rightarrow> 'd registry \<Rightarrow> bool" where
  "represents c r \<longleftrightarrow> consumers_reach c \<and> registry c = r"

lemma represents_reach: "represents c r \<Longrightarrow> consumers_call c l c' \<Longrightarrow> consumers_reach c'"
  by (erule consumers_call.cases) (auto simp: represents_def intro: consumers_reach.intros)

lemma sendTo_returns:
  assumes "consumers_inv c" "\<not> closed c"
  shows "\<exists>b c'. sendTo tag d c = Found b c'"
  using sendTo_accepted [OF assms, of tag] by (cases "chans c tag") (auto simp: sendTo_def)

lemma call_followed:
  assumes "represents c r" "consumers_call c l c'"
  shows "if l = Silent then represents c' r else \<exists>r'. reg_call r l r' \<and> represents c' r'"
proof -
  have inv: "consumers_inv c" and r: "registry c = r"
    using assms(1) consumers_reach_inv by (auto simp: represents_def)
  note reach = represents_reach [OF assms]
  show ?thesis
    using assms(2)
  proof cases
    case (call_add tag)
    then show ?thesis using registry_add [OF inv] reach by (simp add: represents_def r)
  next
    case (call_cancel tag b)
    then have "reg_cancel tag r = (b, registry c')" using registry_cancel [OF inv] r by metis
    then show ?thesis using call_cancel(1) reach by (auto simp: represents_def simp del: reg_cancel.simps)
  next
    case (call_send tag d b)
    then have "reg_send tag d r = (b, registry c')" using registry_send [OF inv] r by metis
    then show ?thesis using call_send(1) reach by (auto simp: represents_def simp del: reg_send.simps)
  next
    case (call_hand d)
    then have "reg_serve r d (registry c')" using registry_serves [OF inv] r by metis
    then show ?thesis using call_hand(1) reach by (simp add: represents_def del: split_paired_Ex)
  next
    case call_silent
    then show ?thesis using registry_internal [OF inv] reach by (simp add: represents_def r)
  qed
qed

lemma call_led:
  assumes "represents c r" "reg_call r l r'"
  shows "l \<noteq> Silent \<and> (\<exists>c'. consumers_call c l c' \<and> represents c' r')"
proof -
  have inv: "consumers_inv c" "\<not> closed c" and r: "registry c = r"
    using assms(1) consumers_reach_inv by (auto simp: represents_def)
  have "\<exists>c'. consumers_call c l c' \<and> registry c' = r'"
    using assms(2)
  proof cases
    case (reg_adding tag)
    then show ?thesis using add_inv [OF inv(1), of tag] registry_add [OF inv(1), of tag] r by (metis call_add)
  next
    case (reg_cancelling tag b)
    obtain b1 c1 where "cancel tag c = Inr (b1, c1)" using cancel_inv [OF inv(1), of tag] by blast
    with reg_cancelling registry_cancel [OF inv(1) this] show ?thesis by (auto simp: r intro: call_cancel)
  next
    case (reg_sending tag d b)
    obtain b1 c1 where "sendTo tag d c = Found b1 c1" using sendTo_returns [OF inv] by blast
    with reg_sending registry_send [OF inv(1) this] show ?thesis by (auto simp: r intro: call_send)
  next
    case (reg_handing d)
    then have "reg_serve (registry c) d r'" by (simp add: r)
    from registry_can_serve [OF inv this] obtain c' where "consumers_step c (Sent d) c'" "registry c' = r'" by blast
    then show ?thesis unfolding reg_handing(1) by (intro exI conjI call_hand)
  qed
  then show ?thesis using represents_reach [OF assms(1)] assms(2) by (cases l) (auto simp: represents_def)
qed

interpretation consuming: bisimulation consumers_call reg_call represents "\<lambda>l. l \<noteq> Silent"
proof unfold_locales
  show "\<exists>r'. reg_call r l r' \<and> represents c' r'"
    if "represents c r" "consumers_call c l c'" "l \<noteq> Silent" for c r c' and l :: "'a call"
    using call_followed [OF that(1,2)] that(3) by simp
  show "represents c' r" if "represents c r" "consumers_call c l c'" "\<not> l \<noteq> Silent" for c r c' and l :: "'a call"
    using call_followed [OF that(1,2)] that(3) by simp
qed (rule call_led)

text \<open>Every sequence of calls and results that the registry allows is one of the consumers, and the other way round.\<close>

lemma consumers_traces:
  "(\<exists>ls c. steps consumers_call makeConsumers ls c \<and> filter (\<lambda>l. l \<noteq> Silent) ls = vs) \<longleftrightarrow>
     (\<exists>r. steps reg_call (Map.empty, {#}) vs r)"
  by (rule consuming.same_traces) (simp add: represents_def reach_make registry_make)

end
