(* ===== verification/Samples.thy ===== *)
theory Samples
  imports Waiting Session Captures Confirming Registry
begin

text \<open>
  Concrete messages, frames and packets, and what the definitions make of them: the instances at which the
  theorems of the root theory are applied.
\<close>

definition sampleDeliver :: basicDeliver where
  "sampleDeliver = \<lparr> basicDeliver_ConsumerTag = ascii ''t'', basicDeliver_DeliveryTag = 1,
     basicDeliver_Redelivered = False, basicDeliver_Exchange = [], basicDeliver_RoutingKey = ascii ''q'',
     basicDeliver_Properties = noProperties, basicDeliver_Body = [] \<rparr>"

definition sampleHeader :: headerFrame where
  "sampleHeader = \<lparr> hf_ChannelId = 1, hf_ClassId = 60, hf_weight = 0, hf_Size = 3,
     hf_Properties = noProperties \<rparr>"

definition sampleFrames :: "frame list" where
  "sampleFrames = contentFrames 1 (BasicMsg (BasicDeliver sampleDeliver)) sampleHeader [[1, 2], [3]]"

lemma sample_valid: "list_all frame_valid sampleFrames" "map frame_canon sampleFrames = sampleFrames"
  by (simp_all add: sampleFrames_def contentFrames_def sampleHeader_def sampleDeliver_def noProperties_def
      validProperties_def canonProperties_def canonTime_def basicDeliver_valid_def basicDeliver_canon_def
      basic_method_ids)

lemma sample_channel: "framesOf n sampleFrames = (if n = 1 then sampleFrames else [])"
  by (simp add: sampleFrames_def contentFrames_def framesOf_def sampleHeader_def)

lemma sample_acceptable: "acceptable a sampleFrames"
  by (auto simp: sampleFrames_def sampleHeader_def maxAlloc_def intro: acceptable_content)

lemma sample_assemble:
  "assembleAll WantMethod sampleFrames =
     ([BasicMsg (BasicDeliver (sampleDeliver\<lparr> basicDeliver_Body := [1, 2, 3] \<rparr>))], WantMethod)"
  unfolding sampleFrames_def
  by (subst assemble_content)
    (simp_all add: sampleHeader_def basicDeliver_setContent_def sampleDeliver_def noProperties_def)

definition sampleInfo :: connectionInfo where
  "sampleInfo = \<lparr> ServerEP = noEndpoint, ClientEP = noEndpoint \<rparr>"

definition sampleAckFrame :: frame where
  "sampleAckFrame = MethodFrame \<lparr> mf_ChannelId = 7, mf_ClassId = 60, mf_MethodId = 80,
     mf_Method = Some (BasicMsg (BasicAck \<lparr> basicAck_DeliveryTag = 5, basicAck_Multiple = True \<rparr>)) \<rparr>"

lemma sampleAckFrame_canon [simp]: "frame_canon sampleAckFrame = sampleAckFrame"
  by (simp add: sampleAckFrame_def basicAck_canon_def basic_method_ids)

definition sampleDeclare :: message where
  "sampleDeclare = QueueMsg (QueueDeclare
     \<lparr> queueDeclare_reserved1 = 0, queueDeclare_Queue = ascii ''q'', queueDeclare_Passive = False,
       queueDeclare_Durable = True, queueDeclare_Exclusive = False, queueDeclare_AutoDelete = False,
       queueDeclare_NoWait = True, queueDeclare_Arguments = [(ascii ''x'', FInt 5)] \<rparr>)"

definition sampleProperties :: properties where
  "sampleProperties = noProperties\<lparr> ContentType := ascii ''text/plain'', DeliveryMode := 2,
     Timestamp := timeUnix 1600000000 \<rparr>"

definition sampleConfirms :: "confirm_op list" where
  "sampleConfirms = [DoPublish, DoPublish, DoPublish, DoOne \<lparr> cf_DeliveryTag = 3, cf_Ack = False \<rparr>, DoPublish,
     DoMultiple \<lparr> cf_DeliveryTag = 2, cf_Ack = True \<rparr>]"

lemma sample_confirms: "spec_run sampleConfirms (0, Map.empty) = Some (4, [1 \<mapsto> True, 2 \<mapsto> True, 3 \<mapsto> False])"
  by (auto simp: sampleConfirms_def agrees_def confirmAll_def upt_rec fun_eq_iff)

definition samplePacket :: packet where
  "samplePacket = \<lparr> pk_ip = Some (ascii ''192.168.50.38'', ascii ''10.0.0.1''), pk_tcp = Some (5672, 40000),
     pk_payload = None, pk_time = zeroBtime \<rparr>"

lemma sample_oneServer: "oneServer samplePacket"
proof -
  have "formatUint (ucast (40000 :: u16)) \<noteq> ascii ''5672''" "formatUint (ucast (5672 :: u16)) = ascii ''5672''"
    using formatUint_5672 [of "ucast (40000 :: u16)"] formatUint_5672 [of "ucast (5672 :: u16)"] by simp_all
  then show ?thesis by (simp add: oneServer_def samplePacket_def isServerHost_def isServerPort_def)
qed

definition sampleCancel :: basicCancel where
  "sampleCancel = \<lparr> basicCancel_ConsumerTag = ascii ''t'', basicCancel_NoWait = True \<rparr>"

definition sampleCancelled :: "frame list" where
  "sampleCancelled =
     sampleFrames @
     MethodFrame \<lparr> mf_ChannelId = 1, mf_ClassId = 60, mf_MethodId = 30,
       mf_Method = Some (BasicMsg (BasicCancel sampleCancel)) \<rparr> #
     contentFrames 1 (BasicMsg (BasicDeliver sampleDeliver)) sampleHeader [[4, 5, 6]]"

lemma sample_cancelled:
  "acceptable WantMethod sampleCancelled"
  "fst (assembleAll WantMethod sampleCancelled) =
     [BasicMsg (BasicDeliver (sampleDeliver\<lparr> basicDeliver_Body := [1, 2, 3] \<rparr>)), BasicMsg (BasicCancel sampleCancel),
      BasicMsg (BasicDeliver (sampleDeliver\<lparr> basicDeliver_Body := [4, 5, 6] \<rparr>))]"
proof -
  have second: "assembleAll WantMethod (contentFrames 1 (BasicMsg (BasicDeliver sampleDeliver)) sampleHeader [[4, 5, 6]]) =
      ([BasicMsg (BasicDeliver (sampleDeliver\<lparr> basicDeliver_Body := [4, 5, 6] \<rparr>))], WantMethod)"
    by (subst assemble_content)
      (simp_all add: sampleHeader_def basicDeliver_setContent_def sampleDeliver_def noProperties_def)
  show "fst (assembleAll WantMethod sampleCancelled) =
     [BasicMsg (BasicDeliver (sampleDeliver\<lparr> basicDeliver_Body := [1, 2, 3] \<rparr>)), BasicMsg (BasicCancel sampleCancel),
      BasicMsg (BasicDeliver (sampleDeliver\<lparr> basicDeliver_Body := [4, 5, 6] \<rparr>))]"
    by (simp add: sampleCancelled_def assembleAll_append sample_assemble second)
  show "acceptable WantMethod sampleCancelled"
    by (rule acceptable_channelFrames)
      (simp_all add: sampleCancelled_def sampleFrames_def contentFrames_def sampleHeader_def maxAlloc_def)
qed

definition sampleTimes :: "btime list" where
  "sampleTimes = [\<lparr> bt_sec = 7, bt_nsec = 8, bt_zone = Some 3600 \<rparr>, \<lparr> bt_sec = 8, bt_nsec = 8, bt_zone = Some 3600 \<rparr>]"

definition samplePublished :: "frame list" where
  "samplePublished = contentFrames 1 (BasicMsg (BasicDeliver sampleDeliver)) (sampleHeader\<lparr> hf_Size := 19 \<rparr>)
     [publishBody 0 (hd sampleTimes)]"

lemma sample_body: "marshalOffset (hd sampleTimes) = Inr 60" "length (publishBody 0 (hd sampleTimes)) = 19"
proof -
  show z: "marshalOffset (hd sampleTimes) = Inr 60" by (simp add: marshalOffset_def sampleTimes_def)
  show "length (publishBody 0 (hd sampleTimes)) = 19" using publishBody_length_ok [OF z] .
qed

lemma sample_published:
  "list_all frame_valid samplePublished" "map frame_canon samplePublished = samplePublished"
  "framesOf n samplePublished = (if n = 1 then samplePublished else [])"
  "assembleAll WantMethod samplePublished =
     ([BasicMsg (BasicDeliver (sampleDeliver\<lparr> basicDeliver_Body := publishBody 0 (hd sampleTimes) \<rparr>))], WantMethod)"
  "acceptable WantMethod samplePublished"
proof -
  have ne: "publishBody 0 (hd sampleTimes) \<noteq> []" using sample_body(2) by auto
  show "list_all frame_valid samplePublished" "map frame_canon samplePublished = samplePublished"
    using sample_body(2)
    by (simp_all add: samplePublished_def contentFrames_def sampleHeader_def sampleDeliver_def noProperties_def
        validProperties_def canonProperties_def canonTime_def basicDeliver_valid_def basicDeliver_canon_def
        basic_method_ids)
  show "framesOf n samplePublished = (if n = 1 then samplePublished else [])"
    by (simp add: samplePublished_def contentFrames_def framesOf_def sampleHeader_def)
  show "assembleAll WantMethod samplePublished =
     ([BasicMsg (BasicDeliver (sampleDeliver\<lparr> basicDeliver_Body := publishBody 0 (hd sampleTimes) \<rparr>))], WantMethod)"
    unfolding samplePublished_def using sample_body(2) ne
    by (subst assemble_content)
      (simp_all add: sampleHeader_def basicDeliver_setContent_def sampleDeliver_def noProperties_def)
  show "acceptable WantMethod samplePublished"
    unfolding samplePublished_def by (rule acceptable_content) (simp add: maxAlloc_def)
qed

definition samplePort :: gostring where
  "samplePort = ep_Port (snd (endpoints samplePacket))"

definition sampleCapture :: "packet list" where
  "sampleCapture = (case encodeFrames samplePublished of
     Inl e \<Rightarrow> []
   | Inr bs \<Rightarrow> [samplePacket\<lparr> pk_payload := Some bs \<rparr>])"

lemma sample_capture:
  "\<exists>p0. parsePackets sampleCapture (NewParser True) = Inr p0"
  "messagesAt sampleCapture port n = (if port = samplePort \<and> n = 1
     then [BasicMsg (BasicDeliver (sampleDeliver\<lparr> basicDeliver_Body := publishBody 0 (hd sampleTimes) \<rparr>))] else [])"
  "decodable_bodies sampleCapture"
  "framesAt (inputs sampleCapture) port n = (if port = samplePort \<and> n = 1 then samplePublished else [])"
  "list_all readable sampleCapture"
proof -
  obtain bs where bs: "encodeFrames samplePublished = Inr bs" by (rule encodeFrames_ok [OF sample_published(1)])
  let ?pk = "samplePacket\<lparr> pk_payload := Some bs \<rparr>"
  have pks: "sampleCapture = [?pk]" by (simp add: sampleCapture_def bs)
  show "list_all readable sampleCapture"
    using carries_input(2) [of ?pk samplePublished] sample_published(1) bs by (simp add: pks carries_def)
  have carries: "carries ?pk samplePublished" using sample_published(1) bs by (simp add: carries_def)
  have cap: "inputs [?pk] = [Stamp (pk_time ?pk), Payload (fst (endpoints ?pk)) (snd (endpoints ?pk)) samplePublished False]"
    using carries_input(1) [OF carries] sample_published(2) by (simp add: inputs_Cons)
  have at: "framesAt (inputs [?pk]) port n = (if port = samplePort \<and> n = 1 then samplePublished else [])" for port n
    unfolding cap by (simp add: framesAt_Cons sample_published samplePort_def endpoints_def)
  then show "framesAt (inputs sampleCapture) port n = (if port = samplePort \<and> n = 1 then samplePublished else [])"
    by (simp add: pks)
  from at have "accepting (NewParser True) (inputs [?pk])" using carries_input(2) [OF carries] by (simp add: accepting_New sample_published)
  then show "\<exists>p0. parsePackets sampleCapture (NewParser True) = Inr p0"
    unfolding pks by (intro accepting_parses) simp_all
  show ms: "messagesAt sampleCapture port n = (if port = samplePort \<and> n = 1
       then [BasicMsg (BasicDeliver (sampleDeliver\<lparr> basicDeliver_Body := publishBody 0 (hd sampleTimes) \<rparr>))] else [])"
    for port n
    by (simp add: pks messagesAt_def at sample_published)
  show "decodable_bodies sampleCapture"
    using sample_body(2) by (auto simp: decodable_bodies_def ms basicDeliver_getContent_def)
qed

definition sampleAck :: methodFrame where
  "sampleAck = \<lparr> mf_ChannelId = 1, mf_ClassId = 60, mf_MethodId = 80,
     mf_Method = Some (BasicMsg (BasicAck \<lparr> basicAck_DeliveryTag = 5, basicAck_Multiple = True \<rparr>)) \<rparr>"

lemma sample_ack: "list_all frame_valid [MethodFrame sampleAck]" "frame_canon (MethodFrame sampleAck) = MethodFrame sampleAck"
  by (simp_all add: sampleAck_def basicAck_valid_def basicAck_canon_def basic_method_ids)

lemma sample_parts:
  "contentFrames 1 (BasicMsg (BasicDeliver sampleDeliver)) (sampleHeader\<lparr> hf_Size := 19 \<rparr>) [publishBody 0 (hd sampleTimes)] =
     take 2 samplePublished @ drop 2 samplePublished"
  "list_all frame_valid (take 2 samplePublished)" "list_all frame_valid (drop 2 samplePublished)"
  "map frame_canon (take 2 samplePublished) = take 2 samplePublished"
  "map frame_canon (drop 2 samplePublished) = drop 2 samplePublished"
  "take 2 samplePublished \<noteq> []" "drop 2 samplePublished \<noteq> []" "publishBody 0 (hd sampleTimes) \<noteq> []"
proof -
  have "list_all frame_valid (take 2 samplePublished @ drop 2 samplePublished)" using sample_published(1) by simp
  then show "list_all frame_valid (take 2 samplePublished)" "list_all frame_valid (drop 2 samplePublished)"
    by (simp_all del: append_take_drop_id)
  show "map frame_canon (take 2 samplePublished) = take 2 samplePublished"
    "map frame_canon (drop 2 samplePublished) = drop 2 samplePublished"
    using sample_published(2) by (metis take_map) (metis sample_published(2) drop_map)
  show "publishBody 0 (hd sampleTimes) \<noteq> []" using sample_body(2) by auto
  then show "contentFrames 1 (BasicMsg (BasicDeliver sampleDeliver)) (sampleHeader\<lparr> hf_Size := 19 \<rparr>) [publishBody 0 (hd sampleTimes)] =
      take 2 samplePublished @ drop 2 samplePublished"
    "take 2 samplePublished \<noteq> []" "drop 2 samplePublished \<noteq> []"
    by (simp_all add: samplePublished_def contentFrames_def)
qed

definition sampleReconnect :: "packet list" where
  "sampleReconnect = (case encodeFrames (take 2 samplePublished) of
     Inl e \<Rightarrow> []
   | Inr bs \<Rightarrow> [samplePacket\<lparr> pk_payload := Some bs \<rparr>, samplePacket\<lparr> pk_payload := Some protocolHeader_bytes \<rparr>])"

lemma sample_reconnect:
  "framesAt (inputs sampleReconnect) port n = (if port = samplePort \<and> n = 1 then take 2 samplePublished else [])"
  "list_all readable sampleReconnect"
proof -
  obtain bs where bs: "encodeFrames (take 2 samplePublished) = Inr bs" by (rule encodeFrames_ok [OF sample_parts(2)])
  let ?pk = "samplePacket\<lparr> pk_payload := Some bs \<rparr>" and ?hs = "samplePacket\<lparr> pk_payload := Some protocolHeader_bytes \<rparr>"
  have pks: "sampleReconnect = [?pk, ?hs]" by (simp add: sampleReconnect_def bs)
  have carries: "carries ?pk (take 2 samplePublished)" using sample_parts(2) bs by (simp add: carries_def)
  then show "list_all readable sampleReconnect"
    using carries_input(2) by (simp add: pks readable_def handshake_scan)
  have "ep_Port (snd (endpoints ?pk)) = samplePort" by (simp add: samplePort_def endpoints_def)
  moreover have "framesOf n (take 2 samplePublished) = (if n = 1 then take 2 samplePublished else [])" for n
    by (simp add: samplePublished_def contentFrames_def framesOf_def sampleHeader_def)
  ultimately show "framesAt (inputs sampleReconnect) port n = (if port = samplePort \<and> n = 1 then take 2 samplePublished else [])"
    unfolding pks carries_framesAt [OF carries sample_parts(4)] by (simp add: handshake_framesAt)
qed

lemma sample_resumed:
  "\<exists>p0. parsePackets (sampleReconnect @ sampleCapture) (NewParser True) = Inr p0"
  "decodable_bodies (sampleReconnect @ sampleCapture)"
  "messagesAt sampleReconnect port n = []"
  "methodFirst (framesAt (inputs sampleCapture) port n)"
proof -
  have inputs: "inputs (sampleReconnect @ sampleCapture) = inputs sampleReconnect @ inputs sampleCapture"
    by (simp add: inputs_def)
  have "acceptable WantMethod (take 2 samplePublished @ samplePublished)"
    by (rule acceptable_channelFrames) (simp_all add: samplePublished_def contentFrames_def sampleHeader_def maxAlloc_def)
  then have "accepting (NewParser True) (inputs (sampleReconnect @ sampleCapture))"
    using sample_reconnect(2) sample_capture(5)
    by (subst accepting_New) (simp add: inputs framesAt_append sample_reconnect(1) sample_capture(4))
  then show "\<exists>p0. parsePackets (sampleReconnect @ sampleCapture) (NewParser True) = Inr p0"
    by (intro accepting_parses) simp_all
  show none: "messagesAt sampleReconnect port n = []" for port n
    by (simp add: messagesAt_def sample_reconnect(1) samplePublished_def contentFrames_def sampleHeader_def)
  show first: "methodFirst (framesAt (inputs sampleCapture) port n)" for port n
    by (simp add: sample_capture(4) samplePublished_def contentFrames_def)
  show "decodable_bodies (sampleReconnect @ sampleCapture)"
    using sample_capture(3) unfolding decodable_bodies_def messagesAt_append [OF first] by (simp add: none)
qed

definition sampleBroker :: "(unit, frame list, bytes, unit) broker" where
  "sampleBroker = \<lparr> br_dialPublish = \<lambda>url. Inr (), br_dialConsume = \<lambda>url. Inr (), br_channel = \<lambda>conn. Inr [],
     br_publish = \<lambda>ch exchange key mandatory immediate p. (ch, None), br_qos = \<lambda>ch count size global. (ch, None),
     br_consume = \<lambda>ch name tag autoAck exclusive noLocal noWait. (ch, None),
     br_body = \<lambda>d. d, br_ack = \<lambda>ch d multiple. (ch, None) \<rparr>"

lemma sample_consumed:
  "consumerLoop (br_body sampleBroker) (br_ack sampleBroker) [Msg (publishBody 0 (hd sampleTimes))] 0 [] =
     (StillRunning, 1, [])"
proof -
  have "decodable (publishBody 0 (hd sampleTimes))" using sample_body(1) by (simp add: decodable_publishBody)
  then show ?thesis by (auto simp: decodable_def sampleBroker_def split: sum.splits prod.splits option.splits)
qed

definition sampleCaptures :: "(gostring \<times> packet list) list" where
  "sampleCaptures = [([97], sampleCapture), ([98], [samplePacket\<lparr> pk_payload := None, pk_time := hd sampleTimes \<rparr>])]"

lemma sample_captures:
  "sound_captures sampleCaptures"
  "sampleCaptures = [([97], sampleCapture)] @ [([98], [] @ [samplePacket\<lparr> pk_payload := None, pk_time := hd sampleTimes \<rparr>])]"
  "length sampleCaptures = 2" "sampleCaptures ! 0 = ([97], sampleCapture)"
proof -
  let ?pk = "samplePacket\<lparr> pk_payload := None, pk_time := hd sampleTimes \<rparr>"
  have "messagesAt [?pk] port n = []" for port n
    by (simp add: messagesAt_def inputs_def inputOf_def framesAt_def framesOf_def)
  then have "decodable_bodies [?pk]" by (simp add: decodable_bodies_def)
  moreover have "\<exists>p0. parsePackets [?pk] (NewParser True) = Inr p0" by (simp add: printPacketInfo_def case_prod_unfold)
  ultimately show "sound_captures sampleCaptures"
    using sample_capture(1,3) by (simp add: sound_captures_def sampleCaptures_def)
qed (simp_all add: sampleCaptures_def)

lemma sample_capture_bodies:
  assumes "mset ws = mset (map (wrapAt sampleCapture samplePort 1)
    (deliveriesOf (refAt sampleCapture samplePort 1) (messagesAt sampleCapture samplePort 1)))"
  shows "map wm_Body ws = [publishBody 0 (hd sampleTimes)]"
proof -
  have "image_mset wm_Body (mset ws) = {# publishBody 0 (hd sampleTimes) #}"
    unfolding assms
    by (simp add: sample_capture(2) deliveriesOf_def wrapAt_def basicDeliver_getContent_def del: newDelivery.simps)
  then show ?thesis unfolding mset_map [symmetric] mset_single_iff .
qed

definition sampleSession :: "(packet \<times> frame list) list" where
  "sampleSession = (case (encodeFrames (take 2 samplePublished), encodeFrames (drop 2 samplePublished)) of
     (Inr b1, Inr b2) \<Rightarrow>
       [(samplePacket\<lparr> pk_payload := Some b1 \<rparr>, take 2 samplePublished),
        (samplePacket\<lparr> pk_payload := Some b2 \<rparr>, drop 2 samplePublished)]
   | _ \<Rightarrow> [])"

definition sampleScript :: "gostring \<Rightarrow> u16 \<Rightarrow> transmission list" where
  "sampleScript port n = (if port = samplePort \<and> n = 1
     then [WithContent (BasicMsg (BasicDeliver sampleDeliver)) (sampleHeader\<lparr> hf_Size := 19 \<rparr>) [publishBody 0 (hd sampleTimes)]]
     else [])"

lemma sample_session:
  "\<forall>(pk, fs) \<in> set sampleSession. carries pk fs \<and> map frame_canon fs = fs"
  "\<forall>port n. n \<noteq> 0 \<longrightarrow> framesSent sampleSession port n = concat (map (framesFor n) (sampleScript port n))"
  "\<forall>port n. list_all sendable (sampleScript port n)"
proof -
  obtain b1 where b1: "encodeFrames (take 2 samplePublished) = Inr b1" by (rule encodeFrames_ok [OF sample_parts(2)])
  obtain b2 where b2: "encodeFrames (drop 2 samplePublished) = Inr b2" by (rule encodeFrames_ok [OF sample_parts(3)])
  have s: "sampleSession = [(samplePacket\<lparr> pk_payload := Some b1 \<rparr>, take 2 samplePublished),
      (samplePacket\<lparr> pk_payload := Some b2 \<rparr>, drop 2 samplePublished)]"
    by (simp add: sampleSession_def b1 b2)
  show "\<forall>(pk, fs) \<in> set sampleSession. carries pk fs \<and> map frame_canon fs = fs"
    using sample_parts b1 b2 by (simp add: s carries_def)
  have port: "ep_Port (snd (endpoints (samplePacket\<lparr> pk_payload := x \<rparr>))) = samplePort" for x
    by (simp add: samplePort_def endpoints_def)
  have "framesOf n (take 2 samplePublished) @ framesOf n (drop 2 samplePublished) = (if n = 1 then samplePublished else [])" for n
    using sample_published(3) by (simp add: framesOf_def flip: filter_append)
  then show "\<forall>port n. n \<noteq> 0 \<longrightarrow> framesSent sampleSession port n = concat (map (framesFor n) (sampleScript port n))"
    by (auto simp: s framesSent_def port sampleScript_def samplePublished_def)
  show "\<forall>port n. list_all sendable (sampleScript port n)"
    using sample_body(2) sample_parts(8) by (simp add: sampleScript_def sampleHeader_def maxAlloc_def)
qed

end
