(* ===== verification/Spec2Isabelle.thy ===== *)
theory Spec2Isabelle
  imports TagSet Employee LinkedList Confirming Samples
begin

text \<open>
  A verification of the Go code of the repository \<open>gitbook-golang\<close>: an AMQP 0-9-1 traffic sniffer
  (\<open>src/mq/amqpparser\<close>), the publisher and consumer it listens to (\<open>src/mq/rabbitmq\<close>) with a sketch of an AMQP
  client library (\<open>src/mq/rabbitmq/rbmq\<close>), a database example (\<open>src/database/gorm\<close>) and the type of a linked
  list (\<open>src/dt-al/list\<close>).

  The program.  The sniffer reads packets from a capture file.  \<open>main.go\<close> decides which end of a packet
  is the server and hands its payload to \<open>amqp.Parser\<close> (\<open>parser.go\<close>), which finds the connection of the
  client's port and reads frames from the payload until \<open>io.EOF\<close>.  \<open>ReadFrame\<close> (\<open>read.go\<close>) parses a
  frame; its methods are the 62 structs of \<open>spec091.go\<close>.  \<open>Connection.demux\<close> (\<open>connection.go\<close>) gives the
  frame to its channel, whose state machine (\<open>channel.go\<close>) puts methods, content headers and bodies
  together and dispatches the messages: confirmations to \<open>confirms.go\<close>, deliveries to the consumer of
  their tag (\<open>consumers.go\<close>), whose goroutine queues them; a second goroutine sends them into \<open>chMsg\<close>,
  where \<open>handleMsg\<close> decodes (\<open>mymessage.go\<close>) and prints them.  \<open>write.go\<close> is the encoder of the same
  protocol.

  The theories, each with the part of the code it models:

  \<^item> \<open>Prelude\<close>: words, byte strings, the reader type of a Go function on an \<open>io.Reader\<close>, and the notions
    \<open>decodes\<close> (round trip), \<open>consumes\<close> and \<open>progresses\<close>.
  \<^item> \<open>Errors\<close>: the codes and error values of \<open>types.go\<close> and \<open>spec091.go\<close>; \<open>answers\<close>: a reader that comes back;
    \<open>online\<close>: one that does not look ahead.  \<open>TagSet\<close>: the type \<open>tagSet\<close> of \<open>types.go\<close>.
  \<^item> \<open>Wire\<close>: integers, strings, decimals and timestamps of \<open>read.go\<close> and \<open>write.go\<close>.
  \<^item> \<open>Field\<close>, \<open>FieldRead\<close>, \<open>FieldCodec\<close>: table fields, their validation, writers and readers.  The readers
    call one another on ever shorter input; they are written with fuel, and \<open>FieldRead\<close> shows that two
    units for each byte and two more are enough and derives the equations of the source from that
    (\<open>field_readers_equations\<close>).  \<open>FieldValid\<close>: what is read is valid (\<open>yields\<close>).
  \<^item> \<open>Properties\<close>, \<open>HeaderFrame\<close>: content properties, their flags, and the content header frame.
  \<^item> \<open>MethodsConnection\<close>, \<open>MethodsChannel\<close>, \<open>MethodsExchange\<close>, \<open>MethodsQueue\<close>, \<open>MethodsBasic\<close>, \<open>MethodsTx\<close>,
    \<open>MethodsConfirm\<close>, \<open>Messages\<close>: the structs of \<open>spec091.go\<close> class by class, and \<open>parseMethodFrame\<close>.
    Each struct is an interpretation of the locale \<open>message_codec\<close> of \<open>Properties\<close>.
  \<^item> \<open>Frame\<close>: the frames, \<open>ReadFrame\<close> and \<open>WriteFrame\<close>, over any writer that meets \<open>io_writer\<close>.
  \<^item> \<open>Simulation\<close>: the locales \<open>simulation\<close> and \<open>bisimulation\<close>, of which the next two refinements are interpretations.
    \<open>Confirms\<close>: publisher confirms; \<open>Confirming\<close>: their specification and its refinement.  \<open>Consumers\<close>: consumer tags,
    the \<open>buffer\<close> goroutine as a step relation, and the map of consumers; \<open>Registry\<close>: the registry of queues that
    they refine.  \<open>Delivery\<close>: deliveries and returns.
  \<^item> \<open>Channel\<close>: the state of a channel, \<open>dispatch\<close>, the state machine, and \<open>assemble\<close>, the specification of
    reassembly it implements.  \<open>Pipeline\<close>: frames interleaved with the goroutines of a channel.
    \<open>Conservation\<close>: that no interleaving loses or doubles a delivery, and which one reorders them.
  \<^item> \<open>Connection\<close>, \<open>Parser\<close>, \<open>Sniffer\<close>: \<open>connection.go\<close>, \<open>parser.go\<close>, \<open>main.go\<close>.  \<open>scan\<close> tells what the read
    loop finds in a packet from what \<open>demux\<close> makes of it.  \<open>MyMessage\<close>: \<open>mymessage.go\<close>.
  \<^item> \<open>Running\<close>, \<open>Captured\<close>: the parser and the goroutines of all channels interleaved in any way (\<open>sniff_step\<close>),
    what a run over a capture has sent into \<open>chMsg\<close>, and that every run comes to an end (\<open>run_over\<close>).
    \<open>Captures\<close>: \<open>main\<close> with \<open>chMsg\<close>, \<open>handleMsg\<close> and several captures, whose parsers live on side by side
    (\<open>main_step\<close>), with the panics that end it, the send into \<open>currentPcap\<close> that may block it, and the interrupt.  \<open>Directions\<close>: what the two directions of a connection do to each
    other, and how a channel recovers.  \<open>Session\<close>: sessions of well-formed traffic.
  \<^item> \<open>Rbmq\<close>: \<open>rbmq.go\<close>, \<open>client.go\<close> and the URLs.  \<open>Publisher\<close>: \<open>rabbitmq/main.go\<close>, over a channel of the AMQP
    library whose operations are parameters of which nothing is assumed; what is shown are the calls that are made
    (\<open>logPublish\<close> and \<open>logAck\<close> write them down with their results) and what is made of their failure.  \<open>Waiting\<close>: \<open>main\<close> of the same program, its goroutines under the wait group as a
    step relation.  \<open>Employee\<close>: \<open>database/gorm\<close>.  \<open>LinkedList\<close>: \<open>dt-al/list\<close>.
  \<^item> \<open>Samples\<close>: the concrete messages and frames on which the theorems below are instantiated.

  How the code is rendered.  A struct is a record, an interface a datatype of its implementations, an integer a
  word of its width (\<open>int\<close> is 64 bits wide).  The language is Go 1.15, as \<open>go.mod\<close>
  says.  Strings and byte slices are byte lists.  A function that takes an \<open>io.Reader\<close> maps the
  bytes to come to an error or a value and the bytes left.  Errors are values of \<open>go_error\<close>,
  \<open>Panic\<close> among them; \<open>Diverged\<close> marks a call that does not come back (a loop without
  end, a send nobody receives) and is proved not to arise in the readers (\<open>read_frame_total\<close>).
  State is passed explicitly; goroutines are step relations (\<open>buffer_step\<close>,
  \<open>channel_step\<close>), and every operation that holds a mutex throughout is one step.  A Go channel
  that is only sent to is the list of what was sent.

  What the theorems show.  C1 to C4 are about the sniffer as a whole: what its parser sends on from well-formed
  traffic is exactly what was delivered; on any captures, what its application handles is at any time part of
  the deliveries that the specification of reassembly finds in each channel; the sniffer always comes to rest or
  crashes, and if \<open>main\<close> then waits for the interrupt, it has handled exactly these deliveries.  C5
  is the part of the parser in it, C6 and C7 that of a channel with its goroutines, and C8 adds the publisher at
  the other end; C9 is how a channel recovers from what it has lost, C10 and C11 are what goes wrong.  C12:
  reassembly; C22: isolation of channels.  C13 to C16: round trips of frames, methods, headers and tables.  C17
  to C21: the read loop on any bytes, what it does with frames cut off, packets in sequence, and what it finds
  being valid and encodable again.  C23 to C26: confirms, their specification and where the code departs from
  it; C27 to C30: consumers, their order, that they neither block nor panic, and how they end.  C31 to C33:
  outcomes of the codec and of \<open>demux\<close>.  C34 to C39: connections, messages, publisher and consumer.
  C40 states what the code does where it surely does not mean to, as do C3 for \<open>currentPcap\<close>, C10,
  C11, C18, C26, C30, C32 and C39.

  Not modelled: the vendored packages and what calls them only (packet capture, the AMQP client and the
  database, which are parameters), tracing and command line flags, the texts of error messages, and locking as
  such.  Timestamps are Unix seconds; the size of the local time zone database plays no part.  Memory is
  unbounded but for \<open>maxAlloc\<close>, the limit of a single allocation.
  \<open>currentPcap\<close> is never made in the source, so that \<open>main\<close> with a capture blocks before the first packet
  (C3, and \<open>captures_never_parsed\<close> in \<open>Sniffer\<close>).  \<open>main_step\<close> has as a parameter whether it is
  made: its theorems hold for both, and say which runs there are in each case; C1, C8 and
  C9 are about the package \<open>amqp\<close> and \<open>handleMsg\<close> by themselves and do not depend on it.
  \<open>consumers.close\<close> and the acknowledgements of \<open>delivery.go\<close> are modelled, but nothing in the sniffer calls
  them, as nothing puts its channels in confirm mode.  What a broker does between the calls of the publisher and the
  deliveries of a capture is not in the repository; C8 has it as a hypothesis.
\<close>

section \<open>The sniffer as a whole\<close>

text \<open>
  C1.  The parser is right on every session of well-formed traffic.  Let every channel of every connection send
  whole methods and contents, the contents cut into a header with the size of the body and body frames of which
  the last is not empty, the frames of the channels interleaved and divided among packets in any way, each packet
  carrying whole frames.  Then the capture is read without a panic, and whatever the order in which the reading and
  the goroutines of the channels go on: they can go on until nothing is left to do, and when nothing is, every packet
  is read and what was sent into \<open>chMsg\<close> for each channel are exactly the bodies that were delivered on it, each once,
  and for a consumer that is not cancelled in the order in which they were sent.
\<close>

theorem session_delivered:
  assumes "\<forall>(pk, fs) \<in> set sent. carries pk fs \<and> map frame_canon fs = fs"
    and "\<forall>port n. n \<noteq> 0 \<longrightarrow> framesSent sent port n = concat (map (framesFor n) (script port n))"
    and "\<forall>port n. list_all sendable (script port n)"
  shows "(\<exists>p0. parsePackets (map fst sent) (NewParser True) = Inr p0) \<and>
    (\<forall>ws p rest. sniff_run (NewParser True) (inputs (map fst sent)) ws p rest \<longrightarrow>
      (\<exists>vs p' rest'. sniff_run (NewParser True) (inputs (map fst sent)) (ws @ vs) p' rest' \<and> run_over p' rest') \<and>
      (run_over p rest \<longrightarrow> rest = [] \<and>
        (\<forall>port n t. n \<noteq> 0 \<longrightarrow>
          mset (map wm_Body (sentFrom port n ws)) = mset (bodiesFor isDelivery (script port n)) \<and>
          (list_all (\<lambda>x. \<not> cancels_tag t (messageFor x)) (script port n) \<longrightarrow>
            map wm_Body (sentTo t (sentFrom port n ws)) = bodiesFor (deliveredTo t) (script port n)))))"
proof (intro conjI allI impI)
  show "\<exists>p0. parsePackets (map fst sent) (NewParser True) = Inr p0" using session_parsed(1) [OF assms] .
  fix ws p rest
  assume run: "sniff_run (NewParser True) (inputs (map fst sent)) ws p rest"
  then show "\<exists>vs p' rest'. sniff_run (NewParser True) (inputs (map fst sent)) (ws @ vs) p' rest' \<and> run_over p' rest'"
    using run_can_end parser_ok_new by blast
  assume over: "run_over p rest"
  show "rest = []" using session_over(1) [OF assms run over, of 1] by simp
  fix port t and n :: u16
  assume n: "n \<noteq> 0"
  show "mset (map wm_Body (sentFrom port n ws)) = mset (bodiesFor isDelivery (script port n))"
    by (rule session_over(2) [OF assms run over n])
  show "map wm_Body (sentTo t (sentFrom port n ws)) = bodiesFor (deliveredTo t) (script port n)"
    if "list_all (\<lambda>x. \<not> cancels_tag t (messageFor x)) (script port n)"
    by (rule session_over(3) [OF assms run over n that])
qed

theorem session_delivered_witness:
  "\<exists>ws p. sniff_run (NewParser True) (inputs (map fst sampleSession)) ws p [] \<and>
     map wm_Body (sentTo (ascii ''t'') (sentFrom samplePort 1 ws)) = [publishBody 0 (hd sampleTimes)]"
proof -
  note all = session_delivered [OF sample_session]
  obtain ws p rest where run: "sniff_run (NewParser True) (inputs (map fst sampleSession)) ws p rest" "run_over p rest"
    using all sniff_run_nil by (metis append_Nil)
  have "list_all (\<lambda>x. \<not> cancels_tag (ascii ''t'') (messageFor x)) (sampleScript samplePort 1)"
    by (simp add: sampleScript_def)
  moreover have "(1 :: u16) \<noteq> 0" by simp
  ultimately have "rest = []" "map wm_Body (sentTo (ascii ''t'') (sentFrom samplePort 1 ws)) =
      bodiesFor (deliveredTo (ascii ''t'')) (sampleScript samplePort 1)"
    using all run by blast+
  moreover have "bodiesFor (deliveredTo (ascii ''t'')) (sampleScript samplePort 1) = [publishBody 0 (hd sampleTimes)]"
    by (simp add: sampleScript_def bodiesFor_def basicDeliver_getContent_def basicDeliver_setContent_def sampleDeliver_def)
  ultimately show ?thesis using run(1) by (intro exI conjI) simp_all
qed

text \<open>
  C2.  When \<open>main\<close> waits for the interrupt and nothing else can go on, the sniffer has done everything: every capture is
  begun and read to its end, \<open>chMsg\<close> is empty and no message is under way, and the application has handled, of
  every channel of every capture, exactly the deliveries of its reassembled messages, each once, those of a
  consumer that is not cancelled in order, and nothing else; it has printed what \<open>handleMsg\<close> prints for them, in that
  order.  As the code is, with \<open>currentPcap\<close> never made, \<open>main\<close> gets there only if it is given no capture; with
  \<open>currentPcap\<close> made, with sound captures, and with no others (C3).
\<close>

theorem captures_reported:
  assumes "main_steps made (main_start caps) s" "settled made s"
  shows "all_handled caps s \<and> nothing_under_way s \<and> mn_todo s = [] \<and>
    map Inr (mn_out s) = map (\<lambda>(i, pcap, now, w). handleMessage pcap now w) (mn_handled s) \<and>
    (\<forall>(i, pcap, now, w) \<in> set (mn_handled s). i < length caps \<and> wm_ChannelID w \<noteq> 0)"
proof -
  have inv: "main_inv caps s" using main_inv_steps [OF assms(1) main_inv_start] .
  have "map Inr (mn_out s) = map (\<lambda>(i, pcap, now, w). handleMessage pcap now w) (mn_handled s)"
    using inv by (simp add: main_inv_def)
  moreover have "\<forall>(i, pcap, now, w) \<in> set (mn_handled s). i < length caps \<and> wm_ChannelID w \<noteq> 0"
    using handled_channel [OF inv] by blast
  moreover have "at_rest made s" "mn_todo s = []" using assms(2) by (simp_all add: settled_def at_interrupt_def)
  ultimately show ?thesis using settled_all_handled [OF inv assms(2)] rest_progress(1) [OF inv] by blast
qed

theorem captures_reported_witness:
  "\<exists>s. main_steps True (main_start sampleCaptures) s \<and> settled True s \<and> mn_chMsg s = [] \<and>
     map wm_Body (sentFrom samplePort 1 (handledOf 0 s)) = [publishBody 0 (hd sampleTimes)]"
proof -
  obtain s where s: "main_steps True (main_start sampleCaptures) s" "settled True s"
    using sound_settles [OF main_inv_start sample_captures(1)] by (auto simp: main_start_def)
  from captures_reported [OF s] have "all_handled sampleCaptures s" "mn_chMsg s = []" by (simp_all add: nothing_under_way_def)
  moreover from this have "mset (sentFrom samplePort 1 (handledOf 0 s)) = mset (map (wrapAt sampleCapture samplePort 1)
      (deliveriesOf (refAt sampleCapture samplePort 1) (messagesAt sampleCapture samplePort 1)))"
    by (simp add: all_handled_def sample_captures(3,4))
  ultimately show ?thesis using s sample_capture_bodies by blast
qed

text \<open>
  C3.  The sniffer comes to rest.  On all captures, whether or not \<open>currentPcap\<close> is made, it has no infinite run; while
  it is active it can go on until it is at rest, so that nothing but the interrupt can happen, or has crashed; and
  it never rests early: at rest, every capture that was begun is read, \<open>chMsg\<close> is empty, no delivery is in
  a buffer or with a goroutine, and \<open>main\<close> is at \<open><-sg\<close> after the last capture or blocked in the send into a \<open>currentPcap\<close> that is
  not made.  It crashes only on captures that the parser panics on or that have a body of less than four octets,
  and comes to wait for the interrupt only on others.  As the code is, \<open>currentPcap\<close> is not made: if there is
  a capture, the sniffer is blocked in that send from the start.
\<close>

theorem captures_halt:
  assumes "main_steps made (main_start caps) s"
  shows "(\<nexists>f. f 0 = main_start caps \<and> (\<forall>i. main_step made (f i) (f (Suc i)))) \<and>
    (mn_status s = Active \<longrightarrow> (\<exists>s'. main_steps made s s' \<and> (at_rest made s' \<or> mn_status s' = PanicExit))) \<and>
    (at_rest made s \<longrightarrow> nothing_under_way s \<and> (at_interrupt s \<or> at_nil_send made s)) \<and>
    (mn_status s = PanicExit \<longrightarrow> \<not> sound_captures caps) \<and> (settled made s \<longrightarrow> sound_captures caps) \<and>
    (made = currentPcap_made \<and> caps \<noteq> [] \<longrightarrow> s = main_start caps \<and> at_nil_send made s \<and> (\<forall>s'. \<not> main_step made s s'))"
proof -
  have inv: "main_inv caps s" using main_inv_steps [OF assms main_inv_start] .
  have "s = main_start caps \<and> at_nil_send made s \<and> (\<forall>s'. \<not> main_step made s s')"
    if m: "made = currentPcap_made" "caps \<noteq> []"
  proof -
    have made: "made = False" by (simp add: m(1) currentPcap_made_def currentPcap_init_def)
    obtain c cs where caps: "caps = c # cs" using m(2) by (cases caps) auto
    have s: "s = main_start caps" using assms main_blocked unfolding caps made by blast
    have "\<not> main_step made s s'" for s'
      using main_blocked [of c cs s'] main_step_decreases [of made s s', OF _ inv] wf_main_order
      unfolding s caps made by (metis r_into_rtranclp wf_not_refl)
    then show ?thesis using caps s made by (simp add: at_nil_send_def main_start_def all_read_def)
  qed
  moreover have "mn_status s = PanicExit \<longrightarrow> \<not> sound_captures caps"
    using sound_never_panics [OF assms main_inv_start] by (auto simp: main_start_def)
  ultimately show ?thesis
    using main_no_infinite_run main_comes_to_rest [OF inv] rest_progress [OF inv] settled_sound [OF inv] by blast
qed

theorem captures_halt_witness:
  "(\<exists>s'. main_steps True (main_start sampleCaptures) s' \<and> (at_rest True s' \<or> mn_status s' = PanicExit)) \<and>
   at_nil_send currentPcap_made (main_start sampleCaptures) \<and>
   (\<forall>s'. \<not> main_step currentPcap_made (main_start sampleCaptures) s')"
proof -
  have "mn_status (main_start sampleCaptures) = Active" "sampleCaptures \<noteq> []"
    using sample_captures(3) by (auto simp: main_start_def)
  then show ?thesis
    using captures_halt [where made = True, OF rtranclp.rtrancl_refl, of sampleCaptures]
      captures_halt [where made = currentPcap_made, OF rtranclp.rtrancl_refl, of sampleCaptures] by blast
qed

text \<open>
  C4.  What the application has handled, at any time of any run over any captures and whatever becomes of the
  run, are deliveries of the specification, each at most once: of every channel of every capture a part of the
  deliveries of its reassembled messages, and of a consumer that is not cancelled the first ones, in order.
\<close>

theorem captures_safe:
  assumes "main_steps made (main_start caps) s" "n \<noteq> 0" "caps ! i = (name, pks)"
  shows "mset (sentFrom port n (handledOf i s)) \<subseteq>#
      mset (map (wrapAt pks port n) (deliveriesOf (refAt pks port n) (messagesAt pks port n))) \<and>
    (list_all (\<lambda>m. \<not> cancels_tag t m) (messagesAt pks port n) \<longrightarrow>
      prefix (sentTo t (sentFrom port n (handledOf i s)))
        (map (wrapAt pks port n) (deliveriesFor t (refAt pks port n) (messagesAt pks port n))))"
  using captures_at_any_time [OF main_inv_steps [OF assms(1) main_inv_start] assms(2), where port = port and i = i] by (simp add: assms(3))

theorem captures_safe_witness:
  "\<exists>s. main_steps True (main_start sampleCaptures) s \<and> settled True s \<and>
     size (mset (sentFrom samplePort 1 (handledOf 0 s))) \<le> 1"
proof -
  obtain s where s: "main_steps True (main_start sampleCaptures) s" "settled True s"
    using sound_settles [OF main_inv_start sample_captures(1)] by (auto simp: main_start_def)
  have "mset (sentFrom samplePort 1 (handledOf 0 s)) \<subseteq>#
      mset (map (wrapAt sampleCapture samplePort 1) (deliveriesOf (refAt sampleCapture samplePort 1)
        (messagesAt sampleCapture samplePort 1)))"
    using captures_safe [OF s(1) _ sample_captures(4), of 1] by simp
  then have "size (mset (sentFrom samplePort 1 (handledOf 0 s))) \<le> 1"
    by (auto dest!: size_mset_mono simp: sample_capture(2) deliveriesOf_def simp del: newDelivery.simps)
  with s show ?thesis by blast
qed

text \<open>
  C5.  A packet with the encodings of valid frames, none of which its channel panics on: the read loop
  returns \<open>io.EOF\<close>; afterwards every channel has received, of the frames with its number, exactly the
  messages that the specification of reassembly completes, dispatched in order, and waits for what the
  specification waits for.
\<close>

theorem parse_captured_frames:
  assumes "list_all frame_valid fs" "encodeFrames fs = Inr bs"
    and "\<forall>n. n \<noteq> 0 \<longrightarrow> acceptable WantMethod (framesOf n (map frame_canon fs))"
  shows "\<exists>c'. parseLoop bs (NewConnection sep cep snk) = Inr (EOF, c') \<and>
    (\<forall>n. n \<noteq> 0 \<longrightarrow>
      (case assembleAll WantMethod (framesOf n (map frame_canon fs)) of
         (ms, a) \<Rightarrow> assemblyOf (channelOf n c') = a \<and>
           dispatchAll ms (newChannel (Some \<lparr> ServerEP = sep, ClientEP = cep \<rparr>) snk n) =
             Inr (outputs (channelOf n c'))))"
proof -
  let ?c = "NewConnection sep cep snk"
  have scan: "fst (scan bs) = map frame_canon fs" "\<not> snd (scan bs)"
    using scan_frames [OF assms(1,2), of "[]"] by simp_all
  have "conn_accepts ?c (fst (scan bs))"
    using assms(3) scan_not_header [of bs] by (simp add: conn_accepts_def scan)
  then obtain c' where "parseLoop bs ?c = Inr (EOF, c')" "conn_assembled ?c (map frame_canon fs) c'"
    using parseLoop_result [of ?c bs] scan by auto
  then show ?thesis
    by (auto simp: conn_assembled_def assembled_def case_prod_unfold)
qed

theorem parse_captured_frames_witness:
  "\<exists>bs c'. encodeFrames sampleFrames = Inr bs \<and>
     parseLoop bs (NewConnection noEndpoint noEndpoint True) = Inr (EOF, c')"
proof -
  obtain bs where bs: "encodeFrames sampleFrames = Inr bs" by (rule encodeFrames_ok [OF sample_valid(1)])
  have "\<forall>n. n \<noteq> 0 \<longrightarrow> acceptable WantMethod (framesOf n (map frame_canon sampleFrames))"
    by (simp add: sample_valid sample_channel sample_acceptable)
  from parse_captured_frames [OF sample_valid(1) bs this, of noEndpoint noEndpoint True] bs
  show ?thesis by blast
qed

text \<open>
  C6.  Deliveries reach the application in order, none lost and none doubled: in every interleaving of the
  frames of a channel with the steps of its goroutines, what \<open>chMsg\<close> has received of a consumer that is
  not cancelled, followed by what is still under way, are the messages delivered to that consumer.
\<close>

theorem deliveries_in_order:
  assumes "channel_run (newChannel (Some ci) True n) fs ws ch'"
    and "list_all (\<lambda>m. \<not> cancels_tag t m) (fst (assembleAll WantMethod fs))"
  shows "sentTo t ws @ map (wrap ci n) (inTransit t ch') =
    map (wrap ci n) (deliveriesFor t \<lparr> ref_connection = Some ci, ref_sink = True, ref_id = n \<rparr>
      (fst (assembleAll WantMethod fs)))"
  using run_fifo [OF assms(1) channel_inv_new transit_inv_new, where info = ci] assms(2) by simp

theorem deliveries_in_order_witness:
  "\<exists>ch'. channel_run (newChannel (Some sampleInfo) True 1) sampleFrames [] ch' \<and>
     map (wrap sampleInfo 1) (inTransit (ascii ''t'') ch') =
       [\<lparr> wm_ConnectionInfo = sampleInfo, wm_ChannelID = 1, wm_ConsumerTag = ascii ''t'', wm_Body = [1, 2, 3] \<rparr>]"
proof -
  let ?new = "newChannel (Some sampleInfo) True 1"
  obtain ch' where "recvFrames sampleFrames ?new = Inr ch'"
    by (rule recvFrames_accepted [of ?new sampleFrames]) (simp_all add: sample_acceptable)
  then have run: "channel_run ?new sampleFrames [] ch'" by (rule recvFrames_run)
  from deliveries_in_order [OF this, of "ascii ''t''"] show ?thesis
    by (intro exI [of _ ch'] conjI run)
      (simp add: sample_assemble sentTo_def deliveriesFor_def wrap_def sampleDeliver_def
        basicDeliver_getContent_def deliveryLit_def)
qed

text \<open>
  C7.  No delivery is lost or doubled, also when consumers are cancelled: in every interleaving, what the
  application has received and what is under way are together the deliveries of the frames; the goroutines
  can always go on until nothing is under way, and when they can go no further nothing is.
\<close>

theorem deliveries_conserved:
  assumes "channel_run (newChannel (Some ci) True n) fs ws ch'"
  shows "mset ws + image_mset (wrap ci n) (allPending ch') =
      mset (map (wrap ci n) (deliveriesOf \<lparr> ref_connection = Some ci, ref_sink = True, ref_id = n \<rparr>
        (fst (assembleAll WantMethod fs))))
    \<and> (\<exists>vs ch2. channel_run ch' [] vs ch2 \<and> (\<forall>w c. \<not> channel_step ch2 w c))
    \<and> ((\<forall>w c. \<not> channel_step ch' w c) \<longrightarrow> allPending ch' = {#})"
proof -
  have r: "channel_inv ch' \<and> owned ch' \<and> refOf ch' = refOf (newChannel (Some ci) True n) \<and>
    mset ws + image_mset (wrap ci n) (allPending ch') =
      image_mset (wrap ci n) (mset (deliveriesOf (refOf (newChannel (Some ci) True n)) (fst (assembleAll WantMethod fs))))"
    using run_conserves [OF assms, where info = ci] by simp
  moreover have "\<exists>vs ch2. channel_run ch' [] vs ch2 \<and> (\<forall>w c. \<not> channel_step ch2 w c)"
    using run_to_rest [of ch'] r by blast
  moreover have "(\<forall>w c. \<not> channel_step ch' w c) \<longrightarrow> allPending ch' = {#}"
    using stuck_empty [of ch' ci] r by simp
  ultimately show ?thesis by simp
qed

theorem deliveries_conserved_witness:
  "\<exists>ch'. channel_run (newChannel (Some sampleInfo) True 1) sampleFrames [] ch' \<and> size (allPending ch') = 1"
proof -
  let ?new = "newChannel (Some sampleInfo) True 1"
  obtain ch' where "recvFrames sampleFrames ?new = Inr ch'"
    by (rule recvFrames_accepted [of ?new sampleFrames]) (simp_all add: sample_acceptable)
  then have run: "channel_run ?new sampleFrames [] ch'" by (rule recvFrames_run)
  from deliveries_conserved [OF this] have "size (image_mset (wrap sampleInfo 1) (allPending ch')) = 1"
    by (simp add: sample_assemble deliveriesOf_def)
  with run show ?thesis by auto
qed

text \<open>
  C8.  From the publisher to the report.  Take a capture that the parser reads without a panic, with no body too
  short for \<open>handleMsg\<close>, of which everything is read and sent into \<open>chMsg\<close>, by the parser and its goroutines in any
  order, and \<open>handleMsg\<close> over what was sent, with the names of captures and the packet times it happens to see.  It
  prints one thing for each message, in order.  If the deliveries to a consumer that is not cancelled, on one
  channel of one connection, carry the messages of the publisher in order, then what it prints for that consumer is
  one report for each of them, in order, with its number, its time, the endpoints of the connection and the raw body.
\<close>

theorem published_is_reported:
  assumes "parsePackets pks (NewParser True) = Inr p0" "decodable_bodies pks"
    and "sniff_run (NewParser True) (inputs pks) ws p rest" "run_over p rest"
    and "map messageOf (receipts pcap evs) = ws"
    and "n \<noteq> 0" "list_all (\<lambda>m. \<not> cancels_tag t m) (messagesAt pks port n)"
    and "map (\<lambda>m. snd (getContent m)) (filter (deliveredTo t) (messagesAt pks port n)) =
      map bodyOfCall (publications 0 nows)"
    and "\<forall>now \<in> set nows. \<exists>k. marshalOffset now = Inr k"
  shows "\<exists>out. handleMsg evs pcap [] = Inr out \<and> length out = length ws \<and>
    length (filter (fromConsumer port n t) ws) = length nows \<and>
    map snd (filter (\<lambda>(w, r). fromConsumer port n t w) (zip ws out)) =
      map Inr (reportsOf (infoOf (NewParser True) (inputs pks) port) 0
        (zip (map seenOf (filter (\<lambda>x. fromConsumer port n t (messageOf x)) (receipts pcap evs))) nows))"
proof -
  let ?rs = "receipts pcap evs" and ?P = "fromConsumer port n t" and ?h = "\<lambda>(pcap, now, w). handleMessage pcap now w"
  let ?hs = "filter (\<lambda>x. ?P (messageOf x)) ?rs" and ?ci = "infoOf (NewParser True) (inputs pks) port"
  have long: "\<forall>w \<in> set (map messageOf ?rs). 4 \<le> length (wm_Body w)"
    unfolding assms(5) using run_long [OF assms(3,2)] by blast
  obtain out where out: "handleMsg evs pcap [] = Inr out" "map Inr out = map ?h ?rs"
    using handleMsg_receipts [OF long, of "[]"] by auto
  have sent: "filter ?P ws = map (wrapAt pks port n) (deliveriesFor t (refAt pks port n) (messagesAt pks port n))"
    unfolding filter_fromConsumer using over_delivers(3) [OF assms(1,3,4,6,7)] .
  have hs: "map messageOf ?hs = filter ?P ws" unfolding assms(5) [symmetric] by (simp add: filter_map comp_def)
  have "map (\<lambda>x. wm_Body (messageOf x)) ?hs = map wm_Body (map messageOf ?hs)" by simp
  also have "\<dots> = map bodyOfCall (publications 0 nows)"
    unfolding hs sent deliveriesFor_def assms(8) [symmetric] by (simp add: wrapAt_def del: newDelivery.simps)
  finally have bodies: "map (\<lambda>x. wm_Body (messageOf x)) ?hs = map bodyOfCall (publications 0 nows)" .
  have "\<forall>w \<in> set (map messageOf ?hs). wm_ConnectionInfo w = ?ci" unfolding hs sent by (auto simp: wrapAt_def wrap_def)
  then have "\<forall>x \<in> set ?hs. wm_ConnectionInfo (messageOf x) = ?ci" by simp
  from published_reports [OF bodies this assms(9)]
  have "map ?h ?hs = map (\<lambda>r. Inr (Inr r)) (reportsOf ?ci 0 (zip (map seenOf ?hs) nows))" .
  moreover have "map Inr (map snd (filter (\<lambda>(w, r). ?P w) (zip (map messageOf ?rs) out))) = map ?h ?hs"
    by (rule outputs_of [OF out(2)])
  ultimately have "map (Inr :: _ \<Rightarrow> go_error + _) (map snd (filter (\<lambda>(w, r). ?P w) (zip (map messageOf ?rs) out))) =
      map Inr (map Inr (reportsOf ?ci 0 (zip (map seenOf ?hs) nows)))"
    by (simp add: comp_def)
  then have "map snd (filter (\<lambda>(w, r). ?P w) (zip ws out)) = map Inr (reportsOf ?ci 0 (zip (map seenOf ?hs) nows))"
    unfolding assms(5) by (rule map_injective) simp
  moreover have "length out = length ws"
    using arg_cong [OF out(2), of length] arg_cong [OF assms(5), of length] by simp
  moreover have "length (filter ?P ws) = length nows"
    using arg_cong [OF bodies, of length] arg_cong [OF hs, of length] by simp
  ultimately show ?thesis using out(1) by blast
qed

theorem published_is_reported_witness:
  "\<exists>ws p rest out r. sniff_run (NewParser True) (inputs sampleCapture) ws p rest \<and>
     handleMsg (map (NewMessage zeroBtime) ws) [] [] = Inr out \<and> Inr r \<in> set out \<and> rp_id r = 0 \<and> rp_start r = hd sampleTimes"
proof -
  let ?t = "ascii ''t''"
  obtain p0 where p0: "parsePackets sampleCapture (NewParser True) = Inr p0" using sample_capture(1) by blast
  obtain ws p rest where run: "sniff_run (NewParser True) (inputs sampleCapture) ws p rest" "run_over p rest"
    using run_can_end [OF sniff_run_nil parser_ok_new] by fastforce
  have one: "(1 :: u16) \<noteq> 0" by simp
  have received: "receipts [] (map (NewMessage zeroBtime) vs) = map (\<lambda>w. ([], zeroBtime, w)) vs" for vs
    by (induction vs) simp_all
  have msgs: "map messageOf (receipts [] (map (NewMessage zeroBtime) ws)) = ws" by (simp add: received comp_def)
  have bodies: "map (\<lambda>m. snd (getContent m)) (filter (deliveredTo ?t) (messagesAt sampleCapture samplePort 1)) =
      map bodyOfCall (publications 0 [hd sampleTimes])"
    by (simp add: sample_capture(2) basicDeliver_getContent_def sampleDeliver_def publishingLit_def bodyOfCall_def)
  have kept: "list_all (\<lambda>m. \<not> cancels_tag ?t m) (messagesAt sampleCapture samplePort 1)"
    by (simp add: sample_capture(2))
  have "\<forall>now \<in> set [hd sampleTimes]. \<exists>k. marshalOffset now = Inr k" using sample_body(1) by simp
  from published_is_reported [OF p0 sample_capture(3) run msgs one kept bodies this] obtain out where
    out: "handleMsg (map (NewMessage zeroBtime) ws) [] [] = Inr out" "length out = length ws"
      "length (filter (fromConsumer samplePort 1 ?t) ws) = 1"
      "map snd (filter (\<lambda>(w, r). fromConsumer samplePort 1 ?t w) (zip ws out)) =
        map Inr (reportsOf (infoOf (NewParser True) (inputs sampleCapture) samplePort) 0
          (zip (map seenOf (filter (\<lambda>x. fromConsumer samplePort 1 ?t (messageOf x))
            (receipts [] (map (NewMessage zeroBtime) ws)))) [hd sampleTimes]))"
    by auto
  let ?hs = "filter (\<lambda>x. fromConsumer samplePort 1 ?t (messageOf x)) (receipts [] (map (NewMessage zeroBtime) ws))"
  have "length ?hs = 1" using out(3) by (simp add: received filter_map comp_def)
  then obtain h where "?hs = [h]" by (cases ?hs) auto
  then obtain r where r: "map snd (filter (\<lambda>(w, r). fromConsumer samplePort 1 ?t w) (zip ws out)) = [Inr r]"
      "rp_id r = 0" "rp_start r = hd sampleTimes"
    using out(4) by (cases "seenOf h") auto
  have "Inr r \<in> set (map snd (filter (\<lambda>(w, r). fromConsumer samplePort 1 ?t w) (zip ws out)))" unfolding r(1) by simp
  then have "Inr r \<in> set out" by (auto dest: set_zip_rightD)
  with run(1) out(1) r(2,3) show ?thesis by (intro exI conjI)
qed

text \<open>
  C9.  The parser recovers from what it has lost.  Whatever a channel was left with in the first part of a capture,
  such as a content that was cut off or a connection that was broken and opened again from the same port: if the rest
  begins with a method on that channel, and the capture is read without a panic, then when everything is read and
  sent, what was sent into \<open>chMsg\<close> for that channel are exactly the deliveries of the first part and those that the
  rest would have given by itself; and to a consumer that neither part cancels, the former before the latter, in order.
\<close>

theorem reassembly_recovers:
  assumes "parsePackets (pks @ qs) (NewParser True) = Inr p0"
    and "sniff_run (NewParser True) (inputs (pks @ qs)) ws p rest" "run_over p rest"
    and "n \<noteq> 0" "methodFirst (framesAt (inputs qs) port n)"
  shows "mset (sentFrom port n ws) =
      mset (map (wrapAt (pks @ qs) port n) (deliveriesOf (refAt (pks @ qs) port n) (messagesAt pks port n))) +
      mset (map (wrapAt (pks @ qs) port n) (deliveriesOf (refAt (pks @ qs) port n) (messagesAt qs port n))) \<and>
    (list_all (\<lambda>m. \<not> cancels_tag t m) (messagesAt pks port n @ messagesAt qs port n) \<longrightarrow>
      sentTo t (sentFrom port n ws) =
        map (wrapAt (pks @ qs) port n) (deliveriesFor t (refAt (pks @ qs) port n) (messagesAt pks port n)) @
        map (wrapAt (pks @ qs) port n) (deliveriesFor t (refAt (pks @ qs) port n) (messagesAt qs port n)))"
  using over_delivers(2) [OF assms(1-4), where port = port] over_delivers(3) [OF assms(1-4), where port = port and t = t]
  unfolding messagesAt_append [OF assms(5), of pks] deliveriesOf_append deliveriesFor_append map_append mset_append
  by blast

theorem reassembly_recovers_witness:
  "\<exists>ws p rest. sniff_run (NewParser True) (inputs (sampleReconnect @ sampleCapture)) ws p rest \<and>
     map wm_Body (sentFrom samplePort 1 ws) = [publishBody 0 (hd sampleTimes)]"
proof -
  obtain p0 where p0: "parsePackets (sampleReconnect @ sampleCapture) (NewParser True) = Inr p0"
    using sample_resumed(1) by blast
  obtain ws p rest where run: "sniff_run (NewParser True) (inputs (sampleReconnect @ sampleCapture)) ws p rest" "run_over p rest"
    using run_can_end [OF sniff_run_nil parser_ok_new] by fastforce
  have "(1 :: u16) \<noteq> 0" by simp
  from reassembly_recovers [OF p0 run this sample_resumed(4)]
  have "image_mset wm_Body (mset (sentFrom samplePort 1 ws)) = {# publishBody 0 (hd sampleTimes) #}"
    by (simp add: sample_capture(2) sample_resumed(3) deliveriesOf_def wrapAt_def basicDeliver_getContent_def
        del: newDelivery.simps)
  then have "map wm_Body (sentFrom samplePort 1 ws) = [publishBody 0 (hd sampleTimes)]"
    unfolding mset_map [symmetric] mset_single_iff .
  with run show ?thesis by (intro exI conjI)
qed

text \<open>
  C10.  The two directions of a connection share the state machine of each channel.  Take a delivery that the
  server sends in two packets.  Alone they give the message.  With a method of the client on the same channel
  between them, say the acknowledgement of an earlier message, the reassembly gives only that method: the parser and
  its goroutines never send anything into \<open>chMsg\<close>, and in no run of \<open>main\<close>, whether or not \<open>currentPcap\<close> is made,
  does the application handle anything.  The delivery is lost without an error.
\<close>

theorem acknowledgement_loses_delivery:
  assumes "oneServer pk" "hasContent m" "hf_ChannelId h = n" "n \<noteq> 0"
    and "hf_Size h = of_nat (length (concat pieces))" "length (concat pieces) < 2 ^ 64"
    and "pieces \<noteq> [] \<longrightarrow> last pieces \<noteq> []"
    and "contentFrames n m h pieces = pre @ post" "pre \<noteq> []" "post \<noteq> []"
    and "mf_ChannelId mf = n" "mf_Method mf = Some x" "\<not> hasContent x"
    and "carries pk pre" "carries (between pk b2 t2) [MethodFrame mf]" "carries (continued pk b3 t3) post"
    and "map frame_canon pre = pre" "frame_canon (MethodFrame mf) = MethodFrame mf" "map frame_canon post = post"
  shows "messagesAt [pk, continued pk b3 t3] (ep_Port (snd (endpoints pk))) n =
      [setContent (hf_Properties h) (concat pieces) m] \<and>
    messagesAt [pk, between pk b2 t2, continued pk b3 t3] (ep_Port (snd (endpoints pk))) n = [x] \<and>
    (\<forall>ws p rest. sniff_run (NewParser True) (inputs [pk, between pk b2 t2, continued pk b3 t3]) ws p rest \<longrightarrow> ws = []) \<and>
    (\<forall>made name s. main_steps made (main_start [(name, [pk, between pk b2 t2, continued pk b3 t3])]) s \<longrightarrow> mn_handled s = [])"
proof -
  let ?pks = "[pk, between pk b2 t2, continued pk b3 t3]"
  note r = interrupted_delivery [OF assms(1-3,5-10) refl assms(11-19)]
  have "\<not> isDelivery x" using assms(13) by (induction x rule: isDelivery.induct) simp_all
  moreover have "set (messagesAt ?pks port k) \<subseteq> {x}" for port k
    using r(2) [of port k] by (cases "port = ep_Port (snd (endpoints pk)) \<and> k = n") (simp_all only: if_True if_False, simp_all)
  ultimately have none: "w \<notin> set ws" if "sniff_run (NewParser True) (inputs ?pks) ws p rest" for ws p rest w
    using run_delivers [OF that, of w] by blast
  have silent: "ws = []" if "sniff_run (NewParser True) (inputs ?pks) ws p rest" for ws p rest
    using none [OF that] by (cases ws) auto
  have "mn_handled s = []" if steps: "main_steps made (main_start [(name, ?pks)]) s" for made name s
    using no_message_handled [OF steps] silent by blast
  then show ?thesis using r silent by simp
qed

theorem acknowledgement_loses_delivery_witness:
  "\<exists>pk pk2 pk3. messagesAt [pk, pk3] samplePort 1 \<noteq> [] \<and>
     (\<forall>ws p rest. sniff_run (NewParser True) (inputs [pk, pk2, pk3]) ws p rest \<longrightarrow> ws = [])"
proof -
  let ?pre = "take 2 samplePublished" and ?post = "drop 2 samplePublished" and ?body = "publishBody 0 (hd sampleTimes)"
  note parts = sample_parts
  obtain b1 where b1: "encodeFrames ?pre = Inr b1" by (rule encodeFrames_ok [OF parts(2)])
  obtain b3 where b3: "encodeFrames ?post = Inr b3" by (rule encodeFrames_ok [OF parts(3)])
  obtain b2 where b2: "encodeFrames [MethodFrame sampleAck] = Inr b2"
    by (rule encodeFrames_ok [OF sample_ack(1)])
  let ?pk = "samplePacket\<lparr> pk_payload := Some b1 \<rparr>"
  have "oneServer ?pk" using sample_oneServer by (simp add: oneServer_def)
  moreover have "ep_Port (snd (endpoints ?pk)) = samplePort" by (simp add: samplePort_def endpoints_def)
  moreover have "carries ?pk ?pre" "carries (between ?pk b2 zeroBtime) [MethodFrame sampleAck]"
    "carries (continued ?pk b3 zeroBtime) ?post"
    using parts(2,3) b1 b2 b3 sample_ack(1) by (simp_all add: carries_def between_def continued_def)
  ultimately have "messagesAt [?pk, continued ?pk b3 zeroBtime] samplePort 1 =
      [setContent (hf_Properties (sampleHeader\<lparr> hf_Size := 19 \<rparr>)) (concat [?body]) (BasicMsg (BasicDeliver sampleDeliver))] \<and>
    messagesAt [?pk, between ?pk b2 zeroBtime, continued ?pk b3 zeroBtime] samplePort 1 =
      [BasicMsg (BasicAck \<lparr> basicAck_DeliveryTag = 5, basicAck_Multiple = True \<rparr>)] \<and>
    (\<forall>ws p rest. sniff_run (NewParser True) (inputs [?pk, between ?pk b2 zeroBtime, continued ?pk b3 zeroBtime]) ws p rest \<longrightarrow>
      ws = [])"
    (is "?alone \<and> ?lost \<and> ?nothing")
    using acknowledgement_loses_delivery [of ?pk "BasicMsg (BasicDeliver sampleDeliver)" "sampleHeader\<lparr> hf_Size := 19 \<rparr>" 1
        "[?body]" ?pre ?post sampleAck]
      parts sample_ack sample_body(2)
    by (simp add: sampleAck_def sampleHeader_def)
  then have "messagesAt [?pk, continued ?pk b3 zeroBtime] samplePort 1 \<noteq> []" "?nothing" by simp_all
  then show ?thesis by blast
qed

text \<open>
  C11.  The capture and the packet time that are printed with a message need not be its own, even if \<open>currentPcap\<close> is
  made (as it is not, none is printed at all: the sniffer does not take a step): all sound captures then have a run in
  which every message of every capture is handled, and everything that is printed bears the name of the last
  capture and the time of its last packet, because they can all be read before any message reaches the application, and
  the two are kept in one place each.
\<close>

theorem reported_as_last_capture:
  assumes "sound_captures (caps @ [(name, pks @ [pk])])"
  shows "if made then
      \<exists>s. main_steps made (main_start (caps @ [(name, pks @ [pk])])) s \<and> settled made s \<and>
        all_handled (caps @ [(name, pks @ [pk])]) s \<and> length (mn_out s) = length (mn_handled s) \<and>
        (\<forall>r. Inr r \<in> set (mn_out s) \<longrightarrow> rp_pcap r = name \<and> rp_packetTime r = pk_time pk)
    else \<forall>s. \<not> main_step made (main_start (caps @ [(name, pks @ [pk])])) s"
proof (cases made)
  case True
  obtain s where s: "main_steps True (main_start (caps @ [(name, pks @ [pk])])) s" "settled True s"
    "\<forall>r. Inr r \<in> set (mn_out s) \<longrightarrow> rp_pcap r = name \<and> rp_packetTime r = pk_time pk"
    using reports_late [OF assms] by blast
  have inv: "main_inv (caps @ [(name, pks @ [pk])]) s" using main_inv_steps [OF s(1) main_inv_start] .
  then have "map Inr (mn_out s) = map (\<lambda>(i, pcap, now, w). handleMessage pcap now w) (mn_handled s)"
    by (simp add: main_inv_def)
  from arg_cong [OF this, of length] have "length (mn_out s) = length (mn_handled s)" by simp
  then show ?thesis using s settled_all_handled [OF inv s(2)] True by auto
next
  case False
  then show ?thesis by (auto simp: main_start_def elim: main_step.cases)
qed

theorem reported_as_last_capture_witness:
  "\<exists>s r. main_steps True (main_start sampleCaptures) s \<and> sampleCaptures ! 0 = ([97], sampleCapture) \<and>
     Inr r \<in> set (mn_out s) \<and> rp_raw r = publishBody 0 (hd sampleTimes) \<and> rp_pcap r = [98]"
proof -
  from reported_as_last_capture [where made = True, OF sample_captures(1) [unfolded sample_captures(2)], folded sample_captures(2)]
  obtain s where s: "main_steps True (main_start sampleCaptures) s" "settled True s" "all_handled sampleCaptures s"
    "\<forall>r. Inr r \<in> set (mn_out s) \<longrightarrow> rp_pcap r = [98] \<and> rp_packetTime r = hd sampleTimes" by auto
  have "mset (sentFrom samplePort 1 (handledOf 0 s)) = mset (map (wrapAt sampleCapture samplePort 1)
      (deliveriesOf (refAt sampleCapture samplePort 1) (messagesAt sampleCapture samplePort 1)))"
    using s(3) by (simp add: all_handled_def sample_captures(3,4))
  from sample_capture_bodies [OF this] obtain w where
    w: "sentFrom samplePort 1 (handledOf 0 s) = [w]" "wm_Body w = publishBody 0 (hd sampleTimes)"
    by (auto simp: map_eq_Cons_conv)
  have "w \<in> set (sentFrom samplePort 1 (handledOf 0 s))" by (simp add: w(1))
  then have "w \<in> set (handledOf 0 s)" by (simp add: sentFrom_def)
  then obtain pcap now where h: "(0, pcap, now, w) \<in> set (mn_handled s)" by (auto simp: handledOf_def)
  have "map Inr (mn_out s) = map (\<lambda>(i, pcap, now, w). handleMessage pcap now w) (mn_handled s)"
    using main_inv_steps [OF s(1) main_inv_start] by (simp add: main_inv_def)
  moreover obtain r where r: "handleMessage pcap now w = Inr (Inr r)" "rp_raw r = publishBody 0 (hd sampleTimes)"
    using handleMessage_published [OF sample_body(1) w(2) refl, of pcap now] by auto
  ultimately have "Inr (Inr r) \<in> set (map Inr (mn_out s) :: (go_error + time_error + report) list)" using h by force
  then have "Inr r \<in> set (mn_out s)" by auto
  with s(1,4) r(2) sample_captures(4) show ?thesis by (intro exI conjI) auto
qed

section \<open>Reassembly\<close>

text \<open>
  C12.  The state machine of a channel implements the specification of reassembly: it panics on the frames
  that the specification refuses; receiving any other gives the specification's next state, keeps the
  invariant, and changes everything else exactly as dispatching the message the frame completes, or not
  at all.
\<close>

theorem channel_refines_assembly:
  assumes "channel_inv ch" "\<And>m. fst (assemble (assemblyOf ch) f) = Some m \<Longrightarrow> comesBack ch m"
  shows "if refuses (assemblyOf ch) f then recvFrame f ch = Inl Panic
    else \<exists>ch'. recvFrame f ch = Inr ch' \<and> channel_inv ch' \<and> confirming ch' = confirming ch \<and>
      assemblyOf ch' = snd (assemble (assemblyOf ch) f) \<and>
      dispatchOption (fst (assemble (assemblyOf ch) f)) (outputs ch) = Inr (outputs ch')"
  using recvFrame_refused [OF assms(1)] recvFrame_implements [OF assms(1) _ assms(2)]
  by (simp add: implements_def)

theorem channel_refines_assembly_witness:
  "(\<exists>ch'. recvFrame (hd sampleFrames) (newChannel None True 1) = Inr ch' \<and>
      assemblyOf ch' = WantHeader (BasicMsg (BasicDeliver sampleDeliver))) \<and>
   recvFrame (HeartbeatFrame \<lparr> hb_ChannelId = 1 \<rparr>) (newChannel None True 1) = Inl Panic"
  using channel_refines_assembly [of "newChannel None True 1" "hd sampleFrames"]
    channel_refines_assembly [of "newChannel None True 1" "HeartbeatFrame \<lparr> hb_ChannelId = 1 \<rparr>"]
  by (auto simp: sampleFrames_def contentFrames_def)

section \<open>Round trips\<close>

text \<open>
  C13.  A valid frame written into a buffer is read back, whatever follows it: as itself, up to what the
  wire has no room for (\<open>frame_canon\<close>).
\<close>

theorem frame_round_trip:
  assumes "frame_valid f"
  shows "\<exists>bs. WriteFrame bufferWrite None out f = (None, out @ bs) \<and>
    (\<forall>rest. ReadFrame (bs @ rest) = (Inr (frame_canon f), rest))"
  using decodes_frame [OF assms] by (auto simp: decodes_def WriteFrame_def buffer_frame_write)

theorem frame_round_trip_witness:
  "frame_valid sampleAckFrame \<and>
    (\<exists>bs. WriteFrame bufferWrite None [9] sampleAckFrame = (None, [9] @ bs) \<and>
      (\<forall>rest. ReadFrame (bs @ rest) = (Inr sampleAckFrame, rest)))"
proof -
  have v: "frame_valid sampleAckFrame" by (simp add: sampleAckFrame_def basicAck_valid_def)
  with frame_round_trip [OF v, of "[9]"] show ?thesis by simp
qed

text \<open>
  C14.  The arguments of each of the 62 methods are read back by the switch of \<open>parseMethodFrame\<close> on its
  class and method number, for every message that is valid.
\<close>

theorem method_round_trip:
  assumes "message_valid m"
  shows "\<exists>bs. message_write m = Inr bs \<and>
    (\<forall>rest. parseMethod (fst (message_id m)) (snd (message_id m)) (bs @ rest) = (Inr (message_canon m), rest))"
  using decodes_method [OF assms] by (auto simp: decodes_def)

theorem method_round_trip_witness:
  "message_canon sampleDeclare \<noteq> sampleDeclare \<and>
    (\<exists>bs. message_write sampleDeclare = Inr bs \<and>
      parseMethod 50 10 (bs @ [1]) = (Inr (message_canon sampleDeclare), [1]))"
proof -
  have "message_valid sampleDeclare"
    by (simp add: sampleDeclare_def queueDeclare_valid_def wfTable_def fits_def writeShortstr_bytes)
  from method_round_trip [OF this] show ?thesis
    by (auto simp: sampleDeclare_def queueDeclare_canon_def queue_method_ids)
qed

text \<open>
  C15.  The property flags of a content header and its property list agree: with the mask computed from
  the properties, what is written is what \<open>parseHeaderFrame\<close> reads.
\<close>

theorem header_round_trip:
  assumes "validProperties (hf_Properties f)"
  shows "\<exists>bs. headerFrame_payload f = Inr bs \<and>
    (\<forall>rest. parseHeaderFrame (hf_ChannelId f) sz (bs @ rest) =
       (Inr (f\<lparr> hf_Properties := canonProperties (hf_Properties f) \<rparr>), rest))"
  using decodes_headerFrame [OF assms] by (auto simp: decodes_def)

theorem header_round_trip_witness:
  "\<exists>bs. headerFrame_payload (sampleHeader\<lparr> hf_Properties := sampleProperties \<rparr>) = Inr bs \<and>
    parseHeaderFrame 1 99 bs = (Inr (sampleHeader\<lparr> hf_Properties := sampleProperties \<rparr>), [])"
proof -
  have "validProperties sampleProperties"
    by (simp add: sampleProperties_def noProperties_def validProperties_def)
  moreover have "canonProperties sampleProperties = sampleProperties"
    by (simp add: sampleProperties_def noProperties_def canonProperties_def canonTime_def)
       (simp add: timeUnix_def)
  ultimately show ?thesis
    using header_round_trip [of "sampleHeader\<lparr> hf_Properties := sampleProperties \<rparr>" 99]
    by (auto simp: sampleHeader_def dest: spec [of _ "[]"])
qed

text \<open>
  C16.  A table whose keys fit a short string and whose nested tables fit a long string is read back entry
  by entry, in order, with nested tables and arrays.
\<close>

theorem table_round_trip:
  assumes "wfTable t"
  shows "\<exists>bs. writeTable t = Inr bs \<and> (\<forall>rest. readTable (bs @ rest) = (Inr (canonEntries t), rest))"
  using decodes_table [OF assms] by (auto simp: decodes_def)

theorem table_round_trip_witness:
  "\<exists>bs. writeTable [(ascii ''a'', FTable [(ascii ''b'', FArray [FBool True, FNil])])] = Inr bs \<and>
    readTable bs = (Inr [(ascii ''a'', FTable [(ascii ''b'', FArray [FBool True, FNil])])], [])"
proof -
  have "wfTable [(ascii ''a'', FTable [(ascii ''b'', FArray [FBool True, FNil])])]"
    by (simp add: wfTable_def fits_def writeShortstr_bytes writeLongstr_def writeU32_def Let_def)
  from table_round_trip [OF this] show ?thesis by (auto dest: spec [of _ "[]"])
qed

section \<open>The read loop on any input\<close>

text \<open>
  C17.  \<open>Parse\<close> on any bytes: with \<open>scan\<close> the frames that can be read from them, it returns \<open>io.EOF\<close> with
  every channel having assembled its frames, or the program panics; it does the latter exactly if reading
  a field panics or a frame is one that its channel panics on.  It never hangs.
\<close>

theorem parse_ends:
  assumes "conn_inv c"
  shows "if conn_accepts c (fst (scan s)) \<and> \<not> snd (scan s)
    then \<exists>c'. Connection_Parse s c = Inr (EOF, c') \<and> conn_assembled c (fst (scan s)) c' \<and> conn_inv c'
    else Connection_Parse s c = Inl Panic"
  using parseLoop_result [OF assms, of s] conn_assembled_inv [OF _ assms]
  by (auto simp: Connection_Parse_def split: if_splits)

theorem parse_ends_witness:
  "\<exists>c'. Connection_Parse [1, 2, 3] (NewConnection noEndpoint noEndpoint True) = Inr (EOF, c')"
proof -
  have "scan [1, 2, 3] = ([], False)"
    by (subst scan.simps) (simp add: ReadFrame_def readFull_def rbind_def)
  then show ?thesis
    using parse_ends [of "NewConnection noEndpoint noEndpoint True" "[1, 2, 3]"]
    by (auto simp: conn_accepts_def framesOf_def)
qed

text \<open>
  C18.  A frame that is cut off at the end of a packet is lost without a trace: the packet is parsed as if
  it ended with the last whole frame.
\<close>

theorem truncated_frame_lost:
  assumes "list_all frame_valid fs" "encodeFrames fs = Inr bs"
    and "frame_valid f" "frameEncoding f = Inr b" "strict_prefix p b"
  shows "Parse (bs @ p) sep cep ps = Parse bs sep cep ps"
proof -
  have "scan (bs @ p) = scan bs"
    using scan_frames [OF assms(1,2), of p] scan_frames [OF assms(1,2), of "[]"] scan_cut [OF assms(3-5)]
    by simp
  then show ?thesis by (simp only: Parse_connection parseLoop_scan)
qed

theorem truncated_frame_lost_witness:
  "\<exists>b. frameEncoding sampleAckFrame = Inr b \<and> b \<noteq> [] \<and>
     Parse (butlast b) noEndpoint noEndpoint (NewParser True) = Parse [] noEndpoint noEndpoint (NewParser True)"
proof -
  have v: "frame_valid sampleAckFrame" by (simp add: sampleAckFrame_def basicAck_valid_def)
  obtain b where b: "frameEncoding sampleAckFrame = Inr b"
    using decodes_frame [OF v] by (auto simp: decodes_def)
  have "b \<noteq> []"
  proof
    assume "b = []"
    then have "ReadFrame [] = (Inr (frame_canon sampleAckFrame), [])"
      using decodes_frame [OF v] b by (auto simp: decodes_def dest: spec [of _ "[]"])
    then show False by simp
  qed
  moreover from this have "strict_prefix (butlast b) b"
    by (metis append_butlast_last_id strict_prefixI' prefixI prefix_order.less_le snoc_eq_iff_butlast)
  ultimately show ?thesis
    using truncated_frame_lost [of "[]" "[]" sampleAckFrame b] v b by auto
qed

text \<open>
  C19.  How whole frames are divided into packets does not matter: a packet of whole frames followed by
  another packet of the same client port is parsed like both in one packet.
\<close>

theorem packets_concatenate:
  assumes "list_all frame_valid fs" "encodeFrames fs = Inr bs" "ep_Port cep' = ep_Port cep"
  shows "(case Parse bs sep cep p of Inl e \<Rightarrow> Inl e | Inr (_, p1) \<Rightarrow> Parse s sep' cep' p1) =
    Parse (bs @ s) sep cep p"
  using Parse_append [OF assms] by simp

theorem packets_concatenate_witness:
  "\<exists>bs. encodeFrames sampleFrames = Inr bs \<and>
     (case Parse bs noEndpoint noEndpoint (NewParser True) of
        Inl e \<Rightarrow> Inl e | Inr (_, p1) \<Rightarrow> Parse [1] noEndpoint noEndpoint p1) =
     Parse (bs @ [1]) noEndpoint noEndpoint (NewParser True)"
proof -
  obtain bs where bs: "encodeFrames sampleFrames = Inr bs" by (rule encodeFrames_ok [OF sample_valid(1)])
  from packets_concatenate [OF sample_valid(1) bs refl] bs show ?thesis by blast
qed

text \<open>
  C20.  What is on the wire determines the frames: if two sequences of valid frames have encodings of which
  one begins with the other, then so do the sequences, up to what the wire has no room for.
\<close>

theorem frames_uniquely_decodable:
  assumes "list_all frame_valid fs" "encodeFrames fs = Inr bs"
    and "list_all frame_valid gs" "encodeFrames gs = Inr cs" "cs = bs @ rest"
  shows "prefix (map frame_canon fs) (map frame_canon gs) \<and>
    (rest = [] \<longrightarrow> map frame_canon fs = map frame_canon gs)"
proof -
  have "map frame_canon gs = map frame_canon fs @ fst (scan rest)"
    using scan_frames [OF assms(1,2), of rest] scan_frames [OF assms(3,4), of "[]"] assms(5) by simp
  then show ?thesis by auto
qed

theorem frames_uniquely_decodable_witness:
  "\<exists>bs. encodeFrames sampleFrames = Inr bs \<and> prefix (map frame_canon sampleFrames) sampleFrames"
proof -
  obtain bs where bs: "encodeFrames sampleFrames = Inr bs" by (rule encodeFrames_ok [OF sample_valid(1)])
  from frames_uniquely_decodable [OF sample_valid(1) bs sample_valid(1) bs, of "[]"] bs show ?thesis
    by (simp add: sample_valid)
qed

text \<open>
  C21.  What the parser makes of a packet of any bytes is well typed, and can be written and read again: in the
  frames found in it strings fit their length octets, no table has a key twice, class and method number are those
  of the method, and nothing is out of canonical form but \<open>reserved1\<close>, which no writer sends; and they have an
  encoding, from which the same frames are parsed, short of \<open>reserved1\<close>.
\<close>

theorem packet_reencoded:
  "list_all frame_valid (fst (scan s)) \<and>
   map frame_canon (fst (scan s)) = map withoutReserved (fst (scan s)) \<and>
   (\<exists>bs. encodeFrames (fst (scan s)) = Inr bs \<and> scan bs = (map withoutReserved (fst (scan s)), False))"
proof -
  note v = scan_valid [of s]
  obtain bs where "encodeFrames (fst (scan s)) = Inr bs" by (rule encodeFrames_ok [OF conjunct1 [OF v]])
  with scan_frames [OF conjunct1 [OF v] this, of "[]"] v show ?thesis by simp
qed

section \<open>Channels, confirms and consumers\<close>

text \<open>
  C22.  Channels do not disturb each other: what frames do to the channel \<open>n\<close> of a connection is what the
  frames of channel \<open>n\<close> alone do to it.
\<close>

theorem channels_isolated:
  assumes "demuxAll fs c = Inr c'" "n \<noteq> 0"
  shows "recvFrames (framesOf n fs) (channelOf n c) = Inr (channelOf n c')"
  using demuxAll_channel [OF assms] by simp

theorem channels_isolated_witness:
  "\<exists>c'. demuxAll [sampleAckFrame] (NewConnection noEndpoint noEndpoint True) = Inr c' \<and>
     channelOf 3 c' = newChannel (Some sampleInfo) True 3"
proof -
  let ?c = "NewConnection noEndpoint noEndpoint True"
  have "\<exists>c'. demuxAll [sampleAckFrame] ?c = Inr c'"
    by (simp add: sampleAckFrame_def demux_def dispatchN_def dispatchClosed_def Let_def NewConnection_def
        recvFrame_def newChannel_def dispatchConfirm_def)
  then obtain c' where c': "demuxAll [sampleAckFrame] ?c = Inr c'" by blast
  with channels_isolated [OF c', of 3] show ?thesis
    by (auto simp: framesOf_def sampleAckFrame_def channelOf_def NewConnection_def sampleInfo_def)
qed

text \<open>
  C23.  Publisher confirms meet their specification: take any sequence of publishings and confirmations, single
  ones in any order and ones for all up to a tag, in which nothing is confirmed that is not published or already
  is, and no publishing that is confirmed but not yet heard of is confirmed again with another flag.  Then
  every call returns, and the listener has heard of each publishing before the first that is not confirmed,
  once, in order, with its flag, and of no other.
\<close>

theorem confirms_refine:
  assumes "spec_run xs (0, Map.empty) = Some (n, g)"
  shows "\<exists>c. confirm_run xs (Listen newConfirms) = Some c \<and> published c = of_nat n \<and>
    listeners c = [map (\<lambda>i. \<lparr> cf_DeliveryTag = of_nat i, cf_Ack = the (g i) \<rparr>)
      (takeWhile (\<lambda>i. g i \<noteq> None) [1..<Suc n])]"
proof -
  obtain c where c: "confirm_run xs (Listen newConfirms) = Some c" "confirms_refine_rel (n, g) c"
    using refine_run [OF refine_start assms] by blast
  moreover from c(2) have "published c = of_nat n" by simp
  ultimately show ?thesis
    using refine_heard [OF c(2)] by (auto simp: confirmationOf_def [abs_def] simp del: upt_Suc)
qed

theorem confirms_refine_witness:
  "\<exists>c. confirm_run sampleConfirms (Listen newConfirms) = Some c \<and>
     listeners c = [[\<lparr> cf_DeliveryTag = 1, cf_Ack = True \<rparr>, \<lparr> cf_DeliveryTag = 2, cf_Ack = True \<rparr>,
       \<lparr> cf_DeliveryTag = 3, cf_Ack = False \<rparr>]]"
  using confirms_refine [OF sample_confirms] by (auto simp: upt_rec)

text \<open>
  C24.  Whatever is called, and in whatever order confirmations arrive: a listener hears consecutive delivery
  tags, the last of them just before the tag expected next.
\<close>

theorem confirms_consecutive:
  assumes "confirm_run xs newConfirms = Some c" "l \<in> set (listeners c)"
  shows "map cf_DeliveryTag l = map (\<lambda>i. expecting c - of_nat (length l - i)) [0..<length l]"
  using confirm_run_inv [OF assms(1) confirms_inv_new] assms(2)
  by (auto simp: confirms_inv_def consecutive_def)

theorem confirms_consecutive_witness:
  "\<exists>c l. confirm_run [DoListen, DoPublish, DoOne \<lparr> cf_DeliveryTag = 1, cf_Ack = True \<rparr>] newConfirms = Some c \<and>
     l \<in> set (listeners c) \<and> l \<noteq> [] \<and> map cf_DeliveryTag l = [expecting c - 1]"
proof -
  let ?xs = "[DoListen, DoPublish, DoOne \<lparr> cf_DeliveryTag = 1, cf_Ack = True \<rparr>]"
  obtain c where c: "confirm_run ?xs newConfirms = Some c"
    "listeners c = [[\<lparr> cf_DeliveryTag = 1, cf_Ack = True \<rparr>]]"
    by (simp add: newConfirms_def Listen_def Publish_def One_def confirm_def resequence.simps)
  show ?thesis
    using confirms_consecutive [OF c(1), of "[\<lparr> cf_DeliveryTag = 1, cf_Ack = True \<rparr>]"] c
    by (intro exI [of _ c] exI [of _ "[\<lparr> cf_DeliveryTag = 1, cf_Ack = True \<rparr>]"]) simp
qed

text \<open>
  C25.  \<open>Multiple\<close> returns for every tag but the largest one, where its loop never ends, because the counter
  wraps around to 0 before it can exceed that tag.  When it returns, it has confirmed with its flag every tag from
  the expected one to its own, in order, and then continued as \<open>resequence\<close> does.
\<close>

theorem multiple_confirms_all:
  assumes "expecting c \<le> cf_DeliveryTag cf"
  shows "if cf_DeliveryTag cf = - 1 then Multiple cf c = None
    else \<exists>c1. Multiple cf c = Some (resequence c1) \<and> expecting c1 = cf_DeliveryTag cf + 1 \<and>
      listeners c1 = map (\<lambda>l. l @ map (\<lambda>i. \<lparr> cf_DeliveryTag = expecting c + of_nat i, cf_Ack = cf_Ack cf \<rparr>)
        [0..<Suc (unat (cf_DeliveryTag cf - expecting c))]) (listeners c)"
proof (cases "cf_DeliveryTag cf = - 1")
  case True
  then show ?thesis using multipleLoop_diverges [of cf c] by (simp add: Multiple_def)
next
  case False
  have le: "unat (expecting c) \<le> unat (cf_DeliveryTag cf)" using assms by (simp add: word_le_nat_alt)
  have n: "Suc (unat (cf_DeliveryTag cf)) - unat (expecting c) = Suc (unat (cf_DeliveryTag cf - expecting c))"
    using le by (simp add: unat_sub [OF assms] Suc_diff_le)
  have "expecting c + of_nat (Suc (unat (cf_DeliveryTag cf - expecting c))) = cf_DeliveryTag cf + 1"
    by simp
  then show ?thesis
    using multipleLoop_returns [OF False n [symmetric]] False
    by (auto simp: Multiple_def confirmUpTo_def)
qed

theorem multiple_confirms_all_witness:
  "\<exists>c1. Multiple \<lparr> cf_DeliveryTag = 2, cf_Ack = True \<rparr> (Listen newConfirms) = Some (resequence c1) \<and>
     expecting c1 = 3"
  using multiple_confirms_all [of "Listen newConfirms" "\<lparr> cf_DeliveryTag = 2, cf_Ack = True \<rparr>"]
  by (auto simp: newConfirms_def Listen_def)

text \<open>
  C26.  \<open>Multiple\<close> overwrites what \<open>One\<close> has filed: when the first publishing is not confirmed, a later one is
  rejected by the broker, and then all up to a tag are accepted, the listener hears that the rejected one has
  been accepted, and never hears of the rejection.
\<close>

theorem nack_overwritten:
  assumes "1 < i" "i \<le> t" "t \<noteq> - 1"
  shows "\<exists>c l. confirm_run (replicate n DoPublish @ [DoOne \<lparr> cf_DeliveryTag = i, cf_Ack = False \<rparr>,
        DoMultiple \<lparr> cf_DeliveryTag = t, cf_Ack = True \<rparr>]) (Listen newConfirms) = Some c \<and> listeners c = [l] \<and>
    \<lparr> cf_DeliveryTag = i, cf_Ack = True \<rparr> \<in> set l \<and> \<lparr> cf_DeliveryTag = i, cf_Ack = False \<rparr> \<notin> set l"
  using nack_lost [OF assms] by blast

theorem nack_overwritten_witness:
  "\<exists>c l. confirm_run [DoPublish, DoPublish, DoOne \<lparr> cf_DeliveryTag = 2, cf_Ack = False \<rparr>,
        DoMultiple \<lparr> cf_DeliveryTag = 2, cf_Ack = True \<rparr>] (Listen newConfirms) = Some c \<and> listeners c = [l] \<and>
    \<lparr> cf_DeliveryTag = 2, cf_Ack = True \<rparr> \<in> set l"
proof -
  have "replicate 2 DoPublish = [DoPublish, DoPublish]" by (simp add: numeral_2_eq_2)
  moreover have "(1 :: u64) < 2" "(2 :: u64) \<noteq> - 1" by simp_all
  ultimately show ?thesis using nack_overwritten [of 2 2 2] by (metis append_Cons append_Nil order_refl)
qed

text \<open>
  C27.  While \<open>close\<close> has not been called, the consumers are a registry that maps tags to queues: \<open>add\<close>, \<open>cancel\<close> and
  \<open>send\<close> never panic and never block, and do what the registry does, the queue of a tag that is cancelled or
  replaced being kept to be handed out; the goroutines hand out a delivery exactly when it is the first of some
  queue, with the same outcome, and change nothing else; and so the sequences of calls, results and deliveries
  handed out that can be seen of the consumers are exactly those of the registry.
\<close>

theorem consumers_refine:
  assumes "consumers_reach c"
  shows "(\<exists>c'. add tag c = Inr c' \<and> registry c' = reg_add tag (registry c)) \<and>
    (\<exists>b c'. cancel tag c = Inr (b, c') \<and> (b, registry c') = reg_cancel tag (registry c)) \<and>
    (\<exists>b c'. sendTo tag d c = Found b c' \<and> (b, registry c') = reg_send tag d (registry c)) \<and>
    (\<forall>c'. consumers_step c Internal c' \<longrightarrow> registry c' = registry c) \<and>
    (\<forall>r. reg_serve (registry c) d r \<longleftrightarrow> (\<exists>c'. consumers_step c (Sent d) c' \<and> registry c' = r)) \<and>
    ((\<exists>ls c'. steps consumers_call c ls c' \<and> filter (\<lambda>l. l \<noteq> Silent) ls = vs) \<longleftrightarrow> (\<exists>r. steps reg_call (registry c) vs r))"
proof (intro conjI)
  have inv: "consumers_inv c" "\<not> closed c" using consumers_reach_inv [OF assms] by simp_all
  show "\<exists>c'. add tag c = Inr c' \<and> registry c' = reg_add tag (registry c)"
    using add_inv [OF inv(1), of tag] registry_add [OF inv(1)] by blast
  show "\<exists>b c'. cancel tag c = Inr (b, c') \<and> (b, registry c') = reg_cancel tag (registry c)"
    using cancel_inv [OF inv(1), of tag] registry_cancel [OF inv(1)] by blast
  show "\<exists>b c'. sendTo tag d c = Found b c' \<and> (b, registry c') = reg_send tag d (registry c)"
    using sendTo_returns [OF inv] registry_send [OF inv(1)] by blast
  show "\<forall>c'. consumers_step c Internal c' \<longrightarrow> registry c' = registry c"
    using registry_internal [OF inv(1)] by blast
  show "\<forall>r. reg_serve (registry c) d r \<longleftrightarrow> (\<exists>c'. consumers_step c (Sent d) c' \<and> registry c' = r)"
    using registry_serves [OF inv(1)] registry_can_serve [OF inv] by blast
  show "(\<exists>ls c'. steps consumers_call c ls c' \<and> filter (\<lambda>l. l \<noteq> Silent) ls = vs) \<longleftrightarrow> (\<exists>r. steps reg_call (registry c) vs r)"
    by (rule consuming.same_traces) (simp add: represents_def assms)
qed

theorem consumers_refine_witness:
  "\<exists>c1 c2 c3. add [1] makeConsumers = Inr c1 \<and> sendTo [1] (7 :: nat) c1 = Found True c2 \<and>
     consumers_step c2 (Sent 7) c3 \<and> registry c3 = (Map.empty([1] \<mapsto> []), {#})"
proof -
  have make: "registry makeConsumers = (Map.empty :: gostring \<rightharpoonup> nat list, {#})" by (rule registry_make)
  from consumers_refine [OF reach_make, of "[1]" 7] obtain c1 :: "nat consumers"
    where c1: "add [1] makeConsumers = Inr c1" "registry c1 = reg_add [1] (registry makeConsumers)" by blast
  then have reg1: "registry c1 = (Map.empty([1] \<mapsto> []), {#})" by (simp add: make)
  have r1: "consumers_reach c1" using reach_add [OF reach_make c1(1)] .
  from consumers_refine [OF r1, of "[1]" 7] obtain b c2
    where "sendTo [1] 7 c1 = Found b c2" "(b, registry c2) = reg_send [1] 7 (registry c1)" by blast
  then have c2: "sendTo [1] 7 c1 = Found True c2" "registry c2 = (Map.empty([1] \<mapsto> [7]), {#})" by (simp_all add: reg1)
  have "reg_serve (registry c2) 7 (Map.empty([1] \<mapsto> []), {#})"
    using serve_tag [of "Map.empty([1] \<mapsto> [7])" "[1]" 7 "[]" "{#}"] by (simp add: c2(2))
  then obtain c3 where "consumers_step c2 (Sent 7) c3" "registry c3 = (Map.empty([1] \<mapsto> []), {#})"
    using consumers_refine [OF reach_send [OF r1 c2(1)], of "[1]" 7] by blast
  with c1(1) c2(1) show ?thesis by blast
qed

text \<open>
  C28.  A \<open>buffer\<close> goroutine is a queue without loss: in every run it has sent, in order, what it received,
  short of what it still holds; and if \<open>subs.closed\<close> stays open it returns only with nothing left.
\<close>

theorem buffer_keeps_order:
  assumes "buffer_run cl newBuffer evs b"
  shows "sentOf evs @ queue b = receivedOf evs \<and> (pc b = Returned \<and> \<not> cl \<longrightarrow> sentOf evs = receivedOf evs)"
proof -
  have fifo: "sentOf evs @ queue b = receivedOf evs"
    using buffer_run_fifo [OF assms] by (simp add: newBuffer_def)
  have "queue b = []" if "pc b = Returned" "\<not> cl"
  proof (rule buffer_run_drained [OF _ buffer_inv_new])
    show "buffer_run False newBuffer evs b" using assms that(2) by simp
  qed (use that in \<open>simp_all add: newBuffer_def\<close>)
  then show ?thesis using fifo by auto
qed

theorem buffer_keeps_order_witness:
  "\<exists>b. buffer_run False newBuffer [Received (1 :: nat), Received 2, Sent 1] b \<and> queue b = [2]"
proof -
  let ?b1 = "enqueue (1 :: nat) newBuffer"
  let ?b2 = "enqueue 2 ?b1"
  let ?b3 = "?b2\<lparr> queue := [2], pc := SelectLoop \<rparr>"
  have "buffer_step False newBuffer (Received 1) ?b1"
    by (rule range_receive) (simp_all add: newBuffer_def)
  moreover have "buffer_step False ?b1 (Received 2) ?b2"
    by (rule select_receive) (simp_all add: newBuffer_def enqueue_def)
  moreover have "buffer_step False ?b2 (Sent 1) ?b3"
    using select_send [of ?b2 1 "[2]" False] by (simp add: newBuffer_def enqueue_def)
  ultimately have r: "buffer_run False newBuffer [Received 1, Received 2, Sent 1] ?b3"
    by (blast intro: run_step run_nil)
  show ?thesis using buffer_keeps_order [OF r] r by (intro exI [of _ ?b3]) simp
qed

text \<open>
  C29.  \<open>close\<close>, called once, does not panic, deletes every tag and tells every goroutine to end; and \<open>subs.Wait()\<close>
  returns even if nobody receives from the goroutines any more.  For in every state they can come to after
  that, each further step of one lowers a measure, and while one has not returned, one can go on without a
  receiver, so that steps of that kind alone lead to the return of all.
\<close>

theorem close_ends:
  assumes "consumers_reach c" "set tags = dom (chans c)"
  shows "\<exists>c'. closeConsumers tags c = Inr c' \<and> closed c' \<and> chans c' = Map.empty \<and> all_closing c' \<and> consumers_inv c' \<and>
    (\<forall>c''. (\<lambda>a b. \<exists>ev. consumers_step a ev b)\<^sup>*\<^sup>* c' c'' \<longrightarrow>
       (\<forall>ev c3. consumers_step c'' ev c3 \<longrightarrow> consumers_measure c3 < consumers_measure c'') \<and>
       (waitDone c'' \<or> (\<exists>c3. consumers_step c'' Internal c3)) \<and>
       (\<exists>c3. (\<lambda>a b. consumers_step a Internal b)\<^sup>*\<^sup>* c'' c3 \<and> waitDone c3))"
proof -
  have inv: "consumers_inv c" "\<not> closed c" using consumers_reach_inv [OF assms(1)] by simp_all
  from all_closing_close [OF inv assms(2)] obtain c' where
    c': "closeConsumers tags c = Inr c'" "consumers_inv c'" "all_closing c'" "closed c'" "chans c' = Map.empty" by blast
  have rest: "(\<forall>ev c3. consumers_step c'' ev c3 \<longrightarrow> consumers_measure c3 < consumers_measure c'') \<and>
      (waitDone c'' \<or> (\<exists>c3. consumers_step c'' Internal c3)) \<and>
      (\<exists>c3. (\<lambda>a b. consumers_step a Internal b)\<^sup>*\<^sup>* c'' c3 \<and> waitDone c3)"
    if "(\<lambda>a b. \<exists>ev. consumers_step a ev b)\<^sup>*\<^sup>* c' c''" for c''
  proof -
    have r: "consumers_inv c''" "all_closing c''" "closed c''" using closing_steps [OF that c'(2-4)] by simp_all
    show ?thesis using consumers_step_decreases [OF _ r(2)] closing_internal [OF r] closing_drains [OF r] by blast
  qed
  show ?thesis by (rule exI [of _ c'], intro conjI allI impI c') (use rest in blast)+
qed

theorem close_ends_witness:
  "\<exists>c' c3. closeConsumers [ascii ''t''] (startBuffer (ascii ''t'') makeConsumers :: nat consumers) = Inr c' \<and>
     (\<lambda>a b. consumers_step a Internal b)\<^sup>*\<^sup>* c' c3 \<and> waitDone c3"
proof -
  let ?c = "startBuffer (ascii ''t'') makeConsumers :: nat consumers"
  have a: "add (ascii ''t'') makeConsumers = Inr ?c" by (simp add: add_def makeConsumers_def)
  have r: "consumers_reach ?c" by (rule reach_add [OF reach_make a])
  have "set [ascii ''t''] = dom (chans ?c)" by (simp add: startBuffer_def makeConsumers_def)
  from close_ends [OF r this] show ?thesis by blast
qed

text \<open>
  C30.  The order of deliveries is not kept over a cancellation: after a delivery, the cancellation of its
  consumer and another delivery with the same tag, the application can receive the later one first.
\<close>

theorem cancel_reorders:
  assumes "acceptable WantMethod fs"
    and "fst (assembleAll WantMethod fs) =
      [BasicMsg (BasicDeliver m1), BasicMsg (BasicCancel c), BasicMsg (BasicDeliver m2)]"
    and "basicDeliver_ConsumerTag m1 = t" "basicCancel_ConsumerTag c = t" "basicDeliver_ConsumerTag m2 = t"
  shows "\<exists>ch'. channel_run (newChannel (Some ci) True n) fs
    (map (\<lambda>m. wrap ci n (newDelivery \<lparr> ref_connection = Some ci, ref_sink = True, ref_id = n \<rparr>
        (BasicMsg (BasicDeliver m)))) [m2, m1]) ch'"
  using reordered [OF assms] .

theorem cancel_reorders_witness:
  "\<exists>ws ch'. channel_run (newChannel (Some sampleInfo) True 1) sampleCancelled ws ch' \<and>
     map wm_Body ws = [[4, 5, 6], [1, 2, 3]]"
proof -
  from cancel_reorders [OF sample_cancelled, of "ascii ''t''" sampleInfo 1] obtain ch' where
    "channel_run (newChannel (Some sampleInfo) True 1) sampleCancelled
      (map (\<lambda>m. wrap sampleInfo 1 (newDelivery \<lparr> ref_connection = Some sampleInfo, ref_sink = True, ref_id = 1 \<rparr>
        (BasicMsg (BasicDeliver m))))
        [sampleDeliver\<lparr> basicDeliver_Body := [4, 5, 6] \<rparr>, sampleDeliver\<lparr> basicDeliver_Body := [1, 2, 3] \<rparr>]) ch'"
    by (auto simp: sampleDeliver_def sampleCancel_def simp del: newDelivery.simps)
  then show ?thesis
    by (intro exI conjI) (assumption, simp add: basicDeliver_getContent_def del: newDelivery.simps)
qed

section \<open>Totality and outcomes of the codec\<close>

text \<open>
  C31.  \<open>Table.Validate\<close> accepts a table exactly if the writer can encode it, and the only error the writer
  can give is \<open>ErrFieldType\<close>.
\<close>

theorem validate_decides_encoding:
  "(Validate t = None \<longleftrightarrow> (\<exists>bs. writeTable t = Inr bs)) \<and>
   (Validate t \<noteq> None \<longleftrightarrow> writeTable t = Inl ErrFieldType)"
proof -
  have v: "Validate t = None \<longleftrightarrow> (\<exists>bs. writeEntries t = Inr bs)"
    using validate_write(3) [of t] by (simp add: Validate_def)
  have "(\<exists>bs. writeEntries t = Inr bs) \<longleftrightarrow> (\<exists>bs. writeTable t = Inr bs)"
    by (cases "writeEntries t") (auto simp: writeTable_def writeLongstr_def writeU32_def Let_def)
  moreover have "writeEntries t = Inl ErrFieldType" if "\<not> (\<exists>bs. writeEntries t = Inr bs)"
    using that write_errors(3) [of t] by (cases "writeEntries t") auto
  ultimately show ?thesis using v by (auto simp: writeTable_def)
qed

text \<open>
  C32.  What ends the program: a connection panics on a frame exactly if it is a protocol header, or a
  heartbeat on a channel other than 0, or the first body frame after a content header whose size cannot be
  allocated; it never hangs.
\<close>

theorem frames_that_panic:
  assumes "conn_inv c"
  shows "(demux f c = Inl Panic \<longleftrightarrow>
      f = ProtocolHeader \<or>
      (\<exists>n. frame_channel f = Inr n \<and> n \<noteq> 0 \<and>
        (f = HeartbeatFrame \<lparr> hb_ChannelId = n \<rparr> \<or>
         (\<exists>b m h bs. f = BodyFrame b \<and> assemblyOf (channelOf n c) = WantBody m h bs \<and>
            maxAlloc < unat (hf_Size h))))) \<and>
    demux f c \<noteq> Inl Diverged"
proof -
  have "demux f c = Inl Panic \<longleftrightarrow> \<not> conn_accepts c [f]"
    using demuxAll_result [OF assms, of "[f]"] by (cases "demux f c") (auto split: if_splits)
  moreover have "conn_accepts c [f] \<longleftrightarrow> f \<noteq> ProtocolHeader \<and>
      (\<forall>n. frame_channel f = Inr n \<and> n \<noteq> 0 \<longrightarrow> \<not> refuses (assemblyOf (channelOf n c)) f)"
    by (auto simp: conn_accepts_def framesOf_def)
  moreover have "refuses a f \<longleftrightarrow> f = ProtocolHeader \<or> f = HeartbeatFrame \<lparr> hb_ChannelId = n \<rparr> \<or>
      (\<exists>b m h bs. f = BodyFrame b \<and> a = WantBody m h bs \<and> maxAlloc < unat (hf_Size h))"
    if "frame_channel f = Inr n" for a n
    using that by (cases "(a, f)" rule: refuses.cases) auto
  ultimately show ?thesis using demux_panics [OF assms, of f Diverged] by auto
qed

theorem frames_that_panic_witness:
  "demux (HeartbeatFrame \<lparr> hb_ChannelId = 1 \<rparr>) (NewConnection noEndpoint noEndpoint True) = Inl Panic"
  using frames_that_panic [of "NewConnection noEndpoint noEndpoint True" "HeartbeatFrame \<lparr> hb_ChannelId = 1 \<rparr>"]
  by simp

text \<open>
  C33.  A frame written to a connection that takes only so many bytes: without an error the whole frame has
  reached it, and after an error a prefix of the frame has, or nothing where the frame has no encoding.
\<close>

theorem write_frame_outcome:
  "case WriteFrame cappedWrite None w f of
     (None, w') \<Rightarrow> \<exists>bs. frameEncoding f = Inr bs \<and> snd w' = snd w @ bs
   | (Some e, w') \<Rightarrow> (frameEncoding f = Inl e \<and> w' = w) \<or>
       (\<exists>bs p. frameEncoding f = Inr bs \<and> prefix p bs \<and> snd w' = snd w @ p)"
  using capped.frame_write_ok [of w f] capped.frame_write_err [of w f]
  by (auto simp: WriteFrame_def split: prod.split option.split)

section \<open>Connections and the application\<close>

text \<open>
  C34.  A packet touches the connection of its client port only; and a connection keeps for ever the endpoints
  of the first packet with that port, so that a second client host with the same port is taken for the first.
\<close>

theorem connections_by_port:
  assumes "Parse r sep cep p = Inr (err, p')"
  shows "(\<forall>port. port \<noteq> ep_Port cep \<longrightarrow> connections p' port = connections p port) \<and>
    (\<exists>c'. connections p' (ep_Port cep) = Some c' \<and>
       info c' = (case connections p (ep_Port cep) of
         Some c \<Rightarrow> info c | None \<Rightarrow> \<lparr> ServerEP = sep, ClientEP = cep \<rparr>))"
  using Parse_other_port [OF assms] Parse_first_endpoints [OF assms] Parse_later_endpoints [OF assms]
  by (auto split: option.split)

theorem connections_by_port_witness:
  "\<exists>p1 p2 c. Parse [] noEndpoint \<lparr> ep_Host = [1], ep_Port = [9] \<rparr> (NewParser True) = Inr (EOF, p1) \<and>
     Parse [] noEndpoint \<lparr> ep_Host = [2], ep_Port = [9] \<rparr> p1 = Inr (EOF, p2) \<and>
     connections p2 [9] = Some c \<and> ep_Host (ClientEP (info c)) = [1]"
proof -
  let ?a = "\<lparr> ep_Host = [1], ep_Port = [9] \<rparr>" and ?b = "\<lparr> ep_Host = [2], ep_Port = [9] \<rparr>"
  have nil: "parseLoop [] c = Inr (EOF, c)" for c by (simp add: parseLoop.simps [of "[]"])
  obtain p1 where p1: "Parse [] noEndpoint ?a (NewParser True) = Inr (EOF, p1)"
    by (simp add: Parse_connection nil)
  obtain p2 where p2: "Parse [] noEndpoint ?b p1 = Inr (EOF, p2)"
    by (simp add: Parse_connection nil)
  from connections_by_port [OF p1] connections_by_port [OF p2] p1 p2 show ?thesis
    by (auto simp: NewParser_def)
qed

text \<open>
  C35.  A message comes back from its encoding with its id and its start time to the nanosecond and zone, and
  it has an encoding exactly if its zone is a whole number of minutes that fits 16 bits and is not minus one.
\<close>

theorem my_message_round_trip:
  "(\<forall>bs. Marshal m = Inr bs \<longrightarrow> length bs = 19 \<and> Unmarshal bs m' = Inr (None, m)) \<and>
   ((\<exists>bs. Marshal m = Inr bs) \<longleftrightarrow>
      (case bt_zone (mm_start m) of None \<Rightarrow> True
       | Some off \<Rightarrow> off mod 60 = 0 \<and> - 32768 \<le> off div 60 \<and> off div 60 \<noteq> - 1 \<and> off div 60 \<le> 32767))"
proof (intro conjI allI impI)
  fix bs
  assume bs: "Marshal m = Inr bs"
  then show "Unmarshal bs m' = Inr (None, m)" by (rule Unmarshal_Marshal)
  show "length bs = 19"
    using bs length_marshalTime [of "mm_start m"] by (auto simp: Marshal_def split: sum.splits)
qed (auto simp: Marshal_ok_iff marshalOffset_def split: option.split)

theorem my_message_round_trip_witness:
  "\<exists>bs. Marshal \<lparr> mm_id = 5, mm_start = \<lparr> bt_sec = 7, bt_nsec = 8, bt_zone = Some 3600 \<rparr> \<rparr> = Inr bs \<and>
     length bs = 19 \<and>
     Unmarshal bs zeroMessage = Inr (None, \<lparr> mm_id = 5, mm_start = \<lparr> bt_sec = 7, bt_nsec = 8, bt_zone = Some 3600 \<rparr> \<rparr>)"
  using my_message_round_trip [of "\<lparr> mm_id = 5, mm_start = \<lparr> bt_sec = 7, bt_nsec = 8, bt_zone = Some 3600 \<rparr> \<rparr>"
      zeroMessage]
  by auto

text \<open>
  C36.  The publisher calls \<open>Publish\<close>, whatever that does, once for each turn of its loop before it is cancelled:
  with the empty exchange, the key \<open>qu1\<close> and the persistent messages of the numbers 0, 1 and so on, each with the
  time of its turn.  It goes on as long as these calls succeed; the first that fails is the last one, and ends the
  program with its error.
\<close>

theorem publisher_calls:
  assumes "publishLoop (logPublish publish) ts 0 (ch, []) = (e, cnt', ch', calls)"
  shows "publishLoop publish ts 0 ch = (e, cnt', ch') \<and>
    map fst calls = publications 0 (take (length calls) (timesOf ts)) \<and>
    publish_outcome ts 0 e cnt' (map snd calls)"
  using publishLoop_calls [OF assms] by simp

theorem publisher_calls_witness:
  "\<exists>e cnt' n calls. publishLoop (logPublish (\<lambda>n exchange key mandatory immediate p. (n + 1, if n = (1 :: nat) then Some ''closed'' else None)))
       (map Default sampleTimes) 0 (0, []) = (e, cnt', n, calls) \<and>
     e = FatalError (ascii ''failed to publish'') ''closed'' \<and> map fst calls = publications 0 sampleTimes"
proof -
  let ?publish = "\<lambda>n exchange key mandatory immediate p. (n + 1, if n = (1 :: nat) then Some ''closed'' else None)"
  obtain e cnt' n calls where
    r: "publishLoop (logPublish ?publish) (map Default sampleTimes) 0 (0, []) = (e, cnt', n, calls)"
    by (rule prod_cases4)
  have "publishLoop ?publish (map Default sampleTimes) 0 0 = (FatalError (ascii ''failed to publish'') ''closed'', 1, 2)"
    by (simp add: sampleTimes_def del: ascii_simps)
  with publisher_calls [OF r] have e: "e = FatalError (ascii ''failed to publish'') ''closed''" "cnt' = 1"
    and calls: "map fst calls = publications 0 (take (length calls) (timesOf (map Default sampleTimes)))"
      "publish_outcome (map Default sampleTimes) 0 e cnt' (map snd calls)" by simp_all
  have times: "timesOf (map Default sampleTimes) = sampleTimes" by (simp add: sampleTimes_def)
  obtain k where k: "map snd calls = replicate k None @ [Some ''closed'']" "k < 2" "(1 :: u32) = of_nat k"
    using calls(2) unfolding e publish_outcome_def times by (auto simp: sampleTimes_def)
  then have "k = 1" by (cases k) auto
  then have "length (map snd calls) = 2" unfolding k(1) by simp
  then have "map fst calls = publications 0 sampleTimes" using calls(1) unfolding times by (simp add: sampleTimes_def)
  with r e(1) show ?thesis by blast
qed

text \<open>
  C37.  The consumer acknowledges, whatever \<open>Ack\<close> does, the messages it receives one by one and in order, each once and
  not \<open>multiple\<close>, and only those it can decode.  It stops at the first acknowledgement that fails, with its error;
  at the first message it cannot decode, with a panic if that is shorter than four octets; or when the context is
  done or the broker ends the deliveries, and then all that was received before is acknowledged.  It counts the calls.
  A message of the publisher it can decode exactly if its time has an encoding.
\<close>

theorem consumer_acknowledges:
  assumes "consumerLoop bodyOf (logAck ack) evs 0 (s, []) = (e, cnt', s', calls)"
  shows "consumerLoop bodyOf ack evs 0 s = (e, cnt', s') \<and>
    map fst calls = map (\<lambda>d. (d, False)) (take (length calls) (receivedMsgs evs)) \<and>
    (\<forall>((d, multiple), r) \<in> set calls. decodable (bodyOf d)) \<and> cnt' = of_nat (length calls) \<and>
    consumer_outcome bodyOf evs e (map snd calls) \<and>
    (decodable (publishBody cnt now) \<longleftrightarrow> (\<exists>k. marshalOffset now = Inr k))"
  using consumerLoop_calls [OF assms] decodable_publishBody [of cnt now] by simp

theorem consumer_acknowledges_witness:
  "\<exists>b e cnt' n calls. decodable b \<and>
     consumerLoop (\<lambda>d. d) (logAck (\<lambda>n d multiple. (n + 1, if n = (1 :: nat) then Some ''closed'' else None)))
       [Msg b, Msg b, Msg []] 0 (0, []) = (e, cnt', n, calls) \<and>
     e = FatalError (ascii ''failed to consume message'') (Inr ''closed'') \<and> map fst calls = [(b, False), (b, False)]"
proof -
  let ?ack = "\<lambda>n d multiple. (n + 1, if n = (1 :: nat) then Some ''closed'' else None)"
  let ?b = "publishBody 0 (hd sampleTimes)" and ?evs = "[Msg (publishBody 0 (hd sampleTimes)), Msg (publishBody 0 (hd sampleTimes)), Msg []]"
  obtain e cnt' n calls where r: "consumerLoop (\<lambda>d. d) (logAck ?ack) ?evs 0 (0, []) = (e, cnt', n, calls)"
    by (rule prod_cases4)
  note c = consumer_acknowledges [OF r, where cnt = 0 and now = "hd sampleTimes"]
  have dec: "decodable ?b" using c sample_body(1) by blast
  then obtain m where "Unmarshal ?b zeroMessage = Inr (None, m)" by (auto simp: decodable_def)
  then have "consumerLoop (\<lambda>d. d) ?ack ?evs 0 0 = (FatalError (ascii ''failed to consume message'') (Inr ''closed''), 2, 2)"
    by (simp del: ascii_simps)
  with c have e: "e = FatalError (ascii ''failed to consume message'') (Inr ''closed'')" "cnt' = 2" by simp_all
  have len: "length calls \<le> 3" "(2 :: u64) = of_nat (length calls)"
    using c e by (simp_all add: consumer_outcome_def Let_def del: ascii_simps)
  have "length calls = 0 \<or> length calls = 1 \<or> length calls = 2 \<or> length calls = 3" using len(1) by linarith
  then have "length calls = 2" using len(2) by auto
  then have "map fst calls = [(?b, False), (?b, False)]" using c by simp
  then show ?thesis
    by (intro exI [of _ ?b] exI [of _ e] exI [of _ cnt'] exI [of _ n] exI [of _ calls] conjI dec r e(1))
qed

text \<open>
  C38.  The wait group of the publisher and consumer program: its counter never falls below zero, so that no
  \<open>Done\<close> panics; \<open>main\<close> returns only after the context has ended, \<open>publish\<close> has ended and made all its deferred
  calls, and \<open>consume\<close> has called \<open>Done\<close>; whatever has happened, the process can go on until \<open>main\<close> returns
  or one of the three goroutines stops it; and once the context has ended, there are at most ten more steps
  until then, not counting those of the goroutine \<open>consumer\<close>.
\<close>

theorem main_waits:
  assumes "(process_step b)\<^sup>*\<^sup>* processStart s"
  shows "0 \<le> mn_wg s \<and> mn_stop s \<noteq> Some NegativeCounter \<and>
    (mn_pc s = MainReturned \<longrightarrow> mn_ctx s \<and>
       (\<exists>ts ch. publish_fun (br_dialPublish b) (br_channel b) (br_publish b) ts =
          (Finished, Some ch, [ChClose, ConnClose, WgDone]) \<and> mn_pub s = PubEnding ch []) \<and>
       mn_consume s \<in> {ConsumeEnding [ConnClose], ConsumeEnding []}) \<and>
    (\<exists>s'. (process_step b)\<^sup>*\<^sup>* s s' \<and>
       (mn_pc s' = MainReturned \<or> (\<exists>e. mn_stop s' = Some e \<and> stop_reached b e))) \<and>
    (mn_ctx s \<longrightarrow> processRank s \<le> 10 \<and>
       (\<forall>s'. process_step b s s' \<and> live s' \<longrightarrow> processRank s' < processRank s \<or>
          s' = s\<lparr> mn_consumer := mn_consumer s' \<rparr> \<and> mn_consumer s' \<noteq> mn_consumer s))"
proof -
  have inv: "process_inv b s" using process_inv_steps [OF assms process_inv_start] .
  obtain s' where s': "(process_step b)\<^sup>*\<^sup>* s s'" "\<not> live s'" using process_can_end [OF inv] by blast
  then have "mn_pc s' = MainReturned \<or> (\<exists>e. mn_stop s' = Some e \<and> stop_reached b e)"
    using process_inv_steps [OF s'(1) inv] by (auto simp: live_def process_inv_def)
  moreover have "0 \<le> mn_wg s" "mn_stop s \<noteq> Some NegativeCounter" "mn_pc s = MainReturned \<longrightarrow> mn_ctx s"
    using inv by (auto simp: process_inv_def)
  moreover have "mn_ctx s \<longrightarrow> processRank s \<le> 10 \<and>
      (\<forall>s'. process_step b s s' \<and> live s' \<longrightarrow> processRank s' < processRank s \<or>
        s' = s\<lparr> mn_consumer := mn_consumer s' \<rparr> \<and> mn_consumer s' \<noteq> mn_consumer s)"
    using processRank_bound [OF inv] step_nears_end [OF _ inv] by blast
  ultimately show ?thesis using returned_waited [OF inv] s'(1) by simp blast
qed

theorem main_waits_witness:
  "\<exists>s ts ch. (process_step sampleBroker)\<^sup>*\<^sup>* processStart s \<and> mn_pc s = MainReturned \<and>
     publish_fun (br_dialPublish sampleBroker) (br_channel sampleBroker) (br_publish sampleBroker) ts =
       (Finished, Some ch, [ChClose, ConnClose, WgDone])"
proof -
  obtain s where s: "(process_step sampleBroker)\<^sup>*\<^sup>* processStart s" "mn_pc s = MainReturned"
    using returns_over_consumer [OF _ _ _ _ _ sample_consumed, of "()" "[]" "()" "[]"]
    by (auto simp: sampleBroker_def)
  with main_waits [OF s(1)] show ?thesis by blast
qed

text \<open>
  C39.  The goroutine \<open>consumer\<close> is not awaited: if the broker grants what the program asks for, then for
  everything that \<open>consumer\<close> can have received and acknowledged, \<open>main\<close> can return with it right there in its
  loop, its channel open, and with the \<open>conn.Close\<close> of \<open>consume\<close> still to be called.
\<close>

theorem consumer_not_awaited:
  assumes "br_dialPublish b brokerURL = Inr c1" "br_channel b c1 = Inr ch1"
    and "br_dialConsume b brokerURL = Inr c2" "br_channel b c2 = Inr ch2"
    and "br_consume b (fst (br_qos b ch2 1 0 False)) queueName (consumerName 1) False False False False = (ch3, None)"
    and "consumerLoop (br_body b) (br_ack b) evs 0 ch3 = (StillRunning, cnt, ch)"
  shows "\<exists>s. (process_step b)\<^sup>*\<^sup>* processStart s \<and> mn_pc s = MainReturned \<and> mn_stop s = None \<and>
    mn_consume s = ConsumeEnding [ConnClose] \<and> mn_consumer s = ConsumerLoop cnt ch"
  using returns_over_consumer [OF assms] .

theorem consumer_not_awaited_witness:
  "\<exists>s. (process_step sampleBroker)\<^sup>*\<^sup>* processStart s \<and> mn_pc s = MainReturned \<and> mn_consumer s = ConsumerLoop 1 []"
  using consumer_not_awaited [OF _ _ _ _ _ sample_consumed, of "()" "[]" "()" "[]"]
  by (auto simp: sampleBroker_def)

section \<open>Corners of the protocol code\<close>

text \<open>
  C40.  The limits of strings, which no function reports.  A string of any length is written as a short string
  without an error, but only its first \<open>length mod 256\<close> bytes are, with that number as the length: strings of
  less than 256 bytes come back whole and no others do.  And a long string whose length field is 2 to the 31 or
  more is read as the empty string, without an error and with its bytes left in the input.
\<close>

theorem string_limits:
  "(\<exists>bs. writeShortstr b = Inr bs \<and>
     (\<forall>rest. readShortstr (bs @ rest) = (Inr (take (length b mod 256) b), rest)) \<and>
     (take (length b mod 256) b = b \<longleftrightarrow> length b < 256)) \<and>
   (\<forall>len rest. 2 ^ 31 \<le> unat len \<longrightarrow> readLongstr (putU32 len @ rest) = (Inr [], rest))"
proof -
  have "take (length b mod 256) b = b \<longleftrightarrow> length b < 256"
  proof
    assume "take (length b mod 256) b = b"
    then have "length b \<le> length b mod 256" by (metis length_take min.cobounded2 min.commute)
    then show "length b < 256" using mod_less_divisor [of 256 "length b"] by linarith
  qed simp
  moreover have "readLongstr (putU32 len @ rest) = (Inr [], rest)" if "2 ^ 31 \<le> unat len" for len rest
    using that u32_half [of len] by (simp add: readLongstr_def)
  ultimately show ?thesis using readShortstr_writeShortstr [of b] by (auto simp: decodes_def)
qed

theorem string_limits_witness:
  "(\<exists>bs. writeShortstr (replicate 300 7) = Inr bs \<and> readShortstr bs = (Inr (replicate 44 7), [])) \<and>
   readLongstr (putU32 0x80000000 @ [1, 2, 3]) = (Inr [], [1, 2, 3])"
proof -
  note l = string_limits [of "replicate 300 7"]
  obtain bs where "writeShortstr (replicate 300 7) = Inr bs"
    "\<And>rest. readShortstr (bs @ rest) = (Inr (take 44 (replicate 300 7)), rest)"
    using l by auto
  from this(1) this(2) [of "[]"] have "\<exists>bs. writeShortstr (replicate 300 7) = Inr bs \<and> readShortstr bs = (Inr (replicate 44 7), [])"
    by (auto simp: min_def)
  moreover have "readLongstr (putU32 0x80000000 @ [1, 2, 3]) = (Inr [], [1, 2, 3])"
    using l by (elim conjE allE [of _ "0x80000000"] allE [of _ "[1, 2, 3]"]) simp
  ultimately show ?thesis ..
qed

end
